(* ===== verification/Prelude.thy ===== *)
theory Prelude
  imports Complex_Main "HOL-Library.Product_Lexorder" "HOL-Library.Word"
begin

text \<open>
  Vocabulary and automation shared by the whole development: the types every component
  names, the errors of the Python runtime, Python's truthiness operator, the decimal and
  hexadecimal rendering of integers, and the generic lemmas on lists and maps that the
  component proofs use.

  Python integers are unbounded, so they are \<open>int\<close>; times are integer milliseconds or
  seconds. A Python \<open>str\<close> is a \<open>string\<close> with one character per code point.
\<close>

section \<open>Collections of facts\<close>

named_theorems wf_intros \<open>introduction rules for well-formedness invariants\<close>
named_theorems wf_dests \<open>what a well-formedness invariant gives\<close>

section \<open>Types\<close>

type_synonym millis = int
type_synonym uuid = "128 word"

datatype py_error = ZeroDivisionError | IndexError | TypeError string | ValueError string | KeyError string
  | UnboundLocalError string

section \<open>Results\<close>

text \<open>An expression that may raise is a sum: \<open>Inl\<close> the exception, \<open>Inr\<close> the value.\<close>

definition is_ok :: "'e + 'a \<Rightarrow> bool" where
  "is_ok r = (case r of Inl _ \<Rightarrow> False | Inr _ \<Rightarrow> True)"

lemma is_ok_simps [simp]: "is_ok (Inr a)" "\<not> is_ok (Inl e)"
  by (simp_all add: is_ok_def)

lemma is_ok_iff: "is_ok r \<longleftrightarrow> (\<exists>a. r = Inr a)"
  by (cases r) auto

section \<open>Truthiness\<close>

text \<open>Python's \<open>a or b\<close> on an optional integer: \<open>None\<close> and \<open>0\<close> are both false.\<close>

definition or_int :: "int option \<Rightarrow> int \<Rightarrow> int" where
  "or_int a b = (case a of None \<Rightarrow> b | Some n \<Rightarrow> if n = 0 then b else n)"

text \<open>Python's \<open>a or b\<close> on optional strings: \<open>None\<close> and the empty string are both false.\<close>

definition or_str :: "string option \<Rightarrow> string option \<Rightarrow> string option" where
  "or_str a b = (case a of None \<Rightarrow> b | Some s \<Rightarrow> if s = [] then b else Some s)"

lemma or_int_simps [simp]:
  "or_int None b = b"
  "or_int (Some 0) b = b"
  "n \<noteq> 0 \<Longrightarrow> or_int (Some n) b = n"
  by (simp_all add: or_int_def)

lemma or_int_pos: "0 < b \<Longrightarrow> (\<And>n. a = Some n \<Longrightarrow> 0 \<le> n) \<Longrightarrow> 0 < or_int a b"
  by (cases a) (auto simp: or_int_def order_le_less)

lemma or_str_simps [simp]:
  "or_str None b = b"
  "or_str (Some []) b = b"
  "or_str (Some (c # s)) b = Some (c # s)"
  "or_str a a = a"
  by (auto simp: or_str_def split: option.splits)

section \<open>Rendering integers\<close>

definition digit_char :: "nat \<Rightarrow> char" where
  "digit_char d = char_of (if d < 10 then 48 + d else 87 + d)"

text \<open>\<open>str(n)\<close> of a non-negative integer and of any integer.\<close>

fun nat_str :: "nat \<Rightarrow> string" where
  "nat_str n = (if n < 10 then [digit_char n] else nat_str (n div 10) @ [digit_char (n mod 10)])"

declare nat_str.simps [simp del]

definition int_str :: "int \<Rightarrow> string" where
  "int_str n = (if n < 0 then CHR ''-'' # nat_str (nat (- n)) else nat_str (nat n))"

text \<open>The last \<open>k\<close> hexadecimal digits of \<open>n\<close>, most significant first.\<close>

fun hex_digits :: "nat \<Rightarrow> nat \<Rightarrow> string" where
  "hex_digits 0 n = []"
| "hex_digits (Suc k) n = hex_digits k (n div 16) @ [digit_char (n mod 16)]"

lemma of_char_digit: "d < 16 \<Longrightarrow> (of_char (digit_char d) :: nat) = (if d < 10 then 48 + d else 87 + d)"
  by (simp add: digit_char_def take_bit_eq_mod)

lemma digit_char_inj:
  assumes "a < 16" "b < 16" "digit_char a = digit_char b"
  shows "a = b"
proof -
  have "(of_char (digit_char a) :: nat) = of_char (digit_char b)" using assms(3) by simp
  then show ?thesis using assms(1,2) by (simp add: of_char_digit split: if_splits)
qed

lemma digit_char_neq:
  assumes "d < 16"
  shows "digit_char d \<noteq> CHR ''-''" "digit_char d \<noteq> CHR '':''"
proof -
  have "(of_char (digit_char d) :: nat) \<noteq> of_char CHR ''-''"
    "(of_char (digit_char d) :: nat) \<noteq> of_char CHR '':''"
    using assms by (auto simp: of_char_digit)
  then show "digit_char d \<noteq> CHR ''-''" "digit_char d \<noteq> CHR '':''" by auto
qed

lemma nat_str_nonempty [simp]: "nat_str n \<noteq> []"
  by (subst nat_str.simps) simp

lemma nat_str_small: "n < 10 \<Longrightarrow> nat_str n = [digit_char n]"
  by (subst nat_str.simps) simp

lemma nat_str_large: "\<not> n < 10 \<Longrightarrow> nat_str n = nat_str (n div 10) @ [digit_char (n mod 10)]"
  by (subst nat_str.simps) simp

lemma digit_char_numerals:
  "digit_char 0 = CHR ''0''" "digit_char 1 = CHR ''1''" "digit_char (Suc 0) = CHR ''1''" "digit_char 2 = CHR ''2''"
  "digit_char 3 = CHR ''3''" "digit_char 4 = CHR ''4''" "digit_char 5 = CHR ''5''" "digit_char 6 = CHR ''6''"
  "digit_char 7 = CHR ''7''" "digit_char 8 = CHR ''8''" "digit_char 9 = CHR ''9''"
  by (simp_all add: digit_char_def char_of_def bit_0)

lemmas nat_str_eval = nat_str_small nat_str_large digit_char_numerals

lemma nat_str_inj: "nat_str m = nat_str n \<Longrightarrow> m = n"
proof (induction m arbitrary: n rule: nat_str.induct)
  case (1 m)
  have digits: "digit_char a = digit_char b \<Longrightarrow> a < 10 \<Longrightarrow> b < 10 \<Longrightarrow> a = b" for a b
    by (rule digit_char_inj) simp_all
  show ?case
  proof (cases "m < 10")
    case True
    with 1(2) have "n < 10" by (cases "n < 10") (simp_all add: nat_str_small nat_str_large eq_commute [of "[]"])
    with True 1(2) show ?thesis by (simp add: nat_str_small digits)
  next
    case False
    with 1(2) have n: "\<not> n < 10" by (cases "n < 10") (simp_all add: nat_str_small nat_str_large)
    with False 1(2) have "nat_str (m div 10) = nat_str (n div 10)"
      and "digit_char (m mod 10) = digit_char (n mod 10)" by (simp_all add: nat_str_large)
    with 1(1) [OF False] digits have "m div 10 = n div 10" "m mod 10 = n mod 10" by simp_all
    then show ?thesis by (metis div_mult_mod_eq)
  qed
qed

lemma nat_str_chars: "c \<in> set (nat_str n) \<Longrightarrow> c \<in> digit_char ` {..<16}"
proof (induction n rule: nat_str.induct)
  case (1 n)
  then show ?case by (cases "n < 10") (auto simp: nat_str_small nat_str_large)
qed

lemma nat_str_no_punct [simp]: "CHR ''-'' \<notin> set (nat_str n)" "CHR '':'' \<notin> set (nat_str n)"
  by (metis imageE lessThan_iff nat_str_chars digit_char_neq)+

lemma int_str_inj: "int_str m = int_str n \<Longrightarrow> m = n"
proof -
  have minus: "nat_str k \<noteq> CHR ''-'' # t" for k t
    by (metis list.set_intros(1) nat_str_no_punct(1))
  show "int_str m = int_str n \<Longrightarrow> m = n"
    using minus minus [symmetric]
    by (auto simp: int_str_def split: if_splits dest!: nat_str_inj)
qed

lemma int_str_no_colon [simp]: "CHR '':'' \<notin> set (int_str n)"
  by (simp add: int_str_def)

lemma length_hex_digits [simp]: "length (hex_digits k n) = k"
  by (induction k arbitrary: n) auto

lemma hex_digits_inj:
  "m < 16 ^ k \<Longrightarrow> n < 16 ^ k \<Longrightarrow> hex_digits k m = hex_digits k n \<Longrightarrow> m = n"
proof (induction k arbitrary: m n)
  case (Suc k)
  then have "m div 16 = n div 16" "m mod 16 = n mod 16"
    by (auto simp: less_mult_imp_div_less mult.commute intro: digit_char_inj)
  then show ?case by (metis div_mult_mod_eq)
qed simp

lemma hex_digits_chars: "c \<in> set (hex_digits k n) \<Longrightarrow> c \<in> digit_char ` {..<16}"
  by (induction k arbitrary: n) auto

lemma hex_digits_no_punct [simp]:
  "CHR ''-'' \<notin> set (hex_digits k n)" "CHR '':'' \<notin> set (hex_digits k n)"
  by (metis imageE lessThan_iff hex_digits_chars digit_char_neq)+

section \<open>Lists\<close>

text \<open>\<open>sep.join(parts)\<close>.\<close>

fun join :: "string \<Rightarrow> string list \<Rightarrow> string" where
  "join sep [] = []"
| "join sep [s] = s"
| "join sep (s # t # ts) = s @ sep @ join sep (t # ts)"

text \<open>
  The first segment of a joined string is readable again when it does not contain the
  separator character.
\<close>

lemma split_at_char:
  assumes "c \<notin> set xs" "c \<notin> set ys" "xs @ c # us = ys @ c # vs"
  shows "xs = ys \<and> us = vs"
  using assms
proof (induction xs arbitrary: ys)
  case Nil
  then show ?case by (cases ys) auto
next
  case (Cons x xs)
  then show ?case by (cases ys) auto
qed

lemma distinct_singleton_set:
  assumes "set xs = {x}" "distinct xs"
  shows "xs = [x]"
proof (cases xs)
  case (Cons y ys)
  with assms have "y = x" "set ys \<subseteq> {x}" "x \<notin> set ys" by auto
  then have "ys = []" by (cases ys) auto
  with Cons \<open>y = x\<close> show ?thesis by simp
qed (use assms in simp)

end
