(* ===== verification/Binary64.thy ===== *)
theory Binary64
  imports Prelude "HOL-Library.Log_Nat"
begin

text \<open>
  IEEE 754 double arithmetic, as CPython's \<open>float\<close> and Lua's \<open>number\<close> have it.

  A double is represented by its value, a rational. Each arithmetic operation of the
  source is the exact rational operation followed by one rounding \<open>fl\<close> to the nearest
  number with a 53-bit significand, ties to the even significand. The exponent range is
  unbounded here: overflow to infinity, gradual underflow and NaN are not represented.
  The quantities of the program (counts, capacities and times of 32 to 41 bits, and
  quotients of them) stay far inside the range of the format.

  \<open>fl\<close> is executable. Its laws (monotone, exact on every number of at most 53
  significant bits, relative error at most \<open>2 powi -53\<close>) are what the component proofs
  use; none of them unfolds the rounding itself.
\<close>

section \<open>Rounding to the nearest double\<close>

text \<open>Nearest integer, ties to even: Python's \<open>round(x)\<close>.\<close>

definition round_even :: "rat \<Rightarrow> int" where
  "round_even x =
     (let f = \<lfloor>x\<rfloor>; d = x - of_int f in
      if d < 1 / 2 then f else if d > 1 / 2 then f + 1 else if even f then f else f + 1)"

text \<open>The binary exponent: \<open>2 powi ilog2 x \<le> x < 2 powi (ilog2 x + 1)\<close> for positive \<open>x\<close>.\<close>

definition ilog2 :: "rat \<Rightarrow> int" where
  "ilog2 x =
     (let (p, q) = quotient_of x; e = bitlen p - bitlen q in
      if 2 powi e \<le> x then e else e - 1)"

definition fl_pos :: "rat \<Rightarrow> rat" where
  "fl_pos x = (let u = 2 powi (ilog2 x - 52) in of_int (round_even (x / u)) * u)"

definition fl :: "rat \<Rightarrow> rat" where
  "fl x = (if x = 0 then 0 else if x < 0 then - fl_pos (- x) else fl_pos x)"

section \<open>Laws of rounding\<close>

lemma round_even_of_int [simp]: "round_even (of_int n) = n"
  by (simp add: round_even_def)

lemma round_even_bounds: "\<bar>of_int (round_even x) - x\<bar> \<le> 1 / 2"
proof -
  have "of_int \<lfloor>x\<rfloor> \<le> x" "x < of_int \<lfloor>x\<rfloor> + 1" by linarith+
  then show ?thesis
    by (auto simp: round_even_def Let_def abs_le_iff)
qed

lemma round_even_mono:
  assumes "x \<le> y"
  shows "round_even x \<le> round_even y"
proof (cases "\<lfloor>x\<rfloor> = \<lfloor>y\<rfloor>")
  case True
  with assms show ?thesis by (auto simp: round_even_def Let_def)
next
  case False
  with floor_mono [OF assms] have "\<lfloor>x\<rfloor> + 1 \<le> \<lfloor>y\<rfloor>" by linarith
  moreover have "round_even x \<le> \<lfloor>x\<rfloor> + 1" by (simp add: round_even_def Let_def)
  moreover have "\<lfloor>y\<rfloor> \<le> round_even y" by (simp add: round_even_def Let_def)
  ultimately show ?thesis by linarith
qed

lemma bitlen_rat_bounds:
  assumes "0 < p"
  shows "2 powi (bitlen p - 1) \<le> (of_int p :: rat)" "of_int p < (2 powi bitlen p :: rat)"
proof -
  have one: "1 \<le> bitlen p" using assms bitlen_ge_iff_power [of 1 p] by simp
  have lo: "(2 ^ nat (bitlen p - 1) :: int) \<le> p" and hi: "p < 2 ^ nat (bitlen p)"
    using bitlen_bounds [OF assms] by simp_all
  have "of_int (2 ^ nat (bitlen p - 1)) \<le> (of_int p :: rat)" using lo by (simp only: of_int_le_iff)
  then show "2 powi (bitlen p - 1) \<le> (of_int p :: rat)" using one by (simp add: power_int_nonneg_exp)
  have "of_int p < (of_int (2 ^ nat (bitlen p)) :: rat)" using hi by (simp only: of_int_less_iff)
  then show "of_int p < (2 powi bitlen p :: rat)" using one by (simp add: power_int_nonneg_exp)
qed

lemma ilog2_bounds:
  assumes "0 < x"
  shows "2 powi ilog2 x \<le> x" "x < 2 powi (ilog2 x + 1)"
proof -
  obtain p q where pq: "quotient_of x = (p, q)" by fastforce
  have q: "0 < q" using quotient_of_denom_pos [OF pq] .
  have x: "x = of_int p / of_int q" using quotient_of_div [OF pq] .
  with assms q have p: "0 < p" by (simp add: zero_less_divide_iff)
  let ?e = "bitlen p - bitlen q"
  have up: "x < 2 powi (?e + 1)"
  proof -
    have "of_int p < (2 powi (?e + 1) * 2 powi (bitlen q - 1) :: rat)"
      using bitlen_rat_bounds(2) [OF p] by (simp flip: power_int_add)
    also have "\<dots> \<le> 2 powi (?e + 1) * of_int q"
      using bitlen_rat_bounds(1) [OF q] by (intro mult_left_mono) auto
    finally show ?thesis using q by (simp add: x pos_divide_less_eq)
  qed
  have lo: "2 powi (?e - 1) \<le> x"
  proof -
    have "2 powi (?e - 1) * of_int q \<le> (2 powi (?e - 1) * 2 powi (bitlen q) :: rat)"
      using bitlen_rat_bounds(2) [OF q] by (intro mult_left_mono) auto
    also have "\<dots> = 2 powi (bitlen p - 1)" by (simp flip: power_int_add)
    also have "\<dots> \<le> of_int p" by (rule bitlen_rat_bounds(1) [OF p])
    finally show ?thesis using q by (simp add: x pos_le_divide_eq)
  qed
  show "2 powi ilog2 x \<le> x" "x < 2 powi (ilog2 x + 1)"
    using up lo by (auto simp: ilog2_def pq Let_def not_le)
qed

lemma ilog2_unique:
  assumes "2 powi e \<le> x" "x < (2 powi (e + 1) :: rat)"
  shows "ilog2 x = e"
proof -
  have x: "0 < x" using assms(1) by (rule less_le_trans [rotated]) simp
  have "(2::rat) powi e < 2 powi (ilog2 x + 1)"
    using assms(1) ilog2_bounds(2) [OF x] by (rule le_less_trans)
  moreover have "(2::rat) powi ilog2 x < 2 powi (e + 1)"
    using ilog2_bounds(1) [OF x] assms(2) by (rule le_less_trans)
  ultimately have "e < ilog2 x + 1" "ilog2 x < e + 1"
    by (meson not_le one_le_numeral power_int_increasing)+
  then show ?thesis by simp
qed

lemma ilog2_mono:
  assumes "0 < x" "x \<le> y"
  shows "ilog2 x \<le> ilog2 y"
proof (rule ccontr)
  assume "\<not> ilog2 x \<le> ilog2 y"
  then have "(2::rat) powi (ilog2 y + 1) \<le> 2 powi ilog2 x"
    by (intro power_int_increasing) auto
  also have "\<dots> \<le> x" by (rule ilog2_bounds(1)) fact
  finally show False using ilog2_bounds(2) [of y] assms by simp
qed

lemma fl_pos_range:
  assumes "0 < x"
  shows "2 powi ilog2 x \<le> fl_pos x" "fl_pos x \<le> 2 powi (ilog2 x + 1)"
proof -
  let ?u = "2 powi (ilog2 x - 52) :: rat"
  have u: "0 < ?u" by simp
  have "(2::rat) powi ilog2 x / ?u = of_int (2 ^ 52)"
    by (simp add: power_int_diff)
  then have "of_int (2 ^ 52) \<le> x / ?u"
    using ilog2_bounds(1) [OF assms] u by (metis divide_right_mono less_imp_le)
  from round_even_mono [OF this] have "2 ^ 52 \<le> round_even (x / ?u)"
    by (simp only: round_even_of_int)
  then have "of_int (2 ^ 52) * ?u \<le> fl_pos x"
    unfolding fl_pos_def Let_def by (intro mult_right_mono) (simp_all only: of_int_le_iff, simp)
  then show "2 powi ilog2 x \<le> fl_pos x" by (simp add: power_int_diff)
  have "(2::rat) powi (ilog2 x + 1) / ?u = of_int (2 ^ 53)"
    by (simp add: power_int_diff power_int_add)
  then have "x / ?u \<le> of_int (2 ^ 53)"
    using ilog2_bounds(2) [OF assms] u by (metis divide_right_mono less_imp_le)
  from round_even_mono [OF this] have "round_even (x / ?u) \<le> 2 ^ 53"
    by (simp only: round_even_of_int)
  then have "fl_pos x \<le> of_int (2 ^ 53) * ?u"
    unfolding fl_pos_def Let_def by (intro mult_right_mono) (simp_all only: of_int_le_iff, simp)
  then show "fl_pos x \<le> 2 powi (ilog2 x + 1)" by (simp add: power_int_diff power_int_add)
qed

lemma fl_pos_mono:
  assumes "0 < x" "x \<le> y"
  shows "fl_pos x \<le> fl_pos y"
proof (cases "ilog2 x = ilog2 y")
  case True
  let ?u = "2 powi (ilog2 y - 52) :: rat"
  have "x / ?u \<le> y / ?u" using assms by (intro divide_right_mono) auto
  from round_even_mono [OF this] show ?thesis
    unfolding fl_pos_def Let_def True by (intro mult_right_mono) auto
next
  case False
  with ilog2_mono [OF assms] have "(2::rat) powi (ilog2 x + 1) \<le> 2 powi ilog2 y"
    by (intro power_int_increasing) auto
  with fl_pos_range(2) [OF assms(1)] fl_pos_range(1) [of y] assms show ?thesis by simp
qed

lemma fl_pos_pos: "0 < x \<Longrightarrow> 0 < fl_pos x"
  by (rule less_le_trans [OF _ fl_pos_range(1)]) auto

lemma fl_0 [simp]: "fl 0 = 0"
  by (simp add: fl_def)

lemma fl_uminus: "fl (- x) = - fl x"
  by (simp add: fl_def)

lemma fl_pos_iff [simp]: "0 < fl x \<longleftrightarrow> 0 < x"
  using fl_pos_pos [of x] fl_pos_pos [of "- x"] by (auto simp: fl_def)

lemma fl_nonneg_iff [simp]: "0 \<le> fl x \<longleftrightarrow> 0 \<le> x"
  using fl_pos_pos [of x] fl_pos_pos [of "- x"] by (auto simp: fl_def not_less)

lemma fl_eq_0_iff [simp]: "fl x = 0 \<longleftrightarrow> x = 0"
  using fl_pos_pos [of x] fl_pos_pos [of "- x"] by (auto simp: fl_def)

lemma fl_mono:
  assumes "x \<le> y"
  shows "fl x \<le> fl y"
proof (cases "0 < x \<or> y < 0")
  case True
  with assms show ?thesis
    using fl_pos_mono [of x y] fl_pos_mono [of "- y" "- x"] by (auto simp: fl_def)
next
  case False
  then have "0 \<le> fl (- x)" "0 \<le> fl y" by simp_all
  then have "fl x \<le> 0" "0 \<le> fl y" by (simp_all only: fl_uminus neg_0_le_iff_le)
  then show ?thesis by (rule order_trans)
qed

text \<open>Every number with a significand of at most 53 bits is represented exactly.\<close>

lemma fl_pos_exact:
  assumes "0 < m" "m \<le> 2 ^ 53"
  shows "fl_pos (of_int m * 2 powi k) = of_int m * 2 powi k"
proof -
  let ?x = "of_int m * 2 powi k :: rat"
  let ?e = "ilog2 ?x"
  have x: "0 < ?x" using assms by simp
  have "\<exists>n. ?x / 2 powi (?e - 52) = of_int n"
  proof (cases "m = 2 ^ 53")
    case True
    then have "?x = 2 powi (k + 53)" by (simp add: power_int_add)
    then have "?e = k + 53" by (intro ilog2_unique) (auto intro: power_int_strict_increasing)
    with True have "?x / 2 powi (?e - 52) = of_int (2 ^ 52)"
      by (simp add: power_int_add)
    then show ?thesis ..
  next
    case False
    with assms have "m < 2 ^ 53" by simp
    then have "of_int m < (of_int (2 ^ 53) :: rat)" by (simp only: of_int_less_iff)
    then have "?x < 2 powi 53 * 2 powi k" by (intro mult_strict_right_mono) auto
    then have "?x < 2 powi (53 + k)" by (simp add: power_int_add)
    with ilog2_bounds(1) [OF x] have "(2::rat) powi ?e < 2 powi (53 + k)" by simp
    then have "?e < 53 + k" by (meson not_le one_le_numeral power_int_increasing)
    then have nn: "0 \<le> k - (?e - 52)" by simp
    have "?x / 2 powi (?e - 52) = of_int m * 2 powi (k - (?e - 52))"
      by (simp add: power_int_diff)
    also have "\<dots> = of_int (m * 2 ^ nat (k - (?e - 52)))"
      using nn by (simp add: power_int_nonneg_exp)
    finally show ?thesis ..
  qed
  then obtain n where n: "?x / 2 powi (?e - 52) = of_int n" ..
  then show ?thesis
    unfolding fl_pos_def Let_def n round_even_of_int
    by (metis n nonzero_eq_divide_eq power_int_not_zero zero_neq_numeral)
qed

lemma fl_exact:
  assumes "\<bar>m\<bar> \<le> 2 ^ 53"
  shows "fl (of_int m * 2 powi k) = of_int m * 2 powi k"
proof -
  consider "m = 0" | "0 < m" | "m < 0" by linarith
  then show ?thesis
  proof cases
    case 2
    with assms have "0 < of_int m * (2::rat) powi k" "fl_pos (of_int m * 2 powi k) = of_int m * 2 powi k"
      by (auto intro: fl_pos_exact)
    then show ?thesis by (simp add: fl_def)
  next
    case 3
    with assms have "0 < of_int (- m) * (2::rat) powi k"
      "fl_pos (of_int (- m) * 2 powi k) = of_int (- m) * 2 powi k"
      by (auto intro: fl_pos_exact simp del: of_int_minus)
    then show ?thesis by (simp add: fl_def)
  qed simp
qed

lemma fl_of_int: "\<bar>n\<bar> \<le> 2 ^ 53 \<Longrightarrow> fl (of_int n) = of_int n"
  using fl_exact [of n 0] by simp

lemma fl_idem [simp]: "fl (fl x) = fl x"
proof -
  have *: "fl_pos (fl_pos y) = fl_pos y" if "0 < y" for y
  proof -
    let ?u = "2 powi (ilog2 y - 52) :: rat" and ?m = "round_even (y / 2 powi (ilog2 y - 52))"
    have eq: "fl_pos y = of_int ?m * ?u" by (simp add: fl_pos_def Let_def)
    have "0 < of_int ?m * ?u" using fl_pos_pos [OF that] by (simp only: eq)
    moreover have "0 < ?u" by simp
    ultimately have "0 < (of_int ?m :: rat)" using zero_less_mult_pos2 by blast
    then have "0 < ?m" by (simp only: of_int_0_less_iff)
    have "of_int ?m * ?u \<le> 2 powi (ilog2 y + 1)" using fl_pos_range(2) [OF that] by (simp only: eq)
    then have "of_int ?m \<le> (of_int (2 ^ 53) :: rat)"
      by (simp add: power_int_add power_int_diff field_simps)
    then have "?m \<le> 2 ^ 53" by (simp only: of_int_le_iff)
    with \<open>0 < ?m\<close> show ?thesis unfolding eq by (rule fl_pos_exact)
  qed
  show ?thesis
    using * [of x] * [of "- x"] fl_pos_pos [of x] fl_pos_pos [of "- x"] by (auto simp: fl_def)
qed

text \<open>Relative error of one rounding: half a unit in the last place.\<close>

lemma fl_error: "\<bar>fl x - x\<bar> \<le> \<bar>x\<bar> / 2 ^ 53"
proof -
  have *: "\<bar>fl_pos y - y\<bar> \<le> y / 2 ^ 53" if "0 < y" for y
  proof -
    let ?u = "2 powi (ilog2 y - 52) :: rat"
    have "fl_pos y - y = (of_int (round_even (y / ?u)) - y / ?u) * ?u"
      by (simp add: fl_pos_def Let_def left_diff_distrib)
    then have "\<bar>fl_pos y - y\<bar> = \<bar>of_int (round_even (y / ?u)) - y / ?u\<bar> * ?u"
      by (simp add: abs_mult)
    also have "\<dots> \<le> 1 / 2 * ?u" by (intro mult_right_mono round_even_bounds) auto
    also have "\<dots> = 2 powi ilog2 y / 2 ^ 53" by (simp add: power_int_diff)
    also have "\<dots> \<le> y / 2 ^ 53" using ilog2_bounds(1) [OF that] by (intro divide_right_mono) auto
    finally show ?thesis .
  qed
  consider "x = 0" | "0 < x" | "x < 0" by linarith
  then show ?thesis
  proof cases
    case 3
    then show ?thesis using * [of "- x"] by (simp add: fl_def abs_minus_commute)
  qed (use * [of x] in \<open>simp_all add: fl_def\<close>)
qed

lemma fl_le_of_int: "x \<le> of_int n \<Longrightarrow> \<bar>n\<bar> \<le> 2 ^ 53 \<Longrightarrow> fl x \<le> of_int n"
  using fl_mono [of x "of_int n"] by (simp add: fl_of_int)

lemma fl_ge_of_int: "of_int n \<le> x \<Longrightarrow> \<bar>n\<bar> \<le> 2 ^ 53 \<Longrightarrow> of_int n \<le> fl x"
  using fl_mono [of "of_int n" x] by (simp add: fl_of_int)

lemma fl_numeral [simp]: "fl 1 = 1" "fl 1000 = 1000"
  using fl_of_int [of 1] fl_of_int [of 1000] by simp_all

text \<open>The unit roundoff, half the distance from 1 to the next double.\<close>

definition unit_roundoff :: rat where
  "unit_roundoff = 1 / 2 ^ 53"

lemma unit_roundoff_pos: "0 < unit_roundoff" "0 \<le> unit_roundoff"
  by (simp_all add: unit_roundoff_def)

lemma fl_upper: "0 \<le> x \<Longrightarrow> fl x \<le> x + x / 2 ^ 53"
  using fl_error [of x] abs_ge_self [of "fl x - x"] abs_of_nonneg [of x] by linarith

lemma fl_lower: "0 \<le> x \<Longrightarrow> x - x / 2 ^ 53 \<le> fl x"
  using fl_error [of x] abs_ge_minus_self [of "fl x - x"] abs_of_nonneg [of x] by linarith

lemma fl_upper_mult:
  assumes "0 \<le> x" "x \<le> y"
  shows "fl x \<le> y * (1 + unit_roundoff)"
proof -
  have "fl x \<le> fl y" using assms(2) by (rule fl_mono)
  also have "fl y \<le> y + y / 2 ^ 53" using assms by (intro fl_upper) simp
  also have "\<dots> = y * (1 + unit_roundoff)" by (simp add: unit_roundoff_def distrib_left)
  finally show ?thesis .
qed

lemma fl_upper_add:
  assumes "0 \<le> x" "x \<le> c"
  shows "fl x \<le> x + c * unit_roundoff"
proof -
  have "fl x \<le> x + x / 2 ^ 53" using assms(1) by (rule fl_upper)
  also have "x / 2 ^ 53 \<le> c * unit_roundoff" using assms(2) by (simp add: unit_roundoff_def)
  finally show ?thesis by simp
qed

text \<open>A positive double is an integer significand of at most 53 bits times a power of two.\<close>

lemma double_form:
  assumes "fl x = x" "0 < x"
  obtains m where "x = of_int m * 2 powi (ilog2 x - 52)" "0 < m" "m < 2 ^ 53"
proof -
  let ?u = "2 powi (ilog2 x - 52) :: rat" and ?m = "round_even (x / 2 powi (ilog2 x - 52))"
  have x: "x = of_int ?m * ?u"
    using assms by (simp add: fl_def fl_pos_def Let_def)
  have u: "0 < ?u" by simp
  then have m: "of_int ?m = x / ?u" using x by (metis nonzero_mult_div_cancel_right less_irrefl)
  then have "0 < (of_int ?m :: rat)" using assms(2) u by simp
  then have "0 < ?m" by (simp only: of_int_0_less_iff)
  moreover have "x / ?u < 2 powi (ilog2 x + 1) / ?u"
    using ilog2_bounds(2) [OF assms(2)] u by (rule divide_strict_right_mono)
  then have "of_int ?m < (of_int (2 ^ 53) :: rat)"
    unfolding m by (simp add: power_int_add power_int_diff)
  then have "?m < 2 ^ 53" by (simp only: of_int_less_iff)
  ultimately show thesis using that x by blast
qed

text \<open>Taking one from a double between 1 and \<open>2 ^ 53\<close> does not round.\<close>

lemma fl_minus_one:
  assumes "fl x = x" "1 \<le> x" "x \<le> of_int (2 ^ 53)"
  shows "fl (x - 1) = x - 1"
proof (cases "x = of_int (2 ^ 53)")
  case True
  then have "x - 1 = of_int (2 ^ 53 - 1)" by simp
  then show ?thesis using fl_of_int [of "2 ^ 53 - 1"] by simp
next
  case False
  let ?e = "ilog2 x"
  obtain m where x: "x = of_int m * 2 powi (?e - 52)" and m: "0 < m" "m < 2 ^ 53"
    using double_form [OF assms(1)] assms(2) by auto
  have "x < of_int (2 ^ 53)" using assms(3) False by simp
  then have "(2::rat) powi ?e < 2 powi 53" using ilog2_bounds(1) [of x] assms(2) by simp
  then have "?e < 53" by (meson not_le one_le_numeral power_int_increasing)
  then have "0 \<le> 52 - ?e" by simp
  then obtain k where k: "52 - ?e = int k" by (rule nonneg_int_cases)
  then have e: "?e - 52 = - int k" by simp
  have eq: "x - 1 = of_int (m - 2 ^ k) * 2 powi (?e - 52)"
    using x unfolding e by (simp add: left_diff_distrib power_int_minus)
  have "0 \<le> x - 1" using assms(2) by simp
  then have "0 \<le> of_int (m - 2 ^ k) * (2::rat) powi (?e - 52)" unfolding eq .
  moreover have "0 < (2::rat) powi (?e - 52)" by simp
  ultimately have "0 \<le> (of_int (m - 2 ^ k) :: rat)" by (meson zero_le_mult_iff less_le_not_le)
  then have "0 \<le> m - 2 ^ k" by (simp only: of_int_0_le_iff)
  moreover have "m - 2 ^ k \<le> 2 ^ 53" using m(2) zero_le_power [of "2::int" k] by linarith
  ultimately have "\<bar>m - 2 ^ k\<bar> \<le> 2 ^ 53" by simp
  then show ?thesis unfolding eq by (rule fl_exact)
qed

section \<open>Operations of the source\<close>

text \<open>\<open>float(n)\<close>, and the conversion of an integer operand in mixed arithmetic.\<close>

definition float_of_int :: "int \<Rightarrow> rat" where
  "float_of_int n = fl (of_int n)"

text \<open>
  \<open>a / b\<close>: Python's division of two numbers, correctly rounded (also for two integers,
  which CPython divides without converting them first).
\<close>

definition py_div :: "rat \<Rightarrow> rat \<Rightarrow> py_error + rat" where
  "py_div a b = (if b = 0 then Inl ZeroDivisionError else Inr (fl (a / b)))"

text \<open>\<open>round(x, 6)\<close>: the nearest six-place decimal, read back as a double.\<close>

definition round6 :: "rat \<Rightarrow> rat" where
  "round6 x = fl (of_int (round_even (x * 10 ^ 6)) / 10 ^ 6)"

text \<open>\<open>int(float(n))\<close>: truncation of the converted integer.\<close>

definition int_of_float :: "rat \<Rightarrow> int" where
  "int_of_float x = (if x < 0 then \<lceil>x\<rceil> else \<lfloor>x\<rfloor>)"

text \<open>\<open>math.ceil(ms / 1000)\<close>.\<close>

definition ceil_seconds :: "int \<Rightarrow> int" where
  "ceil_seconds ms = \<lceil>fl (of_int ms / 1000)\<rceil>"

lemma float_of_int_exact [simp]: "\<bar>n\<bar> \<le> 2 ^ 53 \<Longrightarrow> float_of_int n = of_int n"
  by (simp add: float_of_int_def fl_of_int)

lemma float_of_int_nonneg [simp]: "0 \<le> float_of_int n \<longleftrightarrow> 0 \<le> n"
  by (simp add: float_of_int_def)

lemma float_of_int_pos [simp]: "0 < float_of_int n \<longleftrightarrow> 0 < n"
  by (simp add: float_of_int_def)

lemma float_of_int_mono: "m \<le> n \<Longrightarrow> float_of_int m \<le> float_of_int n"
  by (simp add: float_of_int_def fl_mono)

lemma fl_float_of_int [simp]: "fl (float_of_int n) = float_of_int n"
  by (simp add: float_of_int_def)

lemma int_of_float_of_int [simp]: "\<bar>n\<bar> \<le> 2 ^ 53 \<Longrightarrow> int_of_float (float_of_int n) = n"
  by (simp add: int_of_float_def)

text \<open>
  The rounding of the division never moves the ceiling: for every millisecond count a
  double can hold, \<open>ceil_seconds\<close> is the exact ceiling.
\<close>

lemma ceil_seconds_exact:
  assumes "0 \<le> ms" "ms < 2 ^ 53"
  shows "ceil_seconds ms = \<lceil>of_int ms / (1000 :: rat)\<rceil>"
proof -
  let ?x = "of_int ms / 1000 :: rat" and ?c = "\<lceil>of_int ms / (1000 :: rat)\<rceil>"
  have c: "?x \<le> of_int ?c" "of_int ?c - 1 < ?x" by linarith+
  have "of_int ms \<le> (of_int (2 ^ 53) :: rat)" using assms(2) by (simp only: of_int_le_iff)
  then have "?x \<le> of_int (2 ^ 53)" by simp
  then have "\<bar>?c\<bar> \<le> 2 ^ 53" using assms(1) ceiling_mono [of ?x "of_int (2 ^ 53)"] by (simp add: abs_le_iff ceiling_le_iff)
  then have up: "fl ?x \<le> of_int ?c" using c(1) by (rule fl_le_of_int [rotated])
  have low: "of_int ?c - 1 < fl ?x"
  proof -
    have "of_int (1000 * (?c - 1)) < (of_int ms :: rat)" using c(2) by simp
    then have "1000 * (?c - 1) + 1 \<le> ms" by (simp only: of_int_less_iff)
    then have "of_int (1000 * (?c - 1) + 1) \<le> (of_int ms :: rat)" by (simp only: of_int_le_iff)
    then have gap: "of_int ?c - 1 + 1 / 1000 \<le> ?x" by simp
    have "of_int ms < (of_int (2 ^ 53) :: rat)" using assms(2) by (simp only: of_int_less_iff)
    then have "?x / 2 ^ 53 < 1 / 1000" by (simp add: field_simps)
    moreover have "?x - ?x / 2 ^ 53 \<le> fl ?x"
      using assms(1) by (intro fl_lower) simp
    ultimately show ?thesis using gap by linarith
  qed
  from up low show ?thesis unfolding ceil_seconds_def by (intro ceiling_unique) auto
qed

lemma ceil_seconds_mono: "a \<le> b \<Longrightarrow> ceil_seconds a \<le> ceil_seconds b"
  unfolding ceil_seconds_def by (intro ceiling_mono fl_mono) (simp add: divide_right_mono)

lemma ceil_seconds_0 [simp]: "ceil_seconds 0 = 0"
  by (simp add: ceil_seconds_def)

lemma ceil_seconds_pos: "0 < ms \<Longrightarrow> 1 \<le> ceil_seconds ms"
  unfolding ceil_seconds_def by (simp add: one_le_ceiling)

lemma ceil_seconds_nonneg: "0 \<le> ms \<Longrightarrow> 0 \<le> ceil_seconds ms"
  using ceil_seconds_mono [of 0 ms] by simp

end
