(* ===== verification/Algorithms.thy ===== *)
theory Algorithms
  imports Binary64
begin

text \<open>
  \<open>app/services/algorithms.py\<close>: the three rate-limiting algorithms as the local limiter
  runs them. A call takes the stored state and the clock and returns the next state with a
  \<open>RateLimitComputation\<close>. The dataclasses are mutated in place by the source, so the
  state returned is the state the caller stores.
\<close>

section \<open>State and result\<close>

record fixed_window_state =
  fw_window_start_ms :: int
  fw_count :: int

record token_bucket_state =
  tb_tokens :: rat
  tb_last_refill_ms :: int

record rate_limit_computation =
  rc_allowed :: bool
  rc_remaining :: int
  rc_reset_at_ms :: int
  rc_retry_after_ms :: int
  rc_observed_value :: rat

section \<open>Fixed window\<close>

text \<open>A window of zero length raises in \<open>now_ms % window_ms\<close>, before anything is changed.\<close>

definition apply_fixed_window ::
  "millis \<Rightarrow> fixed_window_state option \<Rightarrow> int \<Rightarrow> int \<Rightarrow>
   py_error + (fixed_window_state \<times> rate_limit_computation)" where
  "apply_fixed_window now_ms state limit window_seconds =
     (let window_ms = window_seconds * 1000 in
      if window_ms = 0 then Inl ZeroDivisionError
      else
        let expected_start = now_ms - now_ms mod window_ms;
            st = (case state of
                    None \<Rightarrow> \<lparr>fw_window_start_ms = expected_start, fw_count = 0\<rparr>
                  | Some s \<Rightarrow>
                      if fw_window_start_ms s \<noteq> expected_start
                      then \<lparr>fw_window_start_ms = expected_start, fw_count = 0\<rparr> else s);
            next_count = fw_count st + 1;
            allowed = (next_count \<le> limit);
            st' = (if allowed then st\<lparr>fw_count := next_count\<rparr> else st);
            reset_at_ms = expected_start + window_ms;
            seen = (if allowed then fw_count st' else next_count)
        in Inr (st',
             \<lparr>rc_allowed = allowed, rc_remaining = max 0 (limit - seen), rc_reset_at_ms = reset_at_ms,
              rc_retry_after_ms = max 0 (reset_at_ms - now_ms), rc_observed_value = float_of_int seen\<rparr>))"

section \<open>Sliding window log\<close>

definition apply_sliding_window_log ::
  "millis \<Rightarrow> millis list \<Rightarrow> int \<Rightarrow> int \<Rightarrow> millis list \<times> rate_limit_computation" where
  "apply_sliding_window_log now_ms events_ms limit window_seconds =
     (let window_ms = window_seconds * 1000;
          cutoff = now_ms - window_ms;
          active = filter (\<lambda>v. v > cutoff) events_ms;
          allowed = (int (length active) < limit);
          active' = (if allowed then active @ [now_ms] else active);
          oldest_ts = (case active' of [] \<Rightarrow> now_ms | e # _ \<Rightarrow> e);
          reset_at_ms = oldest_ts + window_ms
      in (active',
          \<lparr>rc_allowed = allowed, rc_remaining = max 0 (limit - int (length active')),
           rc_reset_at_ms = reset_at_ms, rc_retry_after_ms = max 0 (reset_at_ms - now_ms),
           rc_observed_value = float_of_int (int (length active'))\<rparr>))"

section \<open>Token bucket\<close>

text \<open>The tokens available at \<open>now_ms\<close>, before the request takes its share.\<close>

definition refill_amount :: "millis \<Rightarrow> millis \<Rightarrow> rat \<Rightarrow> rat" where
  "refill_amount now_ms last_refill_ms refill_rate =
     fl (fl (float_of_int (max 0 (now_ms - last_refill_ms)) / 1000) * refill_rate)"

definition available_tokens :: "millis \<Rightarrow> token_bucket_state \<Rightarrow> int \<Rightarrow> rat \<Rightarrow> rat" where
  "available_tokens now_ms s capacity refill_rate =
     min (float_of_int capacity) (fl (tb_tokens s + refill_amount now_ms (tb_last_refill_ms s) refill_rate))"

text \<open>\<open>math.ceil((x / refill_rate_per_second) * 1000)\<close>.\<close>

definition ms_to_refill :: "rat \<Rightarrow> rat \<Rightarrow> int" where
  "ms_to_refill x refill_rate = \<lceil>fl (fl (x / refill_rate) * 1000)\<rceil>"

text \<open>
  The bucket is updated before the divisions by the refill rate, so when they raise the
  state is already changed: the state is returned beside the result.
\<close>

definition apply_token_bucket ::
  "millis \<Rightarrow> token_bucket_state option \<Rightarrow> int \<Rightarrow> rat \<Rightarrow> rat \<Rightarrow>
   token_bucket_state \<times> (py_error + rate_limit_computation)" where
  "apply_token_bucket now_ms state capacity refill_rate requested =
     (let s = (case state of
                 None \<Rightarrow> \<lparr>tb_tokens = float_of_int capacity, tb_last_refill_ms = now_ms\<rparr>
               | Some s \<Rightarrow> s);
          available = available_tokens now_ms s capacity refill_rate;
          allowed = (available \<ge> requested);
          available' = (if allowed then fl (available - requested) else available);
          s' = s\<lparr>tb_tokens := available', tb_last_refill_ms := now_ms\<rparr>;
          missing = max 0 (fl (requested - available'))
      in (s',
          if refill_rate = 0 then Inl ZeroDivisionError
          else
            let retry_after_ms = (if allowed then 0 else ms_to_refill missing refill_rate);
                refill_to_full_ms = ms_to_refill (fl (float_of_int capacity - available')) refill_rate
            in Inr \<lparr>rc_allowed = allowed, rc_remaining = max 0 \<lfloor>available'\<rfloor>,
                    rc_reset_at_ms = now_ms + max 0 refill_to_full_ms,
                    rc_retry_after_ms = retry_after_ms, rc_observed_value = available'\<rparr>))"

section \<open>Runs\<close>

text \<open>
  A run applies the algorithm to a list of arrival times, threading the state, and lists
  each arrival with its verdict.
\<close>

fun fw_run :: "int \<Rightarrow> int \<Rightarrow> fixed_window_state option \<Rightarrow> millis list \<Rightarrow> (millis \<times> bool) list" where
  "fw_run limit w st [] = []"
| "fw_run limit w st (t # ts) =
     (case apply_fixed_window t st limit w of
        Inl _ \<Rightarrow> []
      | Inr (st', c) \<Rightarrow> (t, rc_allowed c) # fw_run limit w (Some st') ts)"

fun sw_run :: "int \<Rightarrow> int \<Rightarrow> millis list \<Rightarrow> millis list \<Rightarrow> (millis \<times> bool) list" where
  "sw_run limit w ev [] = []"
| "sw_run limit w ev (t # ts) =
     (case apply_sliding_window_log t ev limit w of
        (ev', c) \<Rightarrow> (t, rc_allowed c) # sw_run limit w ev' ts)"

fun tb_run :: "int \<Rightarrow> rat \<Rightarrow> token_bucket_state option \<Rightarrow> millis list \<Rightarrow> (millis \<times> bool) list" where
  "tb_run capacity r st [] = []"
| "tb_run capacity r st (t # ts) =
     (case apply_token_bucket t st capacity r 1 of
        (_, Inl _) \<Rightarrow> []
      | (st', Inr c) \<Rightarrow> (t, rc_allowed c) # tb_run capacity r (Some st') ts)"

definition admitted :: "(millis \<times> bool) list \<Rightarrow> millis list" where
  "admitted rs = map fst (filter snd rs)"

lemma admitted_simps [simp]:
  "admitted [] = []"
  "admitted ((t, a) # rs) = (if a then t # admitted rs else admitted rs)"
  by (simp_all add: admitted_def)

section \<open>Fixed window: lemmas\<close>

definition window_start :: "int \<Rightarrow> millis \<Rightarrow> millis" where
  "window_start w t = t - t mod (w * 1000)"

definition fw_base :: "int \<Rightarrow> fixed_window_state option \<Rightarrow> millis \<Rightarrow> int" where
  "fw_base w st t =
     (case st of None \<Rightarrow> 0
      | Some s \<Rightarrow> if fw_window_start_ms s = window_start w t then fw_count s else 0)"

lemma window_start_mono:
  assumes "0 < w" "a \<le> b"
  shows "window_start w a \<le> window_start w b"
proof -
  have "a div (w * 1000) \<le> b div (w * 1000)" using assms by (intro zdiv_mono1) auto
  then have "(w * 1000) * (a div (w * 1000)) \<le> (w * 1000) * (b div (w * 1000))"
    using assms(1) by (intro mult_left_mono) auto
  then show ?thesis by (simp add: window_start_def minus_mod_eq_mult_div)
qed

lemma window_start_bounds:
  assumes "0 < w"
  shows "window_start w t \<le> t" "t < window_start w t + w * 1000"
  using assms pos_mod_bound [of "w * 1000" t] pos_mod_sign [of "w * 1000" t]
  by (simp_all add: window_start_def)

lemma window_start_idem: "0 < w \<Longrightarrow> window_start w (window_start w t) = window_start w t"
  by (simp add: window_start_def minus_mod_eq_mult_div)

lemma apply_fixed_window_eq:
  assumes "w \<noteq> 0"
  shows "apply_fixed_window t st limit w =
    (let b = fw_base w st t; ok = (b + 1 \<le> limit) in
     Inr (\<lparr>fw_window_start_ms = window_start w t, fw_count = (if ok then b + 1 else b)\<rparr>,
          \<lparr>rc_allowed = ok, rc_remaining = max 0 (limit - (b + 1)),
           rc_reset_at_ms = window_start w t + w * 1000,
           rc_retry_after_ms = max 0 (window_start w t + w * 1000 - t),
           rc_observed_value = float_of_int (b + 1)\<rparr>))"
  using assms
  by (cases st) (auto simp: apply_fixed_window_def fw_base_def window_start_def Let_def)

text \<open>Admissions of a run counted in the window that starts at \<open>e\<close>.\<close>

definition in_window :: "int \<Rightarrow> millis \<Rightarrow> millis list \<Rightarrow> nat" where
  "in_window w e ts = length (filter (\<lambda>t. window_start w t = e) ts)"

lemma in_window_simps [simp]:
  "in_window w e [] = 0"
  "in_window w e (t # ts) = (if window_start w t = e then 1 else 0) + in_window w e ts"
  by (simp_all add: in_window_def)

lemma in_window_past:
  assumes "0 < w" "sorted (t # ts)" "e < window_start w t"
  shows "in_window w e ts = 0"
  using assms window_start_mono [OF assms(1)] by (fastforce simp: in_window_def filter_empty_conv)

lemma fw_run_counts:
  assumes "0 < w" "sorted ts"
    and "\<And>s. st = Some s \<Longrightarrow> 0 \<le> fw_count s \<and> fw_count s \<le> limit \<and>
           (\<forall>t\<in>set ts. fw_window_start_ms s \<le> window_start w t)"
    and "0 \<le> limit"
  shows "int (in_window w e (admitted (fw_run limit w st ts))) =
    min (limit - (case st of None \<Rightarrow> 0 | Some s \<Rightarrow> if fw_window_start_ms s = e then fw_count s else 0))
      (int (in_window w e ts))"
  using assms
proof (induction ts arbitrary: st)
  case Nil
  then show ?case by (cases st) auto
next
  case (Cons t ts)
  let ?b = "fw_base w st t" and ?ws = "window_start w t"
  let ?c = "if ?b + 1 \<le> limit then ?b + 1 else ?b"
  let ?s = "\<lparr>fw_window_start_ms = ?ws, fw_count = ?c\<rparr>"
  have b: "0 \<le> ?b" "?b \<le> limit"
    using Cons.prems(3,4) by (auto simp: fw_base_def split: option.splits)
  have IH: "int (in_window w e (admitted (fw_run limit w (Some ?s) ts))) =
      min (limit - (if ?ws = e then ?c else 0)) (int (in_window w e ts))"
    using Cons.IH [of "Some ?s"] Cons.prems b window_start_mono [OF \<open>0 < w\<close>] by auto
  have run: "fw_run limit w st (t # ts) = (t, ?b + 1 \<le> limit) # fw_run limit w (Some ?s) ts"
    using Cons.prems(1) by (simp add: apply_fixed_window_eq Let_def)
  show ?case
  proof (cases "?ws = e")
    case True
    then have "(case st of None \<Rightarrow> 0 | Some s \<Rightarrow> if fw_window_start_ms s = e then fw_count s else 0) = ?b"
      by (auto simp: fw_base_def split: option.splits)
    with IH True b show ?thesis unfolding run by auto
  next
    case False
    have "in_window w e ts = 0" if "st = Some s" "fw_window_start_ms s = e" for s
    proof (rule in_window_past [of w t])
      have "fw_window_start_ms s \<le> ?ws" using Cons.prems(3) that(1) by simp
      with that(2) False show "e < ?ws" by simp
    qed (use Cons.prems in auto)
    moreover have "0 \<le> limit - fw_count s" if "st = Some s" for s
      using Cons.prems(3) that by simp
    ultimately show ?thesis using IH False Cons.prems(4) unfolding run
      by (auto split: option.splits)
  qed
qed

section \<open>Sliding window: lemmas\<close>

text \<open>
  The reference admission rule keeps the whole history of admitted requests and lets a
  request in when fewer than \<open>limit\<close> of them lie in the window before it.
\<close>

definition recent :: "int \<Rightarrow> millis \<Rightarrow> millis list \<Rightarrow> millis list" where
  "recent w t es = filter (\<lambda>e. t - w * 1000 < e) es"

fun sw_spec :: "int \<Rightarrow> int \<Rightarrow> millis list \<Rightarrow> millis list \<Rightarrow> (millis \<times> bool) list" where
  "sw_spec limit w hist [] = []"
| "sw_spec limit w hist (t # ts) =
     (let ok = (int (length (recent w t hist)) < limit)
      in (t, ok) # sw_spec limit w (if ok then hist @ [t] else hist) ts)"

definition window_bounded :: "int \<Rightarrow> int \<Rightarrow> millis list \<Rightarrow> bool" where
  "window_bounded limit w es \<longleftrightarrow>
     (\<forall>a. int (length (filter (\<lambda>e. a < e \<and> e \<le> a + w * 1000) es)) \<le> limit)"

lemma recent_append [simp]: "recent w t (xs @ ys) = recent w t xs @ recent w t ys"
  by (simp add: recent_def)

lemma recent_recent: "t \<le> t' \<Longrightarrow> recent w t' (recent w t es) = recent w t' es"
  by (induction es) (auto simp: recent_def)

lemma apply_sliding_window_log_eq:
  "apply_sliding_window_log t ev limit w =
    (let act = recent w t ev; ok = (int (length act) < limit); ev' = (if ok then act @ [t] else act);
         reset = (case ev' of [] \<Rightarrow> t | e # _ \<Rightarrow> e) + w * 1000 in
     (ev', \<lparr>rc_allowed = ok, rc_remaining = max 0 (limit - int (length ev')), rc_reset_at_ms = reset,
            rc_retry_after_ms = max 0 (reset - t), rc_observed_value = float_of_int (int (length ev'))\<rparr>))"
  by (simp add: apply_sliding_window_log_def recent_def Let_def)

lemma sw_run_eq_spec:
  assumes "sorted ts" "\<And>t. t \<in> set ts \<Longrightarrow> recent w t ev = recent w t hist"
  shows "sw_run limit w ev ts = sw_spec limit w hist ts"
  using assms
proof (induction ts arbitrary: ev hist)
  case (Cons t ts)
  let ?ok = "int (length (recent w t hist)) < limit"
  let ?ev = "if ?ok then recent w t hist @ [t] else recent w t hist"
  have "sw_run limit w ?ev ts = sw_spec limit w (if ?ok then hist @ [t] else hist) ts"
    using Cons.prems by (intro Cons.IH) (auto simp: recent_recent)
  moreover have "recent w t ev = recent w t hist" using Cons.prems(2) by simp
  ultimately show ?case by (simp add: apply_sliding_window_log_eq Let_def)
qed simp

lemma window_bounded_snoc:
  assumes "window_bounded limit w es" "int (length (recent w t es)) < limit"
  shows "window_bounded limit w (es @ [t])"
  unfolding window_bounded_def
proof
  fix a
  let ?P = "\<lambda>e. a < e \<and> e \<le> a + w * 1000"
  show "int (length (filter ?P (es @ [t]))) \<le> limit"
  proof (cases "?P t")
    case True
    then have "t - w * 1000 \<le> a" by simp
    then have "filter ?P es = filter ?P (recent w t es)" by (induction es) (auto simp: recent_def)
    then have "length (filter ?P es) \<le> length (recent w t es)" by (metis length_filter_le)
    with True assms(2) show ?thesis by simp
  next
    case False
    then have "filter ?P (es @ [t]) = filter ?P es" by simp
    with assms(1) show ?thesis unfolding window_bounded_def by simp
  qed
qed

lemma sw_spec_bounded:
  "window_bounded limit w hist \<Longrightarrow> window_bounded limit w (hist @ admitted (sw_spec limit w hist ts))"
proof (induction ts arbitrary: hist)
  case (Cons t ts)
  show ?case
  proof (cases "int (length (recent w t hist)) < limit")
    case True
    with Cons.IH [OF window_bounded_snoc [OF Cons.prems True]] show ?thesis by simp
  next
    case False
    with Cons show ?thesis by simp
  qed
qed simp

section \<open>Token bucket: lemmas\<close>

text \<open>A bucket that has never held more than its capacity, nor less than nothing.\<close>

definition bucket_ok :: "int \<Rightarrow> token_bucket_state \<Rightarrow> bool" where
  "bucket_ok capacity s \<longleftrightarrow> 0 \<le> tb_tokens s \<and> tb_tokens s \<le> float_of_int capacity"

lemma bucket_okD [wf_dests]:
  "bucket_ok capacity s \<Longrightarrow> 0 \<le> tb_tokens s"
  "bucket_ok capacity s \<Longrightarrow> tb_tokens s \<le> float_of_int capacity"
  by (simp_all add: bucket_ok_def)

lemma bucket_ok_full [wf_intros]:
  "0 \<le> capacity \<Longrightarrow> bucket_ok capacity \<lparr>tb_tokens = float_of_int capacity, tb_last_refill_ms = t\<rparr>"
  by (simp add: bucket_ok_def)

lemma refill_amount_nonneg: "0 \<le> r \<Longrightarrow> 0 \<le> refill_amount t l r"
  by (simp add: refill_amount_def)

lemma available_bounds:
  assumes "bucket_ok capacity s" "0 \<le> r"
  shows "0 \<le> available_tokens t s capacity r" "available_tokens t s capacity r \<le> float_of_int capacity"
proof -
  have "0 \<le> float_of_int capacity" using bucket_okD [OF assms(1)] by (rule order_trans)
  then show "0 \<le> available_tokens t s capacity r"
    using assms by (auto simp: available_tokens_def bucket_ok_def refill_amount_nonneg min_def)
qed (simp add: available_tokens_def)

lemma fl_available [simp]: "fl (available_tokens t s capacity r) = available_tokens t s capacity r"
  by (simp add: available_tokens_def min_def)

lemma apply_token_bucket_eq:
  assumes "r \<noteq> 0"
  shows "apply_token_bucket t st capacity r q =
    (let s = (case st of None \<Rightarrow> \<lparr>tb_tokens = float_of_int capacity, tb_last_refill_ms = t\<rparr> | Some s \<Rightarrow> s);
         a = available_tokens t s capacity r; ok = (q \<le> a); a' = (if ok then fl (a - q) else a) in
     (s\<lparr>tb_tokens := a', tb_last_refill_ms := t\<rparr>,
      Inr \<lparr>rc_allowed = ok, rc_remaining = max 0 \<lfloor>a'\<rfloor>,
           rc_reset_at_ms = t + max 0 (ms_to_refill (fl (float_of_int capacity - a')) r),
           rc_retry_after_ms = (if ok then 0 else ms_to_refill (max 0 (fl (q - a'))) r),
           rc_observed_value = a'\<rparr>))"
  using assms by (simp add: apply_token_bucket_def Let_def)

lemma apply_token_bucket_ok [wf_intros]:
  assumes "\<And>s. st = Some s \<Longrightarrow> bucket_ok capacity s" "0 \<le> capacity" "0 \<le> r" "0 \<le> q"
  shows "bucket_ok capacity (fst (apply_token_bucket t st capacity r q))"
proof -
  let ?s = "case st of None \<Rightarrow> \<lparr>tb_tokens = float_of_int capacity, tb_last_refill_ms = t\<rparr> | Some s \<Rightarrow> s"
  let ?a = "available_tokens t ?s capacity r"
  have s: "bucket_ok capacity ?s" using assms by (auto split: option.splits intro: bucket_ok_full)
  note a = available_bounds [OF s \<open>0 \<le> r\<close>, of t]
  have "fl (?a - q) \<le> fl ?a" using assms(4) by (intro fl_mono) simp
  with a show ?thesis
    by (auto simp: apply_token_bucket_def Let_def bucket_ok_def intro: order_trans)
qed

text \<open>
  One refill of \<open>x\<close> milliseconds gains at most \<open>x / 1000 * r\<close> tokens up to three
  roundings, and the sum is rounded once more.
\<close>

lemma refill_amount_upper:
  assumes "0 \<le> r" "l \<le> t"
  shows "refill_amount t l r \<le> of_int (t - l) / 1000 * r * (1 + unit_roundoff) ^ 3"
proof -
  let ?el = "of_int (t - l) :: rat" and ?v = "1 + unit_roundoff"
  have el: "0 \<le> ?el" using assms(2) by simp
  have 1: "float_of_int (max 0 (t - l)) \<le> ?el * ?v"
    unfolding float_of_int_def using assms(2) by (intro fl_upper_mult) simp_all
  have 2: "fl (float_of_int (max 0 (t - l)) / 1000) \<le> ?el * ?v / 1000 * ?v"
    using 1 by (intro fl_upper_mult divide_right_mono) simp_all
  have "fl (fl (float_of_int (max 0 (t - l)) / 1000) * r) \<le> ?el * ?v / 1000 * ?v * r * ?v"
    using assms(1) by (intro fl_upper_mult [OF _ mult_right_mono [OF 2 assms(1)]]) simp
  also have "\<dots> = ?el / 1000 * r * ?v ^ 3" by (simp add: power3_eq_cube)
  finally show ?thesis by (simp only: refill_amount_def)
qed

lemma available_upper:
  assumes "bucket_ok capacity s" "0 \<le> r"
  shows "available_tokens t s capacity r \<le>
    tb_tokens s + refill_amount t (tb_last_refill_ms s) r + float_of_int capacity * unit_roundoff"
proof -
  let ?c = "float_of_int capacity" and ?x = "tb_tokens s + refill_amount t (tb_last_refill_ms s) r"
  have x: "0 \<le> ?x" using bucket_okD(1) [OF assms(1)] refill_amount_nonneg [OF assms(2)] by (simp add: add_nonneg_nonneg)
  have c: "0 \<le> ?c" using bucket_okD [OF assms(1)] by (rule order_trans)
  show ?thesis
  proof (cases "?x \<le> ?c")
    case True
    with x have "fl ?x \<le> ?x + ?c * unit_roundoff" by (rule fl_upper_add)
    then show ?thesis by (simp add: available_tokens_def min_le_iff_disj)
  next
    case False
    moreover have "0 \<le> ?c * unit_roundoff" using c unit_roundoff_pos by simp
    ultimately show ?thesis by (simp add: available_tokens_def min_le_iff_disj)
  qed
qed

text \<open>What one call does to the bucket: a granted request takes exactly one token.\<close>

lemma token_bucket_step:
  assumes "bucket_ok capacity s" "0 < r" "capacity \<le> 2 ^ 53"
  obtains s' c where "apply_token_bucket t (Some s) capacity r 1 = (s', Inr c)"
    "bucket_ok capacity s'" "tb_last_refill_ms s' = t"
    "(if rc_allowed c then 1 else 0) + tb_tokens s' = available_tokens t s capacity r"
    "rc_allowed c \<longleftrightarrow> 1 \<le> available_tokens t s capacity r"
proof -
  let ?a = "available_tokens t s capacity r"
  have c0: "0 \<le> capacity" using order_trans [OF bucket_okD [OF assms(1)]] by simp
  have "?a \<le> float_of_int capacity" by (simp add: available_tokens_def)
  also have "\<dots> = of_int capacity" using c0 assms(3) by simp
  also have "\<dots> \<le> of_int (2 ^ 53)" using assms(3) by (simp only: of_int_le_iff)
  finally have "1 \<le> ?a \<Longrightarrow> fl (?a - 1) = ?a - 1" by (intro fl_minus_one) simp_all
  moreover have "bucket_ok capacity (fst (apply_token_bucket t (Some s) capacity r 1))"
    using assms c0 by (intro apply_token_bucket_ok) auto
  ultimately show thesis
    using that assms(2) by (auto simp: apply_token_bucket_eq Let_def)
qed

lemma tb_run_bound:
  assumes "bucket_ok capacity s" "0 < r" "capacity \<le> 2 ^ 53" "sorted (tb_last_refill_ms s # ts)"
  shows "of_nat (length (admitted (tb_run capacity r (Some s) ts))) \<le>
    tb_tokens s + of_int (last (tb_last_refill_ms s # ts) - tb_last_refill_ms s) / 1000 * r * (1 + unit_roundoff) ^ 3
      + of_nat (length ts) * (float_of_int capacity * unit_roundoff)"
  using assms
proof (induction ts arbitrary: s)
  case Nil
  then show ?case by (simp add: bucket_okD)
next
  case (Cons t ts)
  let ?v = "(1 + unit_roundoff) ^ 3" and ?e = "float_of_int capacity * unit_roundoff"
  obtain s' c where step: "apply_token_bucket t (Some s) capacity r 1 = (s', Inr c)"
    and s': "bucket_ok capacity s'" "tb_last_refill_ms s' = t"
    and take: "(if rc_allowed c then 1 else 0) + tb_tokens s' = available_tokens t s capacity r"
    using token_bucket_step [OF Cons.prems(1-3), of t] by metis
  have IH: "of_nat (length (admitted (tb_run capacity r (Some s') ts))) \<le>
      tb_tokens s' + of_int (last (t # ts) - t) / 1000 * r * ?v + of_nat (length ts) * ?e"
    using Cons.IH [OF s'(1) Cons.prems(2,3)] Cons.prems(4) s'(2) by simp
  have av: "available_tokens t s capacity r \<le>
      tb_tokens s + of_int (t - tb_last_refill_ms s) / 1000 * r * ?v + ?e"
    using available_upper [OF Cons.prems(1), of r t] refill_amount_upper [of r "tb_last_refill_ms s" t] Cons.prems(2,4)
    by simp
  let ?A = "of_nat (length (admitted (tb_run capacity r (Some s') ts))) :: rat"
  have len: "of_nat (length (admitted (tb_run capacity r (Some s) (t # ts)))) =
      (if rc_allowed c then 1 else 0) + ?A"
    by (simp add: step)
  let ?l = "last (t # ts)"
  have "of_int (?l - t) / 1000 * r * ?v + of_int (t - tb_last_refill_ms s) / 1000 * r * ?v =
      (of_int (?l - t) + of_int (t - tb_last_refill_ms s)) / 1000 * r * ?v"
    by (simp only: distrib_right add_divide_distrib)
  also have "of_int (?l - t) + of_int (t - tb_last_refill_ms s) = (of_int (?l - tb_last_refill_ms s) :: rat)"
    by (simp flip: of_int_add)
  finally have time: "of_int (?l - t) / 1000 * r * ?v + of_int (t - tb_last_refill_ms s) / 1000 * r * ?v =
      of_int (?l - tb_last_refill_ms s) / 1000 * r * ?v" .
  have count: "of_nat (length (t # ts)) * ?e = of_nat (length ts) * ?e + ?e"
    by (simp add: distrib_right)
  have last: "last (tb_last_refill_ms s # t # ts) = ?l" by simp
  show ?case
    using IH av take unfolding len time [symmetric] count last by linarith
qed

section \<open>Properties\<close>

text \<open>
  The fixed window admits exactly \<open>min limit n\<close> of the \<open>n\<close> requests that arrive in a
  window, for every window and every non-decreasing sequence of arrivals.
\<close>

theorem fixed_window_admits_min:
  assumes "0 < w" "0 \<le> limit" "sorted ts"
  shows "int (in_window w e (admitted (fw_run limit w None ts))) = min limit (int (in_window w e ts))"
  using fw_run_counts [OF assms(1,3), of None limit e] assms(2) by simp

theorem fixed_window_admits_min_witness:
  "sorted [1000, 2000, 59500, 61000 :: int] \<and>
   int (in_window 60 0 (admitted (fw_run 2 60 None [1000, 2000, 59500, 61000]))) = 2"
  using fixed_window_admits_min [of 60 2 "[1000, 2000, 59500, 61000]" 0]
  by (simp add: window_start_def)

text \<open>
  A verdict of the fixed window on every branch: the request is allowed exactly when
  fewer than \<open>limit\<close> requests were counted in its window, the count then goes up by one
  and otherwise stays, \<open>remaining\<close> never goes negative, the window resets within its own
  length, and the client is told to wait for exactly the rest of the window. A window of
  zero length raises.
\<close>

theorem fixed_window_verdict:
  "apply_fixed_window t st limit 0 = Inl ZeroDivisionError \<and>
   (0 < w \<longrightarrow>
     (\<exists>s' c. apply_fixed_window t st limit w = Inr (s', c) \<and>
       (rc_allowed c \<longleftrightarrow> fw_base w st t < limit) \<and>
       fw_window_start_ms s' = window_start w t \<and>
       fw_count s' = fw_base w st t + (if rc_allowed c then 1 else 0) \<and>
       rc_remaining c = max 0 (limit - fw_base w st t - 1) \<and>
       rc_reset_at_ms c - t = rc_retry_after_ms c \<and>
       0 < rc_retry_after_ms c \<and> rc_retry_after_ms c \<le> w * 1000))"
proof -
  have "apply_fixed_window t st limit 0 = Inl ZeroDivisionError"
    by (simp add: apply_fixed_window_def)
  moreover have "0 < w \<Longrightarrow> window_start w t \<le> t \<and> t < window_start w t + w * 1000"
    using window_start_bounds by blast
  ultimately show ?thesis by (auto simp: apply_fixed_window_eq Let_def)
qed

theorem fixed_window_verdict_witness:
  "(0::int) < 60 \<and>
   (\<exists>s' c. apply_fixed_window 59500 (Some \<lparr>fw_window_start_ms = 0, fw_count = 2\<rparr>) 2 60 = Inr (s', c) \<and>
     \<not> rc_allowed c \<and> rc_retry_after_ms c = 500)"
  using fixed_window_verdict [of 59500 "Some \<lparr>fw_window_start_ms = 0, fw_count = 2\<rparr>" 2 60]
  by (auto simp: fw_base_def window_start_def apply_fixed_window_def Let_def)

text \<open>
  The sliding window log never admits more than \<open>limit\<close> requests in any interval of
  the window's length, wherever the interval starts, for every non-decreasing sequence of
  arrivals.
\<close>

theorem sliding_window_never_exceeds:
  assumes "0 \<le> limit" "sorted ts"
  shows "window_bounded limit w (admitted (sw_run limit w [] ts))"
proof -
  have "sw_run limit w [] ts = sw_spec limit w [] ts" using assms(2) by (rule sw_run_eq_spec) simp
  moreover have "window_bounded limit w []" using assms(1) by (simp add: window_bounded_def)
  from sw_spec_bounded [OF this, of ts] have "window_bounded limit w (admitted (sw_spec limit w [] ts))" by simp
  ultimately show ?thesis by simp
qed

theorem sliding_window_never_exceeds_witness:
  "admitted (sw_run 2 60 [] [0, 30000, 50000, 60000]) = [0, 30000, 60000] \<and>
   window_bounded 2 60 [0, 30000, 60000]"
proof -
  have run: "admitted (sw_run 2 60 [] [0, 30000, 50000, 60000]) = [0, 30000, 60000]" by code_simp
  show ?thesis
    using sliding_window_never_exceeds [of 2 "[0, 30000, 50000, 60000]" 60] unfolding run by simp
qed

text \<open>
  Pruning the log loses nothing: on non-decreasing arrivals the sliding window gives the
  same verdicts as the reference rule that keeps every admitted request forever and admits
  a request when fewer than \<open>limit\<close> of them are in the window before it.
\<close>

theorem sliding_window_refines_history:
  assumes "sorted ts"
  shows "sw_run limit w [] ts = sw_spec limit w [] ts"
  using assms by (rule sw_run_eq_spec) simp

theorem sliding_window_refines_history_witness:
  "sorted [0, 10000, 70000 :: int] \<and> sw_run 1 60 [] [0, 10000, 70000] = sw_spec 1 60 [] [0, 10000, 70000]"
  using sliding_window_refines_history [of "[0, 10000, 70000]" 1 60] by simp

text \<open>
  The token bucket keeps its level between zero and its capacity whatever the clock
  does, even backwards, in floating-point arithmetic.
\<close>

theorem token_bucket_level_invariant:
  assumes "\<And>s. st = Some s \<Longrightarrow> bucket_ok capacity s" "0 \<le> capacity" "0 \<le> r" "0 \<le> q"
  shows "bucket_ok capacity (fst (apply_token_bucket t st capacity r q))"
  using assms by (rule apply_token_bucket_ok)

theorem token_bucket_level_invariant_witness:
  "bucket_ok 5 \<lparr>tb_tokens = 1 / 4, tb_last_refill_ms = 1000\<rparr> \<and>
   bucket_ok 5 (fst (apply_token_bucket 0 (Some \<lparr>tb_tokens = 1 / 4, tb_last_refill_ms = 1000\<rparr>) 5 1 1))"
  using token_bucket_level_invariant [of "Some \<lparr>tb_tokens = 1 / 4, tb_last_refill_ms = 1000\<rparr>" 5 1 1 0]
  by (simp add: bucket_ok_def)

text \<open>
  C16. The token bucket limits sustained throughput: on non-decreasing arrivals, the number
  of requests granted from a bucket is at most its level at the start plus the refill rate
  times the elapsed time, up to the rounding of the floating-point operations, whose size
  is given: three roundings of each refill and one of the level per request.
\<close>

theorem token_bucket_rate_bound:
  assumes "bucket_ok capacity s" "0 < r" "capacity \<le> 2 ^ 53" "sorted (tb_last_refill_ms s # ts)"
  shows "of_nat (length (admitted (tb_run capacity r (Some s) ts))) \<le>
    tb_tokens s
      + of_int (last (tb_last_refill_ms s # ts) - tb_last_refill_ms s) / 1000 * r * (1 + unit_roundoff) ^ 3
      + of_nat (length ts) * (float_of_int capacity * unit_roundoff)"
  using assms by (rule tb_run_bound)

theorem token_bucket_rate_bound_witness:
  "length (admitted (tb_run 3 1 (Some \<lparr>tb_tokens = 3, tb_last_refill_ms = 0\<rparr>) [0, 0, 0, 0, 2000])) = 4 \<and>
   of_nat 4 \<le> 3 + of_int 2000 / 1000 * 1 * (1 + unit_roundoff) ^ 3 + of_nat 5 * (float_of_int 3 * unit_roundoff)"
proof -
  let ?s = "\<lparr>tb_tokens = 3, tb_last_refill_ms = 0\<rparr>"
  have run: "length (admitted (tb_run 3 1 (Some ?s) [0, 0, 0, 0, 2000])) = 4" by code_simp
  have "bucket_ok 3 ?s" by (simp add: bucket_ok_def)
  from token_bucket_rate_bound [OF this, of 1 "[0, 0, 0, 0, 2000]", unfolded run] show ?thesis
    using run by simp
qed

text \<open>Two requests on a bucket of one token that gains one token every three seconds.\<close>

lemma one_third: "fl (1 / 3) = 6004799503160661 / 18014398509481984"
  by code_simp

lemma early_request:
  "apply_token_bucket 119 (Some \<lparr>tb_tokens = 0, tb_last_refill_ms = 0\<rparr>) 1 (6004799503160661 / 18014398509481984) 1 =
     (\<lparr>tb_tokens = 5716569127008949 / 144115188075855872, tb_last_refill_ms = 119\<rparr>,
      Inr \<lparr>rc_allowed = False, rc_remaining = 0, rc_reset_at_ms = 3000, rc_retry_after_ms = 2881,
           rc_observed_value = 5716569127008949 / 144115188075855872\<rparr>)"
  by code_simp

lemma patient_request:
  "apply_token_bucket 3000 (Some \<lparr>tb_tokens = 5716569127008949 / 144115188075855872, tb_last_refill_ms = 119\<rparr>) 1
     (6004799503160661 / 18014398509481984) 1 =
     (\<lparr>tb_tokens = 9007199254740991 / 9007199254740992, tb_last_refill_ms = 3000\<rparr>,
      Inr \<lparr>rc_allowed = False, rc_remaining = 0, rc_reset_at_ms = 3001, rc_retry_after_ms = 1,
           rc_observed_value = 9007199254740991 / 9007199254740992\<rparr>)"
  by code_simp

text \<open>
  The advertised wait can be too short by a rounding error. A bucket that gains one
  token every three seconds, empty at time 0, refuses a request at 119 ms and tells the
  client to come back after 2881 ms; exactly then the bucket holds a little less than one
  token and the request is refused again, with a further wait of 1 ms.
\<close>

theorem token_bucket_retry_after_too_short:
  "(case apply_token_bucket 119 (Some \<lparr>tb_tokens = 0, tb_last_refill_ms = 0\<rparr>) 1 (fl (1 / 3)) 1 of
      (s, Inr c) \<Rightarrow>
        \<not> rc_allowed c \<and> rc_retry_after_ms c = 2881 \<and>
        (case apply_token_bucket (119 + rc_retry_after_ms c) (Some s) 1 (fl (1 / 3)) 1 of
           (_, Inr c') \<Rightarrow> \<not> rc_allowed c' \<and> rc_retry_after_ms c' = 1
         | _ \<Rightarrow> False)
    | _ \<Rightarrow> False)"
  by (simp add: one_third early_request patient_request)

end
