(* ===== verification/Redis_Server.thy ===== *)
theory Redis_Server
  imports Prelude "HOL-Library.List_Lexorder" "HOL-Library.Char_ord"
begin

text \<open>
  The interface to the Redis server. The server is not part of the repository: its
  commands are a parameter (\<open>redis_commands\<close>, one field per \<open>redis.call\<close> of the Lua
  scripts), and what the scripts rely on is the locale \<open>redis_server\<close>, whose laws are the
  documented behaviour of the commands on the keys that are alive.

  \<open>view\<close> reads a keyspace: for every key that has not expired, its value and its expiry
  deadline. A command that meets a value of another type is an error reply, here \<open>None\<close>.
  The clock does not move while a script runs.

  The second half is a keyspace that stores expired entries until a write replaces them, as
  Redis does; it obeys the laws, so the interface can be met.
\<close>

section \<open>Values and views\<close>

text \<open>
  A sorted set is the list of its (score, member) pairs in Redis's order: by score, and by
  member among equal scores. The hash of the token bucket has two numeric fields.
\<close>

datatype redis_value =
    RInt int
  | RZset "(int \<times> string) list"
  | RHash "rat \<times> rat"
  | RStr string

type_synonym entry = "redis_value \<times> millis option"
type_synonym keyview = "string \<rightharpoonup> entry"

record 'k redis_commands =
  cmd_time :: "'k \<Rightarrow> int \<times> int"
  cmd_incr :: "string \<Rightarrow> 'k \<Rightarrow> (int \<times> 'k) option"
  cmd_pexpire :: "string \<Rightarrow> millis \<Rightarrow> 'k \<Rightarrow> 'k"
  cmd_zremrangebyscore :: "string \<Rightarrow> int \<Rightarrow> int \<Rightarrow> 'k \<Rightarrow> 'k option"
  cmd_zcard :: "string \<Rightarrow> 'k \<Rightarrow> int option"
  cmd_zadd :: "string \<Rightarrow> int \<Rightarrow> string \<Rightarrow> 'k \<Rightarrow> 'k option"
  cmd_zfirst :: "string \<Rightarrow> 'k \<Rightarrow> (int \<times> string) option option"
  cmd_hmget :: "string \<Rightarrow> 'k \<Rightarrow> (rat option \<times> rat option) option"
  cmd_hmset :: "string \<Rightarrow> rat \<Rightarrow> rat \<Rightarrow> 'k \<Rightarrow> 'k option"

text \<open>The millisecond clock the scripts compute from \<open>TIME\<close>.\<close>

definition server_now_ms :: "'k redis_commands \<Rightarrow> 'k \<Rightarrow> millis" where
  "server_now_ms C k = (case cmd_time C k of (sec, usec) \<Rightarrow> sec * 1000 + usec div 1000)"

section \<open>What the commands do to a view\<close>

definition view_incr :: "string \<Rightarrow> keyview \<Rightarrow> (int \<times> keyview) option" where
  "view_incr key v =
     (case v key of
        None \<Rightarrow> Some (1, v(key \<mapsto> (RInt 1, None)))
      | Some (RInt n, d) \<Rightarrow> if n + 1 < 2 ^ 63 then Some (n + 1, v(key \<mapsto> (RInt (n + 1), d))) else None
      | Some _ \<Rightarrow> None)"

definition view_pexpire :: "millis \<Rightarrow> string \<Rightarrow> millis \<Rightarrow> keyview \<Rightarrow> keyview" where
  "view_pexpire now key ms v =
     (case v key of None \<Rightarrow> v | Some (x, _) \<Rightarrow> v(key \<mapsto> (x, Some (now + ms))))"

definition put_zset :: "string \<Rightarrow> (int \<times> string) list \<Rightarrow> millis option \<Rightarrow> keyview \<Rightarrow> keyview" where
  "put_zset key zs d v = v(key := (if zs = [] then None else Some (RZset zs, d)))"

definition view_zremrangebyscore :: "string \<Rightarrow> int \<Rightarrow> int \<Rightarrow> keyview \<Rightarrow> keyview option" where
  "view_zremrangebyscore key lo hi v =
     (case v key of
        None \<Rightarrow> Some v
      | Some (RZset zs, d) \<Rightarrow> Some (put_zset key (filter (\<lambda>z. \<not> (lo \<le> fst z \<and> fst z \<le> hi)) zs) d v)
      | Some _ \<Rightarrow> None)"

definition view_zset :: "string \<Rightarrow> keyview \<Rightarrow> (int \<times> string) list option" where
  "view_zset key v =
     (case v key of None \<Rightarrow> Some [] | Some (RZset zs, _) \<Rightarrow> Some zs | Some _ \<Rightarrow> None)"

definition view_zcard :: "string \<Rightarrow> keyview \<Rightarrow> int option" where
  "view_zcard key v = map_option (\<lambda>zs. int (length zs)) (view_zset key v)"

definition zinsert :: "int \<Rightarrow> string \<Rightarrow> (int \<times> string) list \<Rightarrow> (int \<times> string) list" where
  "zinsert score member zs = insort (score, member) (filter (\<lambda>z. snd z \<noteq> member) zs)"

definition view_zadd :: "string \<Rightarrow> int \<Rightarrow> string \<Rightarrow> keyview \<Rightarrow> keyview option" where
  "view_zadd key score member v =
     (case v key of
        None \<Rightarrow> Some (v(key \<mapsto> (RZset [(score, member)], None)))
      | Some (RZset zs, d) \<Rightarrow> Some (v(key \<mapsto> (RZset (zinsert score member zs), d)))
      | Some _ \<Rightarrow> None)"

definition view_zfirst :: "string \<Rightarrow> keyview \<Rightarrow> (int \<times> string) option option" where
  "view_zfirst key v = map_option (\<lambda>zs. case zs of [] \<Rightarrow> None | z # _ \<Rightarrow> Some z) (view_zset key v)"

definition view_hmget :: "string \<Rightarrow> keyview \<Rightarrow> (rat option \<times> rat option) option" where
  "view_hmget key v =
     (case v key of
        None \<Rightarrow> Some (None, None)
      | Some (RHash (a, b), _) \<Rightarrow> Some (Some a, Some b)
      | Some _ \<Rightarrow> None)"

definition view_hmset :: "string \<Rightarrow> rat \<Rightarrow> rat \<Rightarrow> keyview \<Rightarrow> keyview option" where
  "view_hmset key a b v =
     (case v key of
        None \<Rightarrow> Some (v(key \<mapsto> (RHash (a, b), None)))
      | Some (RHash _, d) \<Rightarrow> Some (v(key \<mapsto> (RHash (a, b), d)))
      | Some _ \<Rightarrow> None)"

text \<open>What is left of a view when the clock reaches \<open>now\<close>: keys past their deadline are gone.\<close>

definition live_at :: "millis \<Rightarrow> keyview \<Rightarrow> keyview" where
  "live_at now v key =
     (case v key of
        Some (x, Some d) \<Rightarrow> if d < now then None else Some (x, Some d)
      | e \<Rightarrow> e)"

section \<open>The laws\<close>

locale redis_server =
  fixes C :: "'k redis_commands" and view :: "'k \<Rightarrow> keyview"
  assumes incr_law:
      "map_option (\<lambda>(n, k'). (n, view k', cmd_time C k')) (cmd_incr C key k) =
       map_option (\<lambda>(n, v). (n, v, cmd_time C k)) (view_incr key (view k))"
    and pexpire_law:
      "0 < ms \<Longrightarrow> view (cmd_pexpire C key ms k) = view_pexpire (server_now_ms C k) key ms (view k)"
      "cmd_time C (cmd_pexpire C key ms k) = cmd_time C k"
    and zremrangebyscore_law:
      "map_option (\<lambda>k'. (view k', cmd_time C k')) (cmd_zremrangebyscore C key lo hi k) =
       map_option (\<lambda>v. (v, cmd_time C k)) (view_zremrangebyscore key lo hi (view k))"
    and zcard_law: "cmd_zcard C key k = view_zcard key (view k)"
    and zadd_law:
      "map_option (\<lambda>k'. (view k', cmd_time C k')) (cmd_zadd C key score member k) =
       map_option (\<lambda>v. (v, cmd_time C k)) (view_zadd key score member (view k))"
    and zfirst_law: "cmd_zfirst C key k = view_zfirst key (view k)"
    and hmget_law: "cmd_hmget C key k = view_hmget key (view k)"
    and hmset_law:
      "map_option (\<lambda>k'. (view k', cmd_time C k')) (cmd_hmset C key a b k) =
       map_option (\<lambda>v. (v, cmd_time C k)) (view_hmset key a b (view k))"
    and live: "live_at (server_now_ms C k) (view k) = view k"
begin

lemma incr_cases:
  "cmd_incr C key k = None \<Longrightarrow> view_incr key (view k) = None"
  "cmd_incr C key k = Some (n, k') \<Longrightarrow> view_incr key (view k) = Some (n, view k') \<and> cmd_time C k' = cmd_time C k"
  using incr_law [of key k] by (auto simp: map_option_case split: option.splits prod.splits)

lemma zrem_cases:
  "cmd_zremrangebyscore C key lo hi k = None \<Longrightarrow> view_zremrangebyscore key lo hi (view k) = None"
  "cmd_zremrangebyscore C key lo hi k = Some k' \<Longrightarrow>
     view_zremrangebyscore key lo hi (view k) = Some (view k') \<and> cmd_time C k' = cmd_time C k"
  using zremrangebyscore_law [of key lo hi k] by (auto simp: map_option_case split: option.splits)

lemma zadd_cases:
  "cmd_zadd C key score member k = None \<Longrightarrow> view_zadd key score member (view k) = None"
  "cmd_zadd C key score member k = Some k' \<Longrightarrow>
     view_zadd key score member (view k) = Some (view k') \<and> cmd_time C k' = cmd_time C k"
  using zadd_law [of key score member k] by (auto simp: map_option_case split: option.splits)

lemma hmset_cases:
  "cmd_hmset C key a b k = None \<Longrightarrow> view_hmset key a b (view k) = None"
  "cmd_hmset C key a b k = Some k' \<Longrightarrow>
     view_hmset key a b (view k) = Some (view k') \<and> cmd_time C k' = cmd_time C k"
  using hmset_law [of key a b k] by (auto simp: map_option_case split: option.splits)

lemma now_ms_cong: "cmd_time C k' = cmd_time C k \<Longrightarrow> server_now_ms C k' = server_now_ms C k"
  by (simp add: server_now_ms_def)

lemmas command_cases = incr_cases zrem_cases zadd_cases hmset_cases

end

section \<open>A keyspace with lazy expiry\<close>

record keyspace =
  ks_time :: "int \<times> int"
  ks_entries :: keyview

definition ks_now :: "keyspace \<Rightarrow> millis" where
  "ks_now k = (case ks_time k of (sec, usec) \<Rightarrow> sec * 1000 + usec div 1000)"

definition ks_view :: "keyspace \<Rightarrow> keyview" where
  "ks_view k = live_at (ks_now k) (ks_entries k)"

text \<open>A write stores the entry it computed on the live view, and leaves all other entries.\<close>

definition ks_store :: "string \<Rightarrow> keyspace \<Rightarrow> keyview \<Rightarrow> keyspace" where
  "ks_store key k v = k\<lparr>ks_entries := (ks_entries k)(key := v key)\<rparr>"

definition ks_commands :: "keyspace redis_commands" where
  "ks_commands =
     \<lparr>cmd_time = ks_time,
      cmd_incr = (\<lambda>key k. map_option (\<lambda>(n, v). (n, ks_store key k v)) (view_incr key (ks_view k))),
      cmd_pexpire = (\<lambda>key ms k. ks_store key k (view_pexpire (ks_now k) key ms (ks_view k))),
      cmd_zremrangebyscore = (\<lambda>key lo hi k. map_option (ks_store key k) (view_zremrangebyscore key lo hi (ks_view k))),
      cmd_zcard = (\<lambda>key k. view_zcard key (ks_view k)),
      cmd_zadd = (\<lambda>key score member k. map_option (ks_store key k) (view_zadd key score member (ks_view k))),
      cmd_zfirst = (\<lambda>key k. view_zfirst key (ks_view k)),
      cmd_hmget = (\<lambda>key k. view_hmget key (ks_view k)),
      cmd_hmset = (\<lambda>key a b k. map_option (ks_store key k) (view_hmset key a b (ks_view k)))\<rparr>"

lemma ks_time_store [simp]: "ks_time (ks_store key k v) = ks_time k"
  by (simp add: ks_store_def)

lemma ks_now_store [simp]: "ks_now (ks_store key k v) = ks_now k"
  by (simp add: ks_now_def)

text \<open>
  Storing what a command computed is visible as such, provided the new entry is alive and
  the command changed no other key.
\<close>

lemma ks_view_store:
  assumes "\<And>x d. v key = Some (x, Some d) \<Longrightarrow> ks_now k \<le> d" "\<And>key'. key' \<noteq> key \<Longrightarrow> v key' = ks_view k key'"
  shows "ks_view (ks_store key k v) = v"
proof
  fix key'
  show "ks_view (ks_store key k v) key' = v key'"
  proof (cases "key' = key")
    case True
    with assms(1) show ?thesis
      by (fastforce simp: ks_view_def live_at_def ks_store_def ks_now_def split: option.splits)
  next
    case False
    then have "ks_view (ks_store key k v) key' = ks_view k key'"
      by (simp add: ks_view_def live_at_def ks_store_def ks_now_def)
    with assms(2) [OF False] show ?thesis by simp
  qed
qed

lemma ks_view_deadline: "ks_view k key = Some (x, Some d) \<Longrightarrow> ks_now k \<le> d"
  by (auto simp: ks_view_def live_at_def split: option.splits if_splits)

lemma live_at_idem: "live_at now (live_at now v) = live_at now v"
  by (rule ext) (simp add: live_at_def split: option.split)

lemma view_writes_local:
  "view_incr key v = Some (n, v') \<Longrightarrow> key' \<noteq> key \<Longrightarrow> v' key' = v key'"
  "view_pexpire now key ms v = v' \<Longrightarrow> key' \<noteq> key \<Longrightarrow> v' key' = v key'"
  "view_zremrangebyscore key lo hi v = Some v' \<Longrightarrow> key' \<noteq> key \<Longrightarrow> v' key' = v key'"
  "view_zadd key score member v = Some v' \<Longrightarrow> key' \<noteq> key \<Longrightarrow> v' key' = v key'"
  "view_hmset key a b v = Some v' \<Longrightarrow> key' \<noteq> key \<Longrightarrow> v' key' = v key'"
  by (auto simp: view_incr_def view_pexpire_def view_zremrangebyscore_def view_zadd_def view_hmset_def
      put_zset_def split: option.splits redis_value.splits if_splits prod.splits)

text \<open>The deadline of a key a command wrote: the one it had, or none, or a new one.\<close>

lemma view_writes_deadline:
  "view_incr key v = Some (n, v') \<Longrightarrow> v' key = Some (x, Some d) \<Longrightarrow> \<exists>y. v key = Some (y, Some d)"
  "view_zremrangebyscore key lo hi v = Some v' \<Longrightarrow> v' key = Some (x, Some d) \<Longrightarrow> \<exists>y. v key = Some (y, Some d)"
  "view_zadd key score member v = Some v' \<Longrightarrow> v' key = Some (x, Some d) \<Longrightarrow> \<exists>y. v key = Some (y, Some d)"
  "view_hmset key a b v = Some v' \<Longrightarrow> v' key = Some (x, Some d) \<Longrightarrow> \<exists>y. v key = Some (y, Some d)"
  by (auto simp: view_incr_def view_zremrangebyscore_def view_zadd_def view_hmset_def
      put_zset_def split: option.splits redis_value.splits if_splits prod.splits)

lemma ks_store_incr: "view_incr key (ks_view k) = Some (n, v) \<Longrightarrow> ks_view (ks_store key k v) = v"
  by (rule ks_view_store) (blast dest: view_writes_deadline view_writes_local ks_view_deadline)+

lemma ks_store_zrem: "view_zremrangebyscore key lo hi (ks_view k) = Some v \<Longrightarrow> ks_view (ks_store key k v) = v"
  by (rule ks_view_store) (blast dest: view_writes_deadline view_writes_local ks_view_deadline)+

lemma ks_store_zadd: "view_zadd key score member (ks_view k) = Some v \<Longrightarrow> ks_view (ks_store key k v) = v"
  by (rule ks_view_store) (blast dest: view_writes_deadline view_writes_local ks_view_deadline)+

lemma ks_store_hmset: "view_hmset key a b (ks_view k) = Some v \<Longrightarrow> ks_view (ks_store key k v) = v"
  by (rule ks_view_store) (blast dest: view_writes_deadline view_writes_local ks_view_deadline)+

lemma ks_store_pexpire:
  "0 < ms \<Longrightarrow> ks_view (ks_store key k (view_pexpire (ks_now k) key ms (ks_view k))) = view_pexpire (ks_now k) key ms (ks_view k)"
  by (rule ks_view_store) (auto simp: view_pexpire_def split: option.splits if_splits)

lemma server_now_ks [simp]: "server_now_ms ks_commands k = ks_now k"
  by (simp add: server_now_ms_def ks_commands_def ks_now_def)

interpretation ks: redis_server ks_commands ks_view
proof unfold_locales
  show "map_option (\<lambda>(n, k'). (n, ks_view k', cmd_time ks_commands k')) (cmd_incr ks_commands key k) =
      map_option (\<lambda>(n, v). (n, v, cmd_time ks_commands k)) (view_incr key (ks_view k))" for key k
    by (cases "view_incr key (ks_view k)") (auto simp: ks_commands_def ks_store_incr)
  show "0 < ms \<Longrightarrow> ks_view (cmd_pexpire ks_commands key ms k) = view_pexpire (server_now_ms ks_commands k) key ms (ks_view k)"
    for ms key k by (simp only: server_now_ks) (simp add: ks_commands_def ks_store_pexpire)
  show "map_option (\<lambda>k'. (ks_view k', cmd_time ks_commands k')) (cmd_zremrangebyscore ks_commands key lo hi k) =
      map_option (\<lambda>v. (v, cmd_time ks_commands k)) (view_zremrangebyscore key lo hi (ks_view k))" for key lo hi k
    by (cases "view_zremrangebyscore key lo hi (ks_view k)") (auto simp: ks_commands_def ks_store_zrem)
  show "map_option (\<lambda>k'. (ks_view k', cmd_time ks_commands k')) (cmd_zadd ks_commands key score member k) =
      map_option (\<lambda>v. (v, cmd_time ks_commands k)) (view_zadd key score member (ks_view k))" for key score member k
    by (cases "view_zadd key score member (ks_view k)") (auto simp: ks_commands_def ks_store_zadd)
  show "map_option (\<lambda>k'. (ks_view k', cmd_time ks_commands k')) (cmd_hmset ks_commands key a b k) =
      map_option (\<lambda>v. (v, cmd_time ks_commands k)) (view_hmset key a b (ks_view k))" for key a b k
    by (cases "view_hmset key a b (ks_view k)") (auto simp: ks_commands_def ks_store_hmset)
  show "live_at (server_now_ms ks_commands k) (ks_view k) = ks_view k" for k
    by (simp only: server_now_ks) (simp add: ks_view_def live_at_idem)
qed (simp_all add: ks_commands_def)

section \<open>Strings with an expiry\<close>

text \<open>
  The commands of the policy cache: \<open>GET\<close>, \<open>SETEX\<close> (an error for an expiry that is not
  positive) and \<open>DEL\<close>.
\<close>

record 'k cache_commands =
  cc_get :: "string \<Rightarrow> 'k \<Rightarrow> string option option"
  cc_setex :: "string \<Rightarrow> int \<Rightarrow> string \<Rightarrow> 'k \<Rightarrow> 'k option"
  cc_del :: "string \<Rightarrow> 'k \<Rightarrow> 'k"

definition view_get :: "string \<Rightarrow> keyview \<Rightarrow> string option option" where
  "view_get key v =
     (case v key of None \<Rightarrow> Some None | Some (RStr s, _) \<Rightarrow> Some (Some s) | Some _ \<Rightarrow> None)"

definition view_setex :: "millis \<Rightarrow> string \<Rightarrow> int \<Rightarrow> string \<Rightarrow> keyview \<Rightarrow> keyview option" where
  "view_setex now key seconds s v =
     (if 0 < seconds then Some (v(key \<mapsto> (RStr s, Some (now + seconds * 1000)))) else None)"

locale redis_cache_server = redis_server C view
  for C :: "'k redis_commands" and view +
  fixes K :: "'k cache_commands"
  assumes get_law: "cc_get K key k = view_get key (view k)"
    and setex_law:
      "map_option (\<lambda>k'. (view k', cmd_time C k')) (cc_setex K key seconds s k) =
       map_option (\<lambda>v. (v, cmd_time C k)) (view_setex (server_now_ms C k) key seconds s (view k))"
    and del_law: "view (cc_del K key k) = (view k)(key := None)" "cmd_time C (cc_del K key k) = cmd_time C k"
begin

lemma setex_cases:
  "0 < seconds \<Longrightarrow> \<exists>k'. cc_setex K key seconds s k = Some k' \<and>
     view k' = (view k)(key \<mapsto> (RStr s, Some (server_now_ms C k + seconds * 1000))) \<and> cmd_time C k' = cmd_time C k"
  "\<not> 0 < seconds \<Longrightarrow> cc_setex K key seconds s k = None"
  using setex_law [of key seconds s k]
  by (auto simp: view_setex_def map_option_case split: option.splits if_splits)

lemma get_after_setex:
  "0 < seconds \<Longrightarrow> cc_setex K key seconds s k = Some k' \<Longrightarrow> cc_get K key k' = Some (Some s)"
  using setex_cases(1) [of seconds key s k] by (auto simp: get_law view_get_def)

lemma get_after_del: "cc_get K key (cc_del K key k) = Some None"
  by (simp add: get_law del_law view_get_def)

end

definition ks_cache :: "keyspace cache_commands" where
  "ks_cache =
     \<lparr>cc_get = (\<lambda>key k. view_get key (ks_view k)),
      cc_setex = (\<lambda>key seconds s k. map_option (ks_store key k) (view_setex (ks_now k) key seconds s (ks_view k))),
      cc_del = (\<lambda>key k. ks_store key k ((ks_view k)(key := None)))\<rparr>"

lemma ks_store_setex: "view_setex (ks_now k) key seconds s (ks_view k) = Some v \<Longrightarrow> ks_view (ks_store key k v) = v"
  by (rule ks_view_store) (auto simp: view_setex_def split: if_splits)

lemma ks_store_del: "ks_view (ks_store key k ((ks_view k)(key := None))) = (ks_view k)(key := None)"
  by (rule ks_view_store) auto

interpretation ks_cache: redis_cache_server ks_commands ks_view ks_cache
proof unfold_locales
  show "cc_get ks_cache key k = view_get key (ks_view k)" for key k by (simp add: ks_cache_def)
  show "map_option (\<lambda>k'. (ks_view k', cmd_time ks_commands k')) (cc_setex ks_cache key seconds s k) =
      map_option (\<lambda>v. (v, cmd_time ks_commands k)) (view_setex (server_now_ms ks_commands k) key seconds s (ks_view k))"
    for key seconds s k unfolding server_now_ks
    by (cases "view_setex (ks_now k) key seconds s (ks_view k)") (auto simp: ks_cache_def ks_commands_def ks_store_setex)
  show "ks_view (cc_del ks_cache key k) = (ks_view k)(key := None)" for key k
    by (simp add: ks_cache_def ks_store_del)
  show "cmd_time ks_commands (cc_del ks_cache key k) = cmd_time ks_commands k" for key k
    by (simp add: ks_cache_def ks_commands_def)
qed

end
