(* ===== verification/Lua_Scripts.thy ===== *)
theory Lua_Scripts
  imports Algorithms Redis_Server
begin

text \<open>
  \<open>app/redis/scripts.py\<close>: the three Lua scripts that move the shared state of a quota.
  A script is a function of the server's commands, its key and arguments, and the keyspace;
  it answers with the list of integers Redis builds from the returned table, or with an
  error when a command does. Redis runs a script as one step.

  Lua numbers are doubles. The integers of the scripts (times, limits, counts) are below
  \<open>2 ^ 53\<close>, where integer arithmetic on doubles is exact, and are \<open>int\<close> here; the token
  level, the refill rate and every quotient are doubles and are rounded with \<open>fl\<close>.
\<close>

datatype redis_error = ScriptError | ConnectionLost

section \<open>Rendering a number in a key\<close>

text \<open>
  \<open>KEYS[1] .. ":" .. window_start\<close> writes the number with Lua's format \<open>%.14g\<close>: an integer
  of up to 14 digits in full, a longer one in exponent form with 14 significant digits.
\<close>

definition strip_zeros :: "string \<Rightarrow> string" where
  "strip_zeros s = rev (dropWhile (\<lambda>c. c = CHR ''0'') (rev s))"

definition exponent_form :: "nat \<Rightarrow> string" where
  "exponent_form n =
     (let d = length (nat_str n);
          m = nat (round_even (of_nat n / 10 ^ (d - 14)));
          (m', e) = (if m = 10 ^ 14 then (10 ^ 13, d) else (m, d - 1));
          digits = nat_str m';
          frac = strip_zeros (tl digits)
      in [hd digits] @ (if frac = [] then [] else ''.'' @ frac) @ ''e+'' @
         (if e < 10 then ''0'' else []) @ nat_str e)"

definition lua_num :: "int \<Rightarrow> string" where
  "lua_num n =
     (if \<bar>n\<bar> < 10 ^ 14 then int_str n
      else (if n < 0 then ''-'' else []) @ exponent_form (nat \<bar>n\<bar>))"

section \<open>The scripts\<close>

text \<open>The table of six numbers a script returns; Redis truncates each to an integer.\<close>

definition lua_reply :: "bool \<Rightarrow> int \<Rightarrow> int \<Rightarrow> int \<Rightarrow> int \<Rightarrow> int \<Rightarrow> int list" where
  "lua_reply allowed limit remaining reset_at_ms retry_ms sixth =
     [if allowed then 1 else 0, limit, remaining, reset_at_ms, retry_ms, sixth]"

definition window_key :: "string \<Rightarrow> int \<Rightarrow> string" where
  "window_key key ws = key @ '':'' @ lua_num ws"

definition fixed_window_lua ::
  "'k redis_commands \<Rightarrow> string \<Rightarrow> int \<Rightarrow> int \<Rightarrow> 'k \<Rightarrow> (redis_error + int list) \<times> 'k" where
  "fixed_window_lua C key0 limit window_ms k =
     (let now_ms = server_now_ms C k;
          ws = now_ms - now_ms mod window_ms;
          key = window_key key0 ws
      in case cmd_incr C key k of
           None \<Rightarrow> (Inl ScriptError, k)
         | Some (count, k1) \<Rightarrow>
             let k2 = (if count = 1 then cmd_pexpire C key (window_ms + 1000) k1 else k1);
                 reset_at_ms = ws + window_ms;
                 allowed = (count \<le> limit);
                 remaining = (if allowed then limit - count else 0);
                 retry_ms = max 0 (reset_at_ms - now_ms)
             in (Inr (lua_reply allowed limit remaining reset_at_ms retry_ms count), k2))"

definition sliding_window_reply ::
  "'k redis_commands \<Rightarrow> string \<Rightarrow> int \<Rightarrow> int \<Rightarrow> millis \<Rightarrow> bool \<Rightarrow> int \<Rightarrow> int \<Rightarrow> 'k \<Rightarrow>
   (redis_error + int list) \<times> 'k" where
  "sliding_window_reply C key limit window_ms now_ms allowed remaining count k =
     (case cmd_zfirst C key k of
        None \<Rightarrow> (Inl ScriptError, k)
      | Some oldest \<Rightarrow>
          let reset_at_ms = (case oldest of None \<Rightarrow> now_ms + window_ms | Some (score, _) \<Rightarrow> score + window_ms);
              retry_ms = max 0 (reset_at_ms - now_ms)
          in (Inr (lua_reply allowed limit remaining reset_at_ms retry_ms count), k))"

definition sliding_window_log_lua ::
  "'k redis_commands \<Rightarrow> string \<Rightarrow> int \<Rightarrow> int \<Rightarrow> string \<Rightarrow> 'k \<Rightarrow> (redis_error + int list) \<times> 'k" where
  "sliding_window_log_lua C key limit window_ms member k =
     (let now_ms = server_now_ms C k;
          cutoff = now_ms - window_ms
      in case cmd_zremrangebyscore C key 0 cutoff k of
           None \<Rightarrow> (Inl ScriptError, k)
         | Some k1 \<Rightarrow>
             (case cmd_zcard C key k1 of
                None \<Rightarrow> (Inl ScriptError, k1)
              | Some count \<Rightarrow>
                  if count < limit then
                    (case cmd_zadd C key now_ms member k1 of
                       None \<Rightarrow> (Inl ScriptError, k1)
                     | Some k2 \<Rightarrow>
                         let k3 = cmd_pexpire C key (window_ms + 1000) k2
                         in sliding_window_reply C key limit window_ms now_ms True (limit - (count + 1)) (count + 1) k3)
                  else sliding_window_reply C key limit window_ms now_ms False 0 count k1))"

text \<open>The token level after the refill, and the clock it is valid for: only time that moves
  forward refills, and only then is the refill time advanced.\<close>

definition lua_refill :: "millis \<Rightarrow> int \<Rightarrow> rat \<Rightarrow> rat \<Rightarrow> rat \<Rightarrow> rat \<times> rat" where
  "lua_refill now_ms capacity refill_per_ms tokens last_refill_ms =
     (if of_int now_ms > last_refill_ms
      then (min (of_int capacity) (fl (tokens + fl (fl (of_int now_ms - last_refill_ms) * refill_per_ms))), of_int now_ms)
      else (tokens, last_refill_ms))"

definition token_bucket_lua ::
  "'k redis_commands \<Rightarrow> string \<Rightarrow> int \<Rightarrow> rat \<Rightarrow> int \<Rightarrow> int \<Rightarrow> 'k \<Rightarrow> (redis_error + int list) \<times> 'k" where
  "token_bucket_lua C key capacity refill_per_ms requested ttl_ms k =
     (let now_ms = server_now_ms C k
      in case cmd_hmget C key k of
           None \<Rightarrow> (Inl ScriptError, k)
         | Some (current1, current2) \<Rightarrow>
             let tokens0 = (case current1 of None \<Rightarrow> of_int capacity | Some x \<Rightarrow> x);
                 last0 = (case current2 of None \<Rightarrow> of_int now_ms | Some x \<Rightarrow> x);
                 (tokens1, last1) = lua_refill now_ms capacity refill_per_ms tokens0 last0;
                 allowed = (tokens1 \<ge> of_int requested);
                 tokens2 = (if allowed then fl (tokens1 - of_int requested) else tokens1);
                 remaining = \<lfloor>tokens2\<rfloor>;
                 retry_ms = (if allowed then 0 else \<lceil>fl (fl (of_int requested - tokens1) / refill_per_ms)\<rceil>);
                 refill_to_full_ms = \<lceil>fl (fl (of_int capacity - tokens2) / refill_per_ms)\<rceil>;
                 reset_at_ms = now_ms + refill_to_full_ms
             in (case cmd_hmset C key tokens2 last1 k of
                   None \<Rightarrow> (Inl ScriptError, k)
                 | Some k1 \<Rightarrow>
                     (Inr (lua_reply allowed capacity remaining reset_at_ms retry_ms (int_of_float tokens2)),
                      cmd_pexpire C key ttl_ms k1)))"

section \<open>The scripts as transitions of the view\<close>

definition fixed_window_view ::
  "millis \<Rightarrow> string \<Rightarrow> int \<Rightarrow> int \<Rightarrow> keyview \<Rightarrow> (redis_error + int list) \<times> keyview" where
  "fixed_window_view now key0 limit window_ms v =
     (let ws = now - now mod window_ms; key = window_key key0 ws
      in case view_incr key v of
           None \<Rightarrow> (Inl ScriptError, v)
         | Some (count, v1) \<Rightarrow>
             (Inr (lua_reply (count \<le> limit) limit (if count \<le> limit then limit - count else 0)
                (ws + window_ms) (max 0 (ws + window_ms - now)) count),
              if count = 1 then view_pexpire now key (window_ms + 1000) v1 else v1))"

definition sliding_window_view ::
  "millis \<Rightarrow> string \<Rightarrow> int \<Rightarrow> int \<Rightarrow> string \<Rightarrow> keyview \<Rightarrow> (redis_error + int list) \<times> keyview" where
  "sliding_window_view now key limit window_ms member v =
     (case view_zset key v of
        None \<Rightarrow> (Inl ScriptError, v)
      | Some zs \<Rightarrow>
          let act = filter (\<lambda>z. \<not> (0 \<le> fst z \<and> fst z \<le> now - window_ms)) zs;
              ok = (int (length act) < limit);
              zs' = (if ok then zinsert now member act else act);
              reset = (case zs' of [] \<Rightarrow> now | z # _ \<Rightarrow> fst z) + window_ms;
              count = (if ok then int (length act) + 1 else int (length act))
          in (Inr (lua_reply ok limit (if ok then limit - count else 0) reset (max 0 (reset - now)) count),
              if ok then v(key \<mapsto> (RZset zs', Some (now + (window_ms + 1000))))
              else put_zset key act (case v key of Some (_, d) \<Rightarrow> d | None \<Rightarrow> None) v))"

definition token_bucket_view ::
  "millis \<Rightarrow> string \<Rightarrow> int \<Rightarrow> rat \<Rightarrow> int \<Rightarrow> int \<Rightarrow> keyview \<Rightarrow> (redis_error + int list) \<times> keyview" where
  "token_bucket_view now key capacity r requested ttl_ms v =
     (case view_hmget key v of
        None \<Rightarrow> (Inl ScriptError, v)
      | Some (c1, c2) \<Rightarrow>
          let (t1, l1) = lua_refill now capacity r (case c1 of None \<Rightarrow> of_int capacity | Some x \<Rightarrow> x)
                           (case c2 of None \<Rightarrow> of_int now | Some x \<Rightarrow> x);
              ok = (t1 \<ge> of_int requested);
              t2 = (if ok then fl (t1 - of_int requested) else t1)
          in (Inr (lua_reply ok capacity \<lfloor>t2\<rfloor> (now + \<lceil>fl (fl (of_int capacity - t2) / r)\<rceil>)
                (if ok then 0 else \<lceil>fl (fl (of_int requested - t1) / r)\<rceil>) (int_of_float t2)),
              v(key \<mapsto> (RHash (t2, l1), Some (now + ttl_ms)))))"

lemma zinsert_nonempty [simp]: "zinsert s m zs \<noteq> []"
  by (simp add: zinsert_def insort_not_Nil)

context redis_server
begin

text \<open>
  Each script, run on the server, is its transition of the view: same reply, same view
  afterwards, and the clock has not moved.
\<close>

lemma fixed_window_lua_view:
  assumes "0 < window_ms"
  shows "fixed_window_view (server_now_ms C k) key limit window_ms (view k) =
    (fst (fixed_window_lua C key limit window_ms k), view (snd (fixed_window_lua C key limit window_ms k)))"
    and "cmd_time C (snd (fixed_window_lua C key limit window_ms k)) = cmd_time C k"
  using assms
  by (auto simp: fixed_window_lua_def fixed_window_view_def Let_def pexpire_law
      dest!: incr_cases dest: now_ms_cong split: option.splits)

lemma sliding_window_lua_view:
  assumes "0 < window_ms"
  shows "sliding_window_view (server_now_ms C k) key limit window_ms member (view k) =
    (fst (sliding_window_log_lua C key limit window_ms member k),
     view (snd (sliding_window_log_lua C key limit window_ms member k)))"
    and "cmd_time C (snd (sliding_window_log_lua C key limit window_ms member k)) = cmd_time C k"
proof -
  let ?now = "server_now_ms C k" and ?run = "sliding_window_log_lua C key limit window_ms member k"
  have "sliding_window_view ?now key limit window_ms member (view k) = (fst ?run, view (snd ?run)) \<and>
      cmd_time C (snd ?run) = cmd_time C k"
  proof (cases "cmd_zremrangebyscore C key 0 (?now - window_ms) k")
    case None
    from zrem_cases(1) [OF None] have "view_zset key (view k) = None"
      by (auto simp: view_zremrangebyscore_def view_zset_def split: option.splits redis_value.splits)
    with None show ?thesis by (simp add: sliding_window_log_lua_def sliding_window_view_def Let_def)
  next
    case (Some k1)
    note k1 = zrem_cases(2) [OF Some]
    from conjunct1 [OF k1] obtain zs where zs: "view_zset key (view k) = Some zs"
      by (auto simp: view_zremrangebyscore_def view_zset_def split: option.splits redis_value.splits)
    obtain act where act: "act = filter (\<lambda>z. \<not> (0 \<le> fst z \<and> fst z \<le> ?now - window_ms)) zs" by simp
    let ?d = "case view k key of Some (_, d) \<Rightarrow> d | None \<Rightarrow> None"
    have spec: "sliding_window_view ?now key limit window_ms member (view k) =
        (let ok = (int (length act) < limit); zs' = (if ok then zinsert ?now member act else act);
             reset = (case zs' of [] \<Rightarrow> ?now | z # _ \<Rightarrow> fst z) + window_ms;
             count = (if ok then int (length act) + 1 else int (length act))
         in (Inr (lua_reply ok limit (if ok then limit - count else 0) reset (max 0 (reset - ?now)) count),
             if ok then (view k)(key \<mapsto> (RZset zs', Some (?now + (window_ms + 1000))))
             else put_zset key act ?d (view k)))"
      by (simp add: sliding_window_view_def zs act Let_def)
    have v1: "view k1 = put_zset key act ?d (view k)"
      using conjunct1 [OF k1] zs unfolding act
      by (auto simp: view_zremrangebyscore_def view_zset_def put_zset_def fun_upd_idem
          split: option.splits redis_value.splits)
    have card: "cmd_zcard C key k1 = Some (int (length act))"
      by (simp add: zcard_law view_zcard_def view_zset_def v1 put_zset_def)
    have now1: "server_now_ms C k1 = ?now" using now_ms_cong [OF conjunct2 [OF k1]] .
    have first: "cmd_zfirst C key k' = Some (case ys of [] \<Rightarrow> None | z # _ \<Rightarrow> Some z)"
      if "view_zset key (view k') = Some ys" for k' ys
      using that by (simp add: zfirst_law view_zfirst_def)
    show ?thesis
    proof (cases "int (length act) < limit")
      case False
      have "view_zset key (view k1) = Some act" by (simp add: v1 view_zset_def put_zset_def)
      from first [OF this] False Some card v1 conjunct2 [OF k1] show ?thesis
        unfolding spec by (cases act) (simp_all add: sliding_window_log_lua_def sliding_window_reply_def Let_def case_prod_beta)
    next
      case True
      have zadd: "view_zadd key ?now member (view k1) =
          Some ((view k)(key \<mapsto> (RZset (zinsert ?now member act), if act = [] then None else ?d)))"
        by (cases act) (simp_all add: view_zadd_def v1 put_zset_def zinsert_def)
      then obtain k2 where k2: "cmd_zadd C key ?now member k1 = Some k2"
        using zadd_cases(1) by fastforce
      note z2 = zadd_cases(2) [OF k2]
      let ?k3 = "cmd_pexpire C key (window_ms + 1000) k2"
      have now2: "server_now_ms C k2 = ?now" using now_ms_cong [OF conjunct2 [OF z2]] now1 by simp
      have vk2: "view k2 = (view k)(key \<mapsto> (RZset (zinsert ?now member act), if act = [] then None else ?d))"
        using conjunct1 [OF z2] zadd by simp
      have pos: "0 < window_ms + 1000" using assms by simp
      have v3: "view ?k3 = (view k)(key \<mapsto> (RZset (zinsert ?now member act), Some (?now + (window_ms + 1000))))"
        unfolding pexpire_law(1) [OF pos] view_pexpire_def now2 vk2 by simp
      have "view_zset key (view ?k3) = Some (zinsert ?now member act)" by (simp add: v3 view_zset_def)
      from first [OF this] True Some card k2 v3 z2 conjunct2 [OF k1] show ?thesis
        unfolding spec by (cases "zinsert ?now member act")
          (simp_all add: sliding_window_log_lua_def sliding_window_reply_def Let_def pexpire_law case_prod_beta)
    qed
  qed
  then show "sliding_window_view ?now key limit window_ms member (view k) = (fst ?run, view (snd ?run))"
    "cmd_time C (snd ?run) = cmd_time C k" by simp_all
qed

lemma token_bucket_lua_view:
  assumes "0 < ttl_ms"
  shows "token_bucket_view (server_now_ms C k) key capacity r requested ttl_ms (view k) =
    (fst (token_bucket_lua C key capacity r requested ttl_ms k),
     view (snd (token_bucket_lua C key capacity r requested ttl_ms k)))"
    and "cmd_time C (snd (token_bucket_lua C key capacity r requested ttl_ms k)) = cmd_time C k"
proof -
  let ?run = "token_bucket_lua C key capacity r requested ttl_ms k"
  have hmset: "view_hmget key (view k) = Some c \<Longrightarrow> \<exists>d. view_hmset key a b (view k) = Some ((view k)(key \<mapsto> (RHash (a, b), d)))"
    for a b c
    by (auto simp: view_hmget_def view_hmset_def split: option.splits redis_value.splits)
  have "token_bucket_view (server_now_ms C k) key capacity r requested ttl_ms (view k) = (fst ?run, view (snd ?run)) \<and>
      cmd_time C (snd ?run) = cmd_time C k"
  proof (cases "view_hmget key (view k)")
    case None
    then show ?thesis by (simp add: token_bucket_lua_def token_bucket_view_def hmget_law Let_def)
  next
    case (Some c)
    obtain c1 c2 where c: "c = (c1, c2)" by (cases c)
    let ?fill = "lua_refill (server_now_ms C k) capacity r (case c1 of None \<Rightarrow> of_int capacity | Some x \<Rightarrow> x)
        (case c2 of None \<Rightarrow> of_int (server_now_ms C k) | Some x \<Rightarrow> x)"
    obtain t1 l1 where tl: "?fill = (t1, l1)" by (rule prod.exhaust)
    let ?t2 = "if of_int requested \<le> t1 then fl (t1 - of_int requested) else t1"
    obtain d where d: "view_hmset key ?t2 l1 (view k) = Some ((view k)(key \<mapsto> (RHash (?t2, l1), d)))"
      using hmset [OF Some] by blast
    obtain k1 where k1: "cmd_hmset C key ?t2 l1 k = Some k1"
      using hmset_cases(1) [of key ?t2 l1 k] d by (cases "cmd_hmset C key ?t2 l1 k") simp_all
    note h = hmset_cases(2) [OF k1, unfolded d option.inject]
    have v: "view k1 = (view k)(key \<mapsto> (RHash (?t2, l1), d))" "cmd_time C k1 = cmd_time C k"
      by (rule conjunct1 [OF h, symmetric], rule conjunct2 [OF h])
    have v': "view (cmd_pexpire C key ttl_ms k1) = (view k)(key \<mapsto> (RHash (?t2, l1), Some (server_now_ms C k + ttl_ms)))"
      unfolding pexpire_law(1) [OF assms] view_pexpire_def now_ms_cong [OF v(2)] v(1)
      by (simp only: fun_upd_same option.case prod.case fun_upd_upd)
    let ?reply = "Inr (lua_reply (of_int requested \<le> t1) capacity \<lfloor>?t2\<rfloor>
      (server_now_ms C k + \<lceil>fl (fl (of_int capacity - ?t2) / r)\<rceil>)
      (if of_int requested \<le> t1 then 0 else \<lceil>fl (fl (of_int requested - t1) / r)\<rceil>) (int_of_float ?t2))"
    have "?run = (?reply, cmd_pexpire C key ttl_ms k1)"
      by (simp only: token_bucket_lua_def Let_def hmget_law Some c tl option.case prod.case k1)
    moreover have "token_bucket_view (server_now_ms C k) key capacity r requested ttl_ms (view k) =
        (?reply, (view k)(key \<mapsto> (RHash (?t2, l1), Some (server_now_ms C k + ttl_ms))))"
      by (simp only: token_bucket_view_def Let_def Some c tl option.case prod.case)
    ultimately show ?thesis by (simp only: fst_conv snd_conv v' pexpire_law v(2) simp_thms)
  qed
  then show "token_bucket_view (server_now_ms C k) key capacity r requested ttl_ms (view k) = (fst ?run, view (snd ?run))"
    "cmd_time C (snd ?run) = cmd_time C k" by simp_all
qed

lemmas script_views = fixed_window_lua_view sliding_window_lua_view token_bucket_lua_view

end

end
