(* ===== verification/Shared_Quota.thy ===== *)
theory Shared_Quota
  imports Lua_Scripts
begin

text \<open>
  What the Lua scripts promise. First, each script against the local algorithm of the same
  name: the entry of the server's view abstracts to the local state, and one script call is
  one call of the local algorithm, up to the differences the statements show. Then many
  gateway instances on one server: a step relation whose steps are script calls, script
  calls whose reply is lost, the passing of time and unrelated traffic, and the bound on
  what the instances together let through.
\<close>

section \<open>Abstractions of the stored entries\<close>

text \<open>
  The counter of a window goes on counting refused requests, the local count stops at the
  limit: the local state is the counter capped at the limit.
\<close>

definition fw_abs :: "int \<Rightarrow> int \<Rightarrow> string \<Rightarrow> keyview \<Rightarrow> fixed_window_state option" where
  "fw_abs limit ws key v =
     (case v key of
        Some (RInt n, _) \<Rightarrow> Some \<lparr>fw_window_start_ms = ws, fw_count = min n limit\<rparr>
      | _ \<Rightarrow> None)"

definition counter_ok :: "entry option \<Rightarrow> bool" where
  "counter_ok e =
     (case e of None \<Rightarrow> True | Some (RInt n, _) \<Rightarrow> 0 \<le> n \<and> n + 1 < 2 ^ 63 | Some _ \<Rightarrow> False)"

definition sw_abs :: "string \<Rightarrow> keyview \<Rightarrow> millis list" where
  "sw_abs key v = (case v key of Some (RZset zs, _) \<Rightarrow> map fst zs | _ \<Rightarrow> [])"

text \<open>The sorted set of a quota: in order, no score in the future, and the new member is fresh.\<close>

definition zset_ok :: "millis \<Rightarrow> string \<Rightarrow> entry option \<Rightarrow> bool" where
  "zset_ok now member e =
     (case e of
        None \<Rightarrow> True
      | Some (RZset zs, _) \<Rightarrow> sorted zs \<and> (\<forall>z\<in>set zs. 0 \<le> fst z \<and> fst z \<le> now \<and> snd z \<noteq> member)
      | Some _ \<Rightarrow> False)"

definition hash_ok :: "int \<Rightarrow> entry option \<Rightarrow> bool" where
  "hash_ok capacity e =
     (case e of
        None \<Rightarrow> True
      | Some (RHash (t, l), _) \<Rightarrow> 0 \<le> t \<and> t \<le> of_int capacity \<and> fl t = t
      | Some _ \<Rightarrow> False)"

section \<open>Insertion at the end of a log\<close>

lemma map_fst_insort_last:
  fixes zs :: "(int \<times> string) list"
  assumes "sorted zs" "\<forall>z\<in>set zs. fst z \<le> t"
  shows "map fst (insort (t, m) zs) = map fst zs @ [t]"
  using assms
proof (induction zs)
  case (Cons z zs)
  show ?case
  proof (cases "(t, m) \<le> z")
    case True
    have "fst y = t" if "y \<in> set (z # zs)" for y
    proof -
      have "(t, m) \<le> y" using True Cons.prems(1) that by auto
      then have "t \<le> fst y" by (cases y) (auto simp: less_eq_prod_def)
      with Cons.prems(2) that show ?thesis by force
    qed
    then have "map fst (z # zs) = replicate (length (z # zs)) t"
      by (intro replicate_eqI) auto
    with True show ?thesis by (simp add: replicate_append_same)
  qed (use Cons in simp)
qed simp

lemma map_fst_zinsert:
  assumes "sorted zs" "\<forall>z\<in>set zs. fst z \<le> t \<and> snd z \<noteq> m"
  shows "map fst (zinsert t m zs) = map fst zs @ [t]"
proof -
  have "filter (\<lambda>z. snd z \<noteq> m) zs = zs" using assms(2) by (simp add: filter_id_conv)
  with assms show ?thesis by (simp add: zinsert_def map_fst_insort_last)
qed

lemma case_map_fst: "(case map fst zs of [] \<Rightarrow> a | e # _ \<Rightarrow> e) = (case zs of [] \<Rightarrow> a | z # _ \<Rightarrow> fst z)"
  by (cases zs) auto

section \<open>The scripts refine the algorithms\<close>

lemma fixed_window_view_refines:
  assumes "0 < w" "0 \<le> limit" "counter_ok (v (window_key key (window_start w now)))"
    and "apply_fixed_window now (fw_abs limit (window_start w now) (window_key key (window_start w now)) v) limit w =
      Inr (s', c)"
  shows "\<exists>count. fixed_window_view now key limit (w * 1000) v =
      (Inr (lua_reply (rc_allowed c) limit (rc_remaining c) (rc_reset_at_ms c) (rc_retry_after_ms c) count),
       snd (fixed_window_view now key limit (w * 1000) v)) \<and>
    rc_observed_value c = float_of_int (min count (limit + 1)) \<and>
    fw_abs limit (window_start w now) (window_key key (window_start w now))
       (snd (fixed_window_view now key limit (w * 1000) v)) = Some s'"
proof -
  let ?key = "window_key key (window_start w now)"
  have ws: "now - now mod (w * 1000) = window_start w now" by (simp add: window_start_def)
  show ?thesis
  proof (cases "v ?key")
    case None
    with assms show ?thesis
      by (auto simp: fixed_window_view_def ws Let_def view_incr_def view_pexpire_def fw_abs_def
          apply_fixed_window_eq fw_base_def lua_reply_def)
  next
    case (Some e)
    obtain n d where "e = (RInt n, d)" "0 \<le> n" "n + 1 < 2 ^ 63"
      using assms(3) Some by (cases e) (auto simp: counter_ok_def split: redis_value.splits)
    with Some assms(1,2,4) show ?thesis
      by (auto simp: fixed_window_view_def ws Let_def view_incr_def view_pexpire_def fw_abs_def
          apply_fixed_window_eq fw_base_def lua_reply_def min_def)
  qed
qed

lemma sliding_window_view_refines:
  assumes "0 < w" "zset_ok now member (v key)"
    and "apply_sliding_window_log now (sw_abs key v) limit w = (ev', c)"
  shows "\<exists>v'. sliding_window_view now key limit (w * 1000) member v =
      (Inr (lua_reply (rc_allowed c) limit (rc_remaining c) (rc_reset_at_ms c) (rc_retry_after_ms c) (int (length ev'))), v') \<and>
    sw_abs key v' = ev'"
proof -
  obtain zs where zs: "view_zset key v = Some zs" "sw_abs key v = map fst zs" "sorted zs"
      "\<forall>z\<in>set zs. 0 \<le> fst z \<and> fst z \<le> now \<and> snd z \<noteq> member"
    using assms(2) by (force simp: view_zset_def sw_abs_def zset_ok_def split: option.splits redis_value.splits)
  obtain act where act: "act = filter (\<lambda>z. \<not> (0 \<le> fst z \<and> fst z \<le> now - w * 1000)) zs" by simp
  have recent: "recent w now (sw_abs key v) = map fst act"
    using zs(4) unfolding zs(2) act recent_def filter_map
    by (intro arg_cong [where f = "map fst"] filter_cong) auto
  have ins: "map fst (zinsert now member act) = map fst act @ [now]"
    using zs(3,4) unfolding act by (intro map_fst_zinsert) (auto intro: sorted_wrt_filter)
  let ?ok = "int (length act) < limit"
  note view = sliding_window_view_def [of now key limit "w * 1000" member v, unfolded zs(1) option.case, folded act]
  have hd0: "(case map fst act of [] \<Rightarrow> now | e # _ \<Rightarrow> e) = (case act of [] \<Rightarrow> now | z # _ \<Rightarrow> fst z)"
    by (rule case_map_fst)
  have hd1: "(case map fst act @ [now] of [] \<Rightarrow> now | e # _ \<Rightarrow> e) = (case zinsert now member act of [] \<Rightarrow> now | z # _ \<Rightarrow> fst z)"
    unfolding ins [symmetric] by (rule case_map_fst)
  show ?thesis
  proof (cases ?ok)
    case True
    have "ev' = map fst act @ [now]"
      and c: "c = \<lparr>rc_allowed = True, rc_remaining = limit - (int (length act) + 1),
        rc_reset_at_ms = (case zinsert now member act of [] \<Rightarrow> now | z # _ \<Rightarrow> fst z) + w * 1000,
        rc_retry_after_ms = max 0 ((case zinsert now member act of [] \<Rightarrow> now | z # _ \<Rightarrow> fst z) + w * 1000 - now),
        rc_observed_value = float_of_int (int (length act) + 1)\<rparr>"
      using assms(3) True
      by (simp_all add: apply_sliding_window_log_eq Let_def recent hd1 add.commute)
    then show ?thesis
      using True ins unfolding view by (simp add: Let_def sw_abs_def add.commute)
  next
    case False
    have "ev' = map fst act"
      and c: "c = \<lparr>rc_allowed = False, rc_remaining = 0,
        rc_reset_at_ms = (case act of [] \<Rightarrow> now | z # _ \<Rightarrow> fst z) + w * 1000,
        rc_retry_after_ms = max 0 ((case act of [] \<Rightarrow> now | z # _ \<Rightarrow> fst z) + w * 1000 - now),
        rc_observed_value = float_of_int (int (length act))\<rparr>"
      using assms(3) False
      by (simp_all add: apply_sliding_window_log_eq Let_def recent hd0)
    then show ?thesis
      using False unfolding view by (simp add: Let_def sw_abs_def put_zset_def)
  qed
qed

text \<open>
  The bucket on the server: the level stays within the capacity and is a double, the refill
  clock never goes back, and the numbers of the reply are within their bounds.
\<close>

lemma lua_refill_bounds:
  assumes "0 < capacity" "capacity \<le> 2 ^ 53" "0 < r" "0 \<le> t" "t \<le> of_int capacity" "fl t = t"
    and "lua_refill now capacity r t l = (t1, l1)"
  shows "0 \<le> t1" "t1 \<le> of_int capacity" "fl t1 = t1" "l1 = max l (of_int now)" "\<not> l < of_int now \<Longrightarrow> t1 = t"
proof -
  have cap: "fl (of_int capacity) = of_int capacity" using assms(1,2) by (intro fl_of_int) auto
  have "0 \<le> t1 \<and> t1 \<le> of_int capacity \<and> fl t1 = t1 \<and> l1 = max l (of_int now) \<and> (\<not> l < of_int now \<longrightarrow> t1 = t)"
  proof (cases "l < of_int now")
    case True
    have "0 \<le> fl (t + fl (fl (of_int now - l) * r))" using True assms(3,4) by simp
    with True assms(1,7) cap show ?thesis by (auto simp: lua_refill_def min_def)
  qed (use assms in \<open>auto simp: lua_refill_def\<close>)
  then show "0 \<le> t1" "t1 \<le> of_int capacity" "fl t1 = t1" "l1 = max l (of_int now)" "\<not> l < of_int now \<Longrightarrow> t1 = t" by auto
qed

definition refill_clock :: "millis \<Rightarrow> entry option \<Rightarrow> rat" where
  "refill_clock now e = (case e of Some (RHash (_, l), _) \<Rightarrow> l | _ \<Rightarrow> of_int now)"

definition level :: "int \<Rightarrow> entry option \<Rightarrow> rat" where
  "level capacity e = (case e of Some (RHash (t, _), _) \<Rightarrow> t | _ \<Rightarrow> of_int capacity)"

lemma hash_okD [wf_dests]:
  "hash_ok capacity e \<Longrightarrow> 0 < capacity \<Longrightarrow> 0 \<le> level capacity e \<and> level capacity e \<le> of_int capacity"
  "hash_ok capacity e \<Longrightarrow> 0 < capacity \<Longrightarrow> capacity \<le> 2 ^ 53 \<Longrightarrow> fl (level capacity e) = level capacity e"
  by (auto simp: hash_ok_def level_def fl_of_int split: option.splits redis_value.splits)

lemma hash_ok_hmget:
  "hash_ok capacity (v key) \<Longrightarrow>
   \<exists>c1 c2. view_hmget key v = Some (c1, c2) \<and> (case c1 of None \<Rightarrow> of_int capacity | Some x \<Rightarrow> x) = level capacity (v key) \<and>
     (case c2 of None \<Rightarrow> of_int now | Some x \<Rightarrow> x) = refill_clock now (v key)"
  by (auto simp: hash_ok_def view_hmget_def level_def refill_clock_def split: option.splits redis_value.splits)

lemma fl_take_one:
  assumes "1 \<le> t" "fl t = t" "t \<le> of_int capacity" "capacity \<le> 2 ^ 53"
  shows "0 \<le> fl (t - 1)" "fl (t - 1) \<le> of_int capacity"
proof -
  show "0 \<le> fl (t - 1)" using assms(1) by simp
  have "fl (t - 1) \<le> fl t" by (rule fl_mono) simp
  with assms show "fl (t - 1) \<le> of_int capacity" by simp
qed

lemma token_bucket_view_ok:
  assumes "0 < capacity" "capacity \<le> 2 ^ 53" "0 < r" "hash_ok capacity (v key)"
  shows "\<exists>ok rem wait retry t t1.
    token_bucket_view now key capacity r 1 ttl v =
      (Inr (lua_reply ok capacity rem (now + wait) retry (int_of_float t)),
       v(key \<mapsto> (RHash (t, max (refill_clock now (v key)) (of_int now)), Some (now + ttl)))) \<and>
    0 \<le> t \<and> t \<le> of_int capacity \<and> fl t = t \<and> rem = \<lfloor>t\<rfloor> \<and> 0 \<le> wait \<and>
    (ok \<longleftrightarrow> 1 \<le> t1) \<and> (ok \<longrightarrow> retry = 0 \<and> t = fl (t1 - 1)) \<and> (\<not> ok \<longrightarrow> 1 \<le> retry \<and> t = t1) \<and>
    (of_int now \<le> refill_clock now (v key) \<longrightarrow> t1 = level capacity (v key))"
proof -
  let ?l = "refill_clock now (v key)" and ?t = "level capacity (v key)"
  obtain c1 c2 where hm: "view_hmget key v = Some (c1, c2)"
    "(case c1 of None \<Rightarrow> of_int capacity | Some x \<Rightarrow> x) = ?t"
    "(case c2 of None \<Rightarrow> of_int now | Some x \<Rightarrow> x) = ?l"
    using hash_ok_hmget [of capacity v key now] assms(4) by blast
  obtain t1 l1 where fill: "lua_refill now capacity r ?t ?l = (t1, l1)" by (rule prod.exhaust)
  note level = hash_okD(1) [OF assms(4,1)] hash_okD(2) [OF assms(4,1,2)]
  note b = lua_refill_bounds [OF assms(1-3) conjunct1 [OF level(1)] conjunct2 [OF level(1)] level(2) fill]
  note take = fl_take_one [OF _ b(3,2) assms(2)]
  obtain t where t: "t = (if 1 \<le> t1 then fl (t1 - 1) else t1)" by simp
  have view: "token_bucket_view now key capacity r 1 ttl v =
      (Inr (lua_reply (1 \<le> t1) capacity \<lfloor>t\<rfloor> (now + \<lceil>fl (fl (of_int capacity - t) / r)\<rceil>)
         (if 1 \<le> t1 then 0 else \<lceil>fl (fl (1 - t1) / r)\<rceil>) (int_of_float t)),
       v(key \<mapsto> (RHash (t, max ?l (of_int now)), Some (now + ttl))))"
    unfolding t b(4) [symmetric] by (simp add: token_bucket_view_def hm fill Let_def)
  have range: "0 \<le> t" "t \<le> of_int capacity" "fl t = t" using take b(1-3) by (auto simp: t)
  moreover have "0 \<le> \<lceil>fl (fl (of_int capacity - t) / r)\<rceil>" using range assms(3) by (simp add: le_ceiling_iff less_le_trans [of _ 0])
  moreover have "1 \<le> \<lceil>fl (fl (1 - t1) / r)\<rceil>" if "\<not> 1 \<le> t1" using that assms(3) by (simp add: le_ceiling_iff)
  ultimately show ?thesis
    using b(5) unfolding view
    by (intro exI [of _ "1 \<le> t1"] exI [of _ "\<lfloor>t\<rfloor>"] exI [of _ "\<lceil>fl (fl (of_int capacity - t) / r)\<rceil>"]
        exI [of _ "if 1 \<le> t1 then 0 else \<lceil>fl (fl (1 - t1) / r)\<rceil>"] exI [of _ t] exI [of _ t1]) (simp add: t)
qed

section \<open>Properties\<close>

text \<open>
  C5. The Lua fixed window is the Python fixed window: on a well-formed counter the script
  answers with the verdict, the remaining quota, the reset and the wait of
  \<open>apply_fixed_window\<close>, and leaves a counter that abstracts to the state it returns.
\<close>

theorem fixed_window_lua_refines:
  assumes "redis_server C view" "0 < w" "0 \<le> limit" "now = server_now_ms C k"
    and "ckey = window_key key (window_start w now)" "counter_ok (view k ckey)"
    and "apply_fixed_window now (fw_abs limit (window_start w now) ckey (view k)) limit w = Inr (s', c)"
  shows "\<exists>count k'. fixed_window_lua C key limit (w * 1000) k =
      (Inr (lua_reply (rc_allowed c) limit (rc_remaining c) (rc_reset_at_ms c) (rc_retry_after_ms c) count), k') \<and>
    rc_observed_value c = float_of_int (min count (limit + 1)) \<and>
    fw_abs limit (window_start w now) ckey (view k') = Some s'"
proof -
  have "0 < w * 1000" using assms(2) by simp
  note sim = redis_server.fixed_window_lua_view(1) [OF assms(1) this, of k key limit]
  obtain r k' where run: "fixed_window_lua C key limit (w * 1000) k = (r, k')" by (rule prod.exhaust)
  have view: "fixed_window_view now key limit (w * 1000) (view k) = (r, view k')"
    using sim unfolding run assms(4) by simp
  from fixed_window_view_refines [OF assms(2,3) assms(6,7) [unfolded assms(5)]]
  show ?thesis unfolding view run assms(5) [symmetric] by auto
qed

theorem fixed_window_lua_refines_witness:
  "\<exists>count k'. fixed_window_lua ks_commands ''q'' 2 (60 * 1000)
       \<lparr>ks_time = (61, 0), ks_entries = [''q:60000'' \<mapsto> (RInt 1, Some 130000)]\<rparr> =
     (Inr (lua_reply True 2 0 120000 59000 count), k') \<and>
   2 = float_of_int (min count 3) \<and>
   fw_abs 2 60000 ''q:60000'' (ks_view k') = Some \<lparr>fw_window_start_ms = 60000, fw_count = 2\<rparr>"
proof -
  let ?k = "\<lparr>ks_time = (61, 0), ks_entries = [''q:60000'' \<mapsto> (RInt 1, Some 130000)]\<rparr>"
  have key: "''q:60000'' = window_key ''q'' (window_start 60 61000)"
    by (simp add: window_key_def lua_num_def int_str_def window_start_def nat_str_eval)
  have now: "61000 = server_now_ms ks_commands ?k" by (simp add: ks_now_def)
  have ok: "counter_ok (ks_view ?k ''q:60000'')" by code_simp
  have run: "apply_fixed_window 61000 (fw_abs 2 (window_start 60 61000) ''q:60000'' (ks_view ?k)) 2 60 =
    Inr (\<lparr>fw_window_start_ms = 60000, fw_count = 2\<rparr>, \<lparr>rc_allowed = True, rc_remaining = 0, rc_reset_at_ms = 120000,
      rc_retry_after_ms = 59000, rc_observed_value = 2\<rparr>)" by code_simp
  from fixed_window_lua_refines [where C = ks_commands and view = ks_view, OF ks.redis_server_axioms _ _ now key ok run] show ?thesis
    by (simp add: window_start_def)
qed

text \<open>
  C6. The Lua sliding window is the Python sliding window: on a sorted set whose scores lie
  in the past and do not hold the new member, the script answers what
  \<open>apply_sliding_window_log\<close> answers on the scores, and leaves its new log as the scores.
\<close>

theorem sliding_window_lua_refines:
  assumes "redis_server C view" "0 < w" "zset_ok (server_now_ms C k) member (view k key)"
    and "apply_sliding_window_log (server_now_ms C k) (sw_abs key (view k)) limit w = (ev', c)"
  shows "\<exists>k'. sliding_window_log_lua C key limit (w * 1000) member k =
      (Inr (lua_reply (rc_allowed c) limit (rc_remaining c) (rc_reset_at_ms c) (rc_retry_after_ms c) (int (length ev'))), k') \<and>
    sw_abs key (view k') = ev'"
proof -
  have "0 < w * 1000" using assms(2) by simp
  note sim = redis_server.sliding_window_lua_view(1) [OF assms(1) this, of k key limit member]
  obtain r k' where run: "sliding_window_log_lua C key limit (w * 1000) member k = (r, k')" by (rule prod.exhaust)
  have view: "sliding_window_view (server_now_ms C k) key limit (w * 1000) member (view k) = (r, view k')"
    using sim unfolding run by simp
  from sliding_window_view_refines [OF assms(2-4)]
  show ?thesis unfolding view run by auto
qed

theorem sliding_window_lua_refines_witness:
  "\<exists>k'. sliding_window_log_lua ks_commands ''q'' 2 (60 * 1000) ''c''
       \<lparr>ks_time = (70, 0), ks_entries = [''q'' \<mapsto> (RZset [(5000, ''a''), (20000, ''b'')], Some 81000)]\<rparr> =
     (Inr (lua_reply True 2 0 80000 10000 2), k') \<and> sw_abs ''q'' (ks_view k') = [20000, 70000]"
proof -
  let ?k = "\<lparr>ks_time = (70, 0), ks_entries = [''q'' \<mapsto> (RZset [(5000, ''a''), (20000, ''b'')], Some 81000)]\<rparr>"
  have ok: "zset_ok (server_now_ms ks_commands ?k) ''c'' (ks_view ?k ''q'')" by code_simp
  have run: "apply_sliding_window_log (server_now_ms ks_commands ?k) (sw_abs ''q'' (ks_view ?k)) 2 60 =
    ([20000, 70000], \<lparr>rc_allowed = True, rc_remaining = 0, rc_reset_at_ms = 80000, rc_retry_after_ms = 10000,
      rc_observed_value = 2\<rparr>)" by code_simp
  from sliding_window_lua_refines [where C = ks_commands and view = ks_view, OF ks.redis_server_axioms _ ok run] show ?thesis by simp
qed

text \<open>
  C7. The Lua token bucket keeps its bucket sound: the script always answers, the level it
  stores is a double between 0 and the capacity, the stored refill clock never goes back, a
  granted request takes one token and a refused one waits at least a millisecond; when the
  clock has not passed the stored one, no tokens are gained.
\<close>

theorem token_bucket_lua_invariant:
  assumes "redis_server C view" "0 < capacity" "capacity \<le> 2 ^ 53" "0 < r" "0 < ttl_ms"
    and "hash_ok capacity (view k key)" "now = server_now_ms C k"
  shows "\<exists>ok wait retry t t1 k'.
    token_bucket_lua C key capacity r 1 ttl_ms k =
      (Inr (lua_reply ok capacity \<lfloor>t\<rfloor> (now + wait) retry (int_of_float t)), k') \<and>
    view k' = (view k)(key \<mapsto> (RHash (t, max (refill_clock now (view k key)) (of_int now)), Some (now + ttl_ms))) \<and>
    hash_ok capacity (view k' key) \<and> 0 \<le> wait \<and>
    (ok \<longrightarrow> 1 \<le> t1 \<and> retry = 0 \<and> t = fl (t1 - 1)) \<and> (\<not> ok \<longrightarrow> t1 < 1 \<and> 1 \<le> retry \<and> t = t1) \<and>
    (of_int now \<le> refill_clock now (view k key) \<longrightarrow> t1 = level capacity (view k key))"
proof -
  note sim = redis_server.token_bucket_lua_view(1) [OF assms(1,5), of k key capacity r 1]
  obtain k' reply where run: "token_bucket_lua C key capacity r 1 ttl_ms k = (reply, k')" by (rule prod.exhaust)
  from token_bucket_view_ok [where v = "view k", OF assms(2-4,6), of now ttl_ms] obtain ok rem wait retry t t1
    where v: "token_bucket_view now key capacity r 1 ttl_ms (view k) =
      (Inr (lua_reply ok capacity rem (now + wait) retry (int_of_float t)),
       (view k)(key \<mapsto> (RHash (t, max (refill_clock now (view k key)) (of_int now)), Some (now + ttl_ms))))"
      "0 \<le> t" "t \<le> of_int capacity" "fl t = t" "rem = \<lfloor>t\<rfloor>" "0 \<le> wait" "ok \<longleftrightarrow> 1 \<le> t1"
      "ok \<longrightarrow> retry = 0 \<and> t = fl (t1 - 1)" "\<not> ok \<longrightarrow> 1 \<le> retry \<and> t = t1"
      "of_int now \<le> refill_clock now (view k key) \<longrightarrow> t1 = level capacity (view k key)" by blast
  from sim v(1) have "reply = Inr (lua_reply ok capacity \<lfloor>t\<rfloor> (now + wait) retry (int_of_float t))"
    "view k' = (view k)(key \<mapsto> (RHash (t, max (refill_clock now (view k key)) (of_int now)), Some (now + ttl_ms)))"
    by (simp_all add: run assms(7) [symmetric] v(5))
  moreover from this v(2-4) have "hash_ok capacity (view k' key)" by (simp add: hash_ok_def)
  ultimately show ?thesis unfolding run using v(6-10)
    by (intro exI [of _ ok] exI [of _ wait] exI [of _ retry] exI [of _ t] exI [of _ t1] exI [of _ k'])
      (auto simp: not_le)
qed

text \<open>A bucket whose refill clock is ahead of the server's clock.\<close>

theorem token_bucket_lua_invariant_witness:
  "\<exists>k'. token_bucket_lua ks_commands ''q'' 2 (1 / 1024) 1 60000
      \<lparr>ks_time = (5, 0), ks_entries = [''q'' \<mapsto> (RHash (0, 10000), Some 70000)]\<rparr> =
     (Inr [0, 2, 0, 7048, 1024, 0], k') \<and> level 2 (ks_view k' ''q'') = 0 \<and> refill_clock 5000 (ks_view k' ''q'') = 10000"
proof -
  let ?k = "\<lparr>ks_time = (5, 0), ks_entries = [''q'' \<mapsto> (RHash (0, 10000), Some 70000)]\<rparr>"
  have now: "5000 = server_now_ms ks_commands ?k" by (simp add: ks_now_def)
  have ok: "hash_ok 2 (ks_view ?k ''q'')" by code_simp
  have entry: "level 2 (ks_view ?k ''q'') = 0" "refill_clock 5000 (ks_view ?k ''q'') = 10000" by code_simp+
  have reply: "fst (token_bucket_lua ks_commands ''q'' 2 (1 / 1024) 1 60000 ?k) = Inr [0, 2, 0, 7048, 1024, 0]" by code_simp
  from token_bucket_lua_invariant [where C = ks_commands and view = ks_view, OF ks.redis_server_axioms _ _ _ _ ok now, of "1 / 1024" 60000] reply entry
  show ?thesis by (auto simp: level_def refill_clock_def lua_reply_def)
qed

text \<open>
  The Python token bucket and the Lua one part ways when the clock steps back. A bucket
  of two tokens that gains one every 1024 ms is emptied at second 10; a request at second 5 (the
  clock was set back) is refused by both. The local limiter has moved its refill time back
  with the clock, so at second 10, where no time has passed since the bucket was empty, it
  grants a request; the script kept its refill time and refuses.
\<close>

theorem token_bucket_clock_regression:
  "admitted (tb_run 2 (1000 / 1024) (Some \<lparr>tb_tokens = 0, tb_last_refill_ms = 10000\<rparr>) [5000, 10000]) = [10000] \<and>
   (case token_bucket_lua ks_commands ''q'' 2 (1 / 1024) 1 60000
           \<lparr>ks_time = (5, 0), ks_entries = [''q'' \<mapsto> (RHash (0, 10000), Some 70000)]\<rparr> of
      (r, k) \<Rightarrow> fst (token_bucket_lua ks_commands ''q'' 2 (1 / 1024) 1 60000 (k\<lparr>ks_time := (10, 0)\<rparr>)) =
                Inr [0, 2, 0, 12048, 1024, 0])"
  by (rule conjI; code_simp)

end
