(* ===== verification/Cluster.thy ===== *)
theory Cluster
  imports Shared_Quota
begin

text \<open>
  Gateway instances that share one Redis server. A step of the relation is one script call of
  some instance on the quota, a script call whose reply is lost on the way back (the instance
  sees an error, the server has moved), the passing of time, or a step of the server that
  leaves the keys of the quota alone. The instances keep no state of the quota themselves, so
  which of them makes a call does not matter, and their interleavings are the runs of the
  relation.
\<close>

section \<open>The step relation\<close>

text \<open>
  \<open>cl_granted\<close> lists the server times of the requests that were let through, \<open>cl_members\<close> the
  members (\<open>uuid4().hex\<close>) used so far; that \<open>uuid4\<close> does not repeat is the guard of a call.
\<close>

record 'k cluster =
  cl_server :: 'k
  cl_granted :: "millis list"
  cl_members :: "string list"

definition grant :: "millis \<Rightarrow> redis_error + int list \<Rightarrow> millis list \<Rightarrow> millis list" where
  "grant now r ts = (case r of Inr (a # _) \<Rightarrow> if a = 0 then ts else ts @ [now] | _ \<Rightarrow> ts)"

inductive cluster_step ::
  "'k redis_commands \<Rightarrow> ('k \<Rightarrow> keyview) \<Rightarrow> (string \<Rightarrow> bool) \<Rightarrow>
   (string \<Rightarrow> 'k \<Rightarrow> (redis_error + int list) \<times> 'k) \<Rightarrow> 'k cluster \<Rightarrow> 'k cluster \<Rightarrow> bool"
  for C view mine run where
  request:
    "m \<notin> set (cl_members c) \<Longrightarrow> run m (cl_server c) = (r, k') \<Longrightarrow>
     cluster_step C view mine run c
       (c\<lparr>cl_server := k', cl_granted := grant (server_now_ms C (cl_server c)) r (cl_granted c),
          cl_members := m # cl_members c\<rparr>)"
| lost_reply:
    "m \<notin> set (cl_members c) \<Longrightarrow> run m (cl_server c) = (r, k') \<Longrightarrow>
     cluster_step C view mine run c (c\<lparr>cl_server := k', cl_members := m # cl_members c\<rparr>)"
| elapse:
    "server_now_ms C (cl_server c) \<le> server_now_ms C k' \<Longrightarrow>
     view k' = live_at (server_now_ms C k') (view (cl_server c)) \<Longrightarrow>
     cluster_step C view mine run c (c\<lparr>cl_server := k'\<rparr>)"
| other_traffic:
    "cmd_time C k' = cmd_time C (cl_server c) \<Longrightarrow> (\<And>key. mine key \<Longrightarrow> view k' key = view (cl_server c) key) \<Longrightarrow>
     cluster_step C view mine run c (c\<lparr>cl_server := k'\<rparr>)"

inductive_cases cluster_stepE: "cluster_step C view mine run c c'"

lemma grant_lua_reply [simp]:
  "grant now (Inr (lua_reply ok l rem reset retry n)) ts = (if ok then ts @ [now] else ts)"
  "grant now (Inl e) ts = ts"
  by (simp_all add: grant_def lua_reply_def)

lemma cluster_clock_mono:
  assumes "cluster_step C view mine run c c'"
    and "\<And>m k. cmd_time C (snd (run m k)) = cmd_time C k"
  shows "server_now_ms C (cl_server c) \<le> server_now_ms C (cl_server c')"
proof -
  have "server_now_ms C k' = server_now_ms C (cl_server c)" if "run m (cl_server c) = (r, k')" for m r k'
    using assms(2) [of m "cl_server c"] that by (simp add: server_now_ms_def)
  with assms(1) show ?thesis by (cases rule: cluster_step.cases) (auto simp: server_now_ms_def)
qed

section \<open>Fixed windows\<close>

definition is_window_key :: "string \<Rightarrow> string \<Rightarrow> bool" where
  "is_window_key key k \<longleftrightarrow> (\<exists>e. k = window_key key e)"

abbreviation fw_step where
  "fw_step C view key limit w \<equiv>
     cluster_step C view (is_window_key key) (\<lambda>_. fixed_window_lua C key limit (w * 1000))"

text \<open>
  The counter of a window that is not over yet: it has counted every request let through in
  the window, and it will not expire before the window ends.
\<close>

definition counter_covers :: "int \<Rightarrow> millis \<Rightarrow> millis list \<Rightarrow> entry option \<Rightarrow> bool" where
  "counter_covers w e granted x =
     (case x of
        Some (RInt n, d) \<Rightarrow>
          int (in_window w e granted) \<le> n \<and> (case d of None \<Rightarrow> True | Some d' \<Rightarrow> e + w * 1000 \<le> d')
      | _ \<Rightarrow> in_window w e granted = 0)"

definition fw_inv :: "int \<Rightarrow> string \<Rightarrow> int \<Rightarrow> millis \<Rightarrow> keyview \<Rightarrow> millis list \<Rightarrow> bool" where
  "fw_inv w key limit now v granted \<longleftrightarrow>
     0 \<le> now \<and> (\<forall>t\<in>set granted. t \<le> now) \<and> (\<forall>e. int (in_window w e granted) \<le> limit) \<and>
     (\<forall>e. window_start w now \<le> e \<and> e < 10 ^ 14 \<longrightarrow> counter_covers w e granted (v (window_key key e)))"

lemma window_key_inj:
  "0 \<le> a \<Longrightarrow> 0 \<le> b \<Longrightarrow> a < 10 ^ 14 \<Longrightarrow> b < 10 ^ 14 \<Longrightarrow> window_key key a = window_key key b \<longleftrightarrow> a = b"
  using int_str_inj [of a b] by (auto simp: window_key_def lua_num_def)

lemma window_start_nonneg: "0 < w \<Longrightarrow> 0 \<le> t \<Longrightarrow> 0 \<le> window_start w t"
  using window_start_mono [of w 0 t] by (simp add: window_start_def)

lemma in_window_snoc: "in_window w e (ts @ [t]) = in_window w e ts + (if window_start w t = e then 1 else 0)"
  by (simp add: in_window_def)

lemma fw_inv_elapse:
  assumes "0 < w" "fw_inv w key limit now v granted" "now \<le> now'"
  shows "fw_inv w key limit now' (live_at now' v) granted"
  unfolding fw_inv_def
proof (intro conjI allI impI)
  fix e
  assume e: "window_start w now' \<le> e \<and> e < 10 ^ 14"
  then have cov: "counter_covers w e granted (v (window_key key e))"
    using assms window_start_mono [OF assms(1,3)] by (simp add: fw_inv_def)
  have "now' < e + w * 1000" using e window_start_bounds(2) [OF assms(1), of now'] by simp
  with cov show "counter_covers w e granted (live_at now' v (window_key key e))"
    by (auto simp: counter_covers_def live_at_def split: option.splits redis_value.splits)
qed (use assms in \<open>auto simp: fw_inv_def\<close>)

lemma counter_covers_incr:
  assumes "counter_covers w e granted (v key)" "view_incr key v = Some (n, v1)"
  shows "int (in_window w e granted) + 1 \<le> n"
    and "\<exists>d. v1 key = Some (RInt n, d) \<and> (case d of None \<Rightarrow> True | Some d' \<Rightarrow> e + w * 1000 \<le> d')"
proof -
  have "int (in_window w e granted) + 1 \<le> n \<and>
    (\<exists>d. v1 key = Some (RInt n, d) \<and> (case d of None \<Rightarrow> True | Some d' \<Rightarrow> e + w * 1000 \<le> d'))"
  proof (cases "v key")
    case None
    with assms show ?thesis by (auto simp: view_incr_def counter_covers_def)
  next
    case (Some x)
    obtain m d where "x = (RInt m, d)" using assms(2) Some
      by (cases x) (auto simp: view_incr_def split: redis_value.splits)
    with Some assms show ?thesis by (auto simp: view_incr_def counter_covers_def split: if_splits)
  qed
  then show "int (in_window w e granted) + 1 \<le> n"
    "\<exists>d. v1 key = Some (RInt n, d) \<and> (case d of None \<Rightarrow> True | Some d' \<Rightarrow> e + w * 1000 \<le> d')" by auto
qed

text \<open>A script call, its reply delivered or not.\<close>

lemma fw_inv_call:
  assumes w: "0 < w" and lim: "0 \<le> limit" and inv: "fw_inv w key limit now v granted" and now: "now < 10 ^ 14"
    and run: "fixed_window_view now key limit (w * 1000) v = (r, v')"
  shows "fw_inv w key limit now v' (grant now r granted)" "fw_inv w key limit now v' granted"
proof -
  let ?ws = "window_start w now"
  have ws: "now - now mod (w * 1000) = ?ws" by (simp add: window_start_def)
  have nn: "0 \<le> now" "0 \<le> ?ws" using inv window_start_nonneg [OF w] by (auto simp: fw_inv_def)
  have le: "?ws \<le> now" "now < ?ws + w * 1000" using window_start_bounds [OF w] by auto
  have past: "in_window w e granted = 0" if "now < e" for e
  proof -
    have "window_start w t \<noteq> e" if "t \<in> set granted" for t
    proof -
      have "t \<le> now" using inv that by (simp add: fw_inv_def)
      with window_start_bounds(1) [OF w, of t] \<open>now < e\<close> show ?thesis by linarith
    qed
    then show ?thesis by (simp add: in_window_def filter_empty_conv)
  qed
  have other: "v' (window_key key e) = v (window_key key e)" if "e \<noteq> ?ws" "?ws \<le> e" "e < 10 ^ 14" for e
  proof -
    have "window_key key e \<noteq> window_key key ?ws"
      using that nn le now window_key_inj [of e ?ws key] by simp
    then show ?thesis
      using run unfolding fixed_window_view_def ws Let_def
      by (auto simp: view_pexpire_def dest: view_writes_local(1) split: option.splits if_splits)
  qed
  have cov: "counter_covers w ?ws granted (v (window_key key ?ws))"
    using inv le(1) now by (simp add: fw_inv_def)
  have step: "counter_covers w ?ws (grant now r granted) (v' (window_key key ?ws)) \<and>
      counter_covers w ?ws granted (v' (window_key key ?ws)) \<and>
      (grant now r granted = granted \<or> grant now r granted = granted @ [now] \<and> int (in_window w ?ws granted) < limit)"
  proof (cases "view_incr (window_key key ?ws) v")
    case None
    with run cov show ?thesis by (auto simp: fixed_window_view_def ws Let_def)
  next
    case (Some p)
    obtain n v1 where p: "p = (n, v1)" by (cases p)
    note n = counter_covers_incr [OF cov Some [unfolded p]]
    have "r = Inr (lua_reply (n \<le> limit) limit (if n \<le> limit then limit - n else 0)
        (?ws + w * 1000) (max 0 (?ws + w * 1000 - now)) n)"
      and v': "v' = (if n = 1 then view_pexpire now (window_key key ?ws) (w * 1000 + 1000) v1 else v1)"
      using run unfolding fixed_window_view_def ws Let_def Some p by auto
    then show ?thesis
      using n le by (auto simp: counter_covers_def view_pexpire_def in_window_snoc split: option.splits)
  qed
  have covers: "counter_covers w e g (v' (window_key key e))"
    if "?ws \<le> e" "e < 10 ^ 14" "g = granted \<or> g = grant now r granted" for e g
  proof (cases "e = ?ws")
    case False
    then have "in_window w e (grant now r granted) = in_window w e granted"
      using step by (auto simp: in_window_snoc)
    moreover have "counter_covers w e granted (v (window_key key e))"
      using inv that by (simp add: fw_inv_def)
    ultimately show ?thesis using that other [OF False that(1,2)]
      by (auto simp: counter_covers_def split: option.splits redis_value.splits)
  qed (use step that in auto)
  have bound: "int (in_window w e (grant now r granted)) \<le> limit" "int (in_window w e granted) \<le> limit" for e
    using step inv by (auto simp: in_window_snoc fw_inv_def)
  have past: "\<forall>t\<in>set (grant now r granted). t \<le> now" using step inv by (auto simp: fw_inv_def)
  show "fw_inv w key limit now v' (grant now r granted)"
    unfolding fw_inv_def using past bound(1) covers nn by blast
  show "fw_inv w key limit now v' granted"
    unfolding fw_inv_def using inv bound(2) covers nn by (auto simp: fw_inv_def)
qed

section \<open>Sliding windows\<close>

abbreviation sw_step where
  "sw_step C view key limit w \<equiv>
     cluster_step C view (\<lambda>k. k = key) (\<lambda>m. sliding_window_log_lua C key limit (w * 1000) m)"

text \<open>
  The sorted set has at least as many events after any instant of the current window as
  requests were let through after it, and it does not expire while one of those is active.
\<close>

definition events_after :: "millis \<Rightarrow> millis list \<Rightarrow> nat" where
  "events_after a ts = length (filter (\<lambda>t. a < t) ts)"

definition log_covers :: "int \<Rightarrow> millis \<Rightarrow> millis list \<Rightarrow> string list \<Rightarrow> entry option \<Rightarrow> bool" where
  "log_covers w now granted members x =
     (case x of
        Some (RZset zs, d) \<Rightarrow>
          (\<forall>z\<in>set zs. snd z \<in> set members) \<and>
          (\<forall>a. now - w * 1000 \<le> a \<longrightarrow> events_after a granted \<le> events_after a (map fst zs)) \<and>
          (case d of None \<Rightarrow> True | Some d' \<Rightarrow> \<forall>t\<in>set granted. t + w * 1000 \<le> d')
      | _ \<Rightarrow> \<forall>t\<in>set granted. t + w * 1000 \<le> now)"

definition sw_inv :: "int \<Rightarrow> int \<Rightarrow> millis \<Rightarrow> entry option \<Rightarrow> millis list \<Rightarrow> string list \<Rightarrow> bool" where
  "sw_inv w limit now x granted members \<longleftrightarrow>
     (\<forall>t\<in>set granted. t \<le> now) \<and> window_bounded limit w granted \<and> log_covers w now granted members x"

lemma events_after_simps [simp]:
  "events_after a [] = 0"
  "events_after a (t # ts) = (if a < t then 1 else 0) + events_after a ts"
  "events_after a (xs @ ys) = events_after a xs + events_after a ys"
  by (simp_all add: events_after_def)

lemma events_after_0_iff: "events_after a ts = 0 \<longleftrightarrow> (\<forall>t\<in>set ts. t \<le> a)"
  by (auto simp: events_after_def filter_empty_conv not_less)

lemma events_after_insort:
  "events_after a (map fst (insort (t, m) zs)) = (if a < t then 1 else 0) + events_after a (map fst zs)"
  by (induction zs) auto

lemma events_after_zinsert:
  assumes "m \<notin> snd ` set zs"
  shows "events_after a (map fst (zinsert t m zs)) = (if a < t then 1 else 0) + events_after a (map fst zs)"
proof -
  have "filter (\<lambda>z. snd z \<noteq> m) zs = zs" using assms by (auto simp: filter_id_conv)
  then show ?thesis by (simp add: zinsert_def events_after_insort)
qed

lemma set_zinsert: "set (zinsert t m zs) \<subseteq> insert (t, m) (set zs)"
  by (auto simp: zinsert_def set_insort_key)

text \<open>Dropping scores up to the cutoff leaves the counts after later instants as they are.\<close>

lemma events_after_cutoff:
  "c \<le> a \<Longrightarrow> events_after a (map fst (filter (\<lambda>z. \<not> (0 \<le> fst z \<and> fst z \<le> c)) zs)) = events_after a (map fst zs)"
  by (induction zs) auto

lemma events_after_le_length: "events_after a (map fst zs) \<le> length zs"
  by (induction zs) auto

lemma recent_eq_events: "length (recent w t ts) = events_after (t - w * 1000) ts"
  by (simp add: recent_def events_after_def)

lemma log_covers_mono: "log_covers w now granted members x \<Longrightarrow> now \<le> now' \<Longrightarrow> log_covers w now' granted members x"
  by (cases x) (auto simp: log_covers_def split: redis_value.splits, (drule (1) bspec, linarith)+)

lemma sw_inv_elapse:
  assumes "sw_inv w limit now (v key) granted members" "now \<le> now'"
  shows "sw_inv w limit now' (live_at now' v key) granted members"
proof -
  have cov: "log_covers w now' granted members (v key)"
    using assms log_covers_mono by (auto simp: sw_inv_def)
  have "log_covers w now' granted members (live_at now' v key)"
  proof (cases "live_at now' v key = v key")
    case False
    then obtain y d where d: "v key = Some (y, Some d)" "d < now'" "live_at now' v key = None"
      by (auto simp: live_at_def split: option.splits if_splits)
    from d cov have "\<forall>t\<in>set granted. t + w * 1000 \<le> now'"
      by (cases y) (auto simp: log_covers_def intro: order.trans [OF _ less_imp_le])
    with d(3) show ?thesis by (simp add: log_covers_def)
  qed (use cov in simp)
  with assms show ?thesis by (auto simp: sw_inv_def)
qed

lemma log_covers_members: "log_covers w now granted members x \<Longrightarrow> log_covers w now granted (m # members) x"
  by (cases x) (auto simp: log_covers_def split: redis_value.splits)

lemma sw_inv_members: "sw_inv w limit now x granted members \<Longrightarrow> sw_inv w limit now x granted (m # members)"
  by (simp add: sw_inv_def log_covers_members)

text \<open>The stored events, an absent key counting as none.\<close>

lemma log_covers_zset:
  assumes "log_covers w now granted members (v key)" "view_zset key v = Some zs"
  shows "\<forall>z\<in>set zs. snd z \<in> set members"
    and "now - w * 1000 \<le> a \<Longrightarrow> events_after a granted \<le> events_after a (map fst zs)"
proof -
  have "(\<forall>z\<in>set zs. snd z \<in> set members) \<and>
    (now - w * 1000 \<le> a \<longrightarrow> events_after a granted \<le> events_after a (map fst zs))"
  proof (cases "v key")
    case None
    have "events_after a granted = 0" if "now - w * 1000 \<le> a"
      unfolding events_after_0_iff
    proof
      fix t assume "t \<in> set granted"
      then have "t + w * 1000 \<le> now" using assms(1) None by (simp add: log_covers_def)
      with that show "t \<le> a" by linarith
    qed
    then show ?thesis using assms(2) None by (simp add: view_zset_def)
  next
    case (Some e)
    obtain d where "e = (RZset zs, d)" using assms(2) Some
      by (cases e) (auto simp: view_zset_def split: redis_value.splits)
    with assms(1) Some show ?thesis by (simp add: log_covers_def)
  qed
  then show "\<forall>z\<in>set zs. snd z \<in> set members"
    "now - w * 1000 \<le> a \<Longrightarrow> events_after a granted \<le> events_after a (map fst zs)" by auto
qed

lemma sw_inv_call:
  assumes w: "0 < w" and inv: "sw_inv w limit now (v key) granted members" and fresh: "m \<notin> set members"
    and run: "sliding_window_view now key limit (w * 1000) m v = (r, v')"
  shows "sw_inv w limit now (v' key) (grant now r granted) (m # members)"
    and "sw_inv w limit now (v' key) granted (m # members)"
proof -
  have cov: "log_covers w now granted members (v key)" and past: "\<forall>t\<in>set granted. t \<le> now"
    and bound: "window_bounded limit w granted" using inv by (auto simp: sw_inv_def)
  have "sw_inv w limit now (v' key) (grant now r granted) (m # members) \<and> sw_inv w limit now (v' key) granted (m # members)"
  proof (cases "view_zset key v")
    case None
    with run have "r = Inl ScriptError" "v' = v" by (simp_all add: sliding_window_view_def)
    with sw_inv_members [OF inv] show ?thesis by simp
  next
    case (Some zs)
    note zs = log_covers_zset [OF cov Some]
    obtain act where act: "act = filter (\<lambda>z. \<not> (0 \<le> fst z \<and> fst z \<le> now - w * 1000)) zs" by simp
    note view = run [unfolded sliding_window_view_def Some option.case, folded act]
    have act_mem: "\<forall>z\<in>set act. snd z \<in> set members" using zs(1) by (simp add: act)
    have act_cov: "events_after a granted \<le> events_after a (map fst act)" if "now - w * 1000 \<le> a" for a
      using zs(2) [OF that] events_after_cutoff [OF that, of zs] by (simp only: act)
    show ?thesis
    proof (cases "int (length act) < limit")
      case True
      have new: "events_after a (map fst (zinsert now m act)) = (if a < now then 1 else 0) + events_after a (map fst act)" for a
        using act_mem fresh by (intro events_after_zinsert) auto
      have v': "v' key = Some (RZset (zinsert now m act), Some (now + (w * 1000 + 1000)))" "grant now r granted = granted @ [now]"
        using view True by (auto simp: Let_def)
      have "int (length (recent w now granted)) < limit"
        using act_cov [of "now - w * 1000"] events_after_le_length [of "now - w * 1000" act] True
        by (simp add: recent_eq_events)
      note snoc = window_bounded_snoc [OF bound this]
      have mem: "\<forall>z\<in>set (zinsert now m act). snd z \<in> set (m # members)"
        using set_zinsert [of now m act] act_mem by auto
      have dl: "\<forall>t\<in>set granted. t + w * 1000 \<le> now + (w * 1000 + 1000)" using past by auto
      show ?thesis
        using snoc bound past mem dl act_cov unfolding sw_inv_def log_covers_def v'
        by (auto simp: new trans_le_add2)
    next
      case False
      have v': "v' key = put_zset key act (case v key of Some (_, d) \<Rightarrow> d | None \<Rightarrow> None) v key" "grant now r granted = granted"
        using view False by (auto simp: Let_def)
      have "log_covers w now granted (m # members) (v' key)"
      proof (cases "act = []")
        case True
        then have "\<forall>t\<in>set granted. t \<le> now - w * 1000"
          using act_cov [of "now - w * 1000"] unfolding events_after_0_iff [symmetric] by simp
        with True show ?thesis by (auto simp: v' put_zset_def log_covers_def)
      next
        case False
        then obtain d where "v key = Some (RZset zs, d)"
          using Some by (auto simp: act view_zset_def split: option.splits redis_value.splits)
        with False cov act_mem act_cov show ?thesis
          by (auto simp: v'(1) put_zset_def log_covers_def)
      qed
      with bound past v'(2) show ?thesis by (simp add: sw_inv_def)
    qed
  qed
  then show "sw_inv w limit now (v' key) (grant now r granted) (m # members)"
    "sw_inv w limit now (v' key) granted (m # members)" by auto
qed

section \<open>Every reachable cluster\<close>

context redis_server
begin

lemma fw_inv_step:
  assumes "fw_step C view key limit w c c'" "0 < w" "0 \<le> limit"
    and "fw_inv w key limit (server_now_ms C (cl_server c)) (view (cl_server c)) (cl_granted c)"
    and "server_now_ms C (cl_server c) < 10 ^ 14"
  shows "fw_inv w key limit (server_now_ms C (cl_server c')) (view (cl_server c')) (cl_granted c')"
  using assms(1)
proof (cases rule: cluster_step.cases)
  case (request m r k')
  have pos: "0 < w * 1000" using assms(2) by simp
  from fw_inv_call(1) [OF assms(2-5) fixed_window_lua_view(1) [OF pos]] request
    fixed_window_lua_view(2) [OF pos, of key limit "cl_server c"]
  show ?thesis by (simp add: server_now_ms_def)
next
  case (lost_reply m r k')
  have pos: "0 < w * 1000" using assms(2) by simp
  from fw_inv_call(2) [OF assms(2-5) fixed_window_lua_view(1) [OF pos]] lost_reply
    fixed_window_lua_view(2) [OF pos, of key limit "cl_server c"]
  show ?thesis by (simp add: server_now_ms_def)
next
  case (elapse k')
  with fw_inv_elapse [OF assms(2,4)] show ?thesis by simp
next
  case (other_traffic k')
  then have "view k' (window_key key e) = view (cl_server c) (window_key key e)" for e
    by (auto simp: is_window_key_def)
  with other_traffic assms(4) show ?thesis by (simp add: fw_inv_def server_now_ms_def)
qed

lemma fw_inv_reachable:
  assumes "(fw_step C view key limit w)\<^sup>*\<^sup>* c0 c" "0 < w" "0 \<le> limit"
    and "fw_inv w key limit (server_now_ms C (cl_server c0)) (view (cl_server c0)) (cl_granted c0)"
    and "server_now_ms C (cl_server c) < 10 ^ 14"
  shows "fw_inv w key limit (server_now_ms C (cl_server c)) (view (cl_server c)) (cl_granted c)"
  using assms(1,5)
proof induction
  case base
  show ?case by (rule assms(4))
next
  case (step c c')
  have pos: "0 < w * 1000" using assms(2) by simp
  have "server_now_ms C (cl_server c) \<le> server_now_ms C (cl_server c')"
    using step.hyps(2) fixed_window_lua_view(2) [OF pos] by (rule cluster_clock_mono)
  with step.prems have now: "server_now_ms C (cl_server c) < 10 ^ 14" by linarith
  from fw_inv_step [OF step.hyps(2) assms(2,3) step.IH [OF now] now] show ?case .
qed

lemma sw_inv_step:
  assumes "sw_step C view key limit w c c'" "0 < w"
    and "sw_inv w limit (server_now_ms C (cl_server c)) (view (cl_server c) key) (cl_granted c) (cl_members c)"
  shows "sw_inv w limit (server_now_ms C (cl_server c')) (view (cl_server c') key) (cl_granted c') (cl_members c')"
  using assms(1)
proof (cases rule: cluster_step.cases)
  case (request m r k')
  have pos: "0 < w * 1000" using assms(2) by simp
  from sw_inv_call(1) [OF assms(2,3) request(2) sliding_window_lua_view(1) [OF pos]] request
    sliding_window_lua_view(2) [OF pos, of key limit m "cl_server c"]
  show ?thesis by (simp add: server_now_ms_def)
next
  case (lost_reply m r k')
  have pos: "0 < w * 1000" using assms(2) by simp
  from sw_inv_call(2) [OF assms(2,3) lost_reply(2) sliding_window_lua_view(1) [OF pos]] lost_reply
    sliding_window_lua_view(2) [OF pos, of key limit m "cl_server c"]
  show ?thesis by (simp add: server_now_ms_def)
next
  case (elapse k')
  with sw_inv_elapse [where v = "view (cl_server c)", OF assms(3)] show ?thesis by simp
next
  case (other_traffic k')
  with assms(3) show ?thesis by (simp add: server_now_ms_def)
qed

lemma sw_inv_reachable:
  assumes "(sw_step C view key limit w)\<^sup>*\<^sup>* c0 c" "0 < w"
    and "sw_inv w limit (server_now_ms C (cl_server c0)) (view (cl_server c0) key) (cl_granted c0) (cl_members c0)"
  shows "sw_inv w limit (server_now_ms C (cl_server c)) (view (cl_server c) key) (cl_granted c) (cl_members c)"
  using assms(1)
proof induction
  case base
  show ?case by (rule assms(3))
qed (rule sw_inv_step [OF _ assms(2)])

end

section \<open>Properties\<close>

text \<open>
  C2. The fixed-window quota is global: whatever the number of gateway instances and
  however their calls, lost replies and the server's other traffic interleave, the requests
  let through in one window never exceed the limit. The server starts without counters of
  the quota, its clock does not go back and is before the year 5138.
\<close>

theorem cluster_fixed_window_bound:
  assumes "redis_server C view" "0 < w" "0 \<le> limit"
    and "(fw_step C view key limit w)\<^sup>*\<^sup>* \<lparr>cl_server = k0, cl_granted = [], cl_members = []\<rparr> c"
    and "\<And>e. view k0 (window_key key e) = None" "0 \<le> server_now_ms C k0" "server_now_ms C (cl_server c) < 10 ^ 14"
  shows "int (in_window w e (cl_granted c)) \<le> limit"
proof -
  have "fw_inv w key limit (server_now_ms C k0) (view k0) []"
    using assms(3,5,6) by (simp add: fw_inv_def counter_covers_def)
  with redis_server.fw_inv_reachable [OF assms(1,4,2,3) _ assms(7)]
  have "fw_inv w key limit (server_now_ms C (cl_server c)) (view (cl_server c)) (cl_granted c)" by simp
  then show ?thesis by (simp add: fw_inv_def)
qed

text \<open>A server at one second past the epoch, without entries; one request on it, and one whose reply is lost.\<close>

definition quiet_server :: keyspace where
  "quiet_server = \<lparr>ks_time = (1, 0), ks_entries = Map.empty\<rparr>"

lemma quiet_view [simp]: "ks_view quiet_server key = None" "ks_now quiet_server = 1000"
  by (simp_all add: ks_view_def live_at_def quiet_server_def ks_now_def)

lemma two_calls:
  assumes "run ''a'' k0 = (r, mid)" "run ''b'' mid = (r', final)"
  shows "(cluster_step C view mine run)\<^sup>*\<^sup>* \<lparr>cl_server = k0, cl_granted = [], cl_members = []\<rparr>
    \<lparr>cl_server = final, cl_granted = grant (server_now_ms C k0) r [], cl_members = [''b'', ''a'']\<rparr>"
proof -
  let ?c0 = "\<lparr>cl_server = k0, cl_granted = [], cl_members = []\<rparr>"
  let ?c1 = "\<lparr>cl_server = mid, cl_granted = grant (server_now_ms C k0) r [], cl_members = [''a'']\<rparr>"
  have "cluster_step C view mine run ?c0 ?c1"
    using cluster_step.request [of "''a''" ?c0 run r mid C view mine] assms(1) by simp
  moreover have "cluster_step C view mine run ?c1
      \<lparr>cl_server = final, cl_granted = grant (server_now_ms C k0) r [], cl_members = [''b'', ''a'']\<rparr>"
    using cluster_step.lost_reply [of "''b''" ?c1 run r' final C view mine] assms(2) by simp
  ultimately show ?thesis by (meson rtranclp.rtrancl_into_rtrancl rtranclp.rtrancl_refl)
qed

lemma fw_two_calls:
  "fst (fixed_window_lua ks_commands ''q'' 1 60000 quiet_server) = Inr [1, 1, 0, 60000, 59000, 1]"
  "ks_now (snd (fixed_window_lua ks_commands ''q'' 1 60000 (snd (fixed_window_lua ks_commands ''q'' 1 60000 quiet_server)))) = 1000"
  by code_simp+

theorem cluster_fixed_window_bound_witness:
  "\<exists>c. (fw_step ks_commands ks_view ''q'' 1 60)\<^sup>*\<^sup>* \<lparr>cl_server = quiet_server, cl_granted = [], cl_members = []\<rparr> c \<and>
     cl_granted c = [1000] \<and> int (in_window 60 0 (cl_granted c)) \<le> 1"
proof -
  let ?run = "\<lambda>(m :: string). fixed_window_lua ks_commands ''q'' 1 (60 * 1000)"
  let ?k2 = "snd (?run ''b'' (snd (?run ''a'' quiet_server)))"
  let ?c = "\<lparr>cl_server = ?k2, cl_granted = grant (server_now_ms ks_commands quiet_server) (fst (?run ''a'' quiet_server)) [],
    cl_members = [''b'', ''a'']\<rparr>"
  have steps: "(fw_step ks_commands ks_view ''q'' 1 60)\<^sup>*\<^sup>* \<lparr>cl_server = quiet_server, cl_granted = [], cl_members = []\<rparr> ?c"
    by (rule two_calls [where r' = "fst (?run ''b'' (snd (?run ''a'' quiet_server)))" and mid = "snd (?run ''a'' quiet_server)"]) simp_all
  have granted: "cl_granted ?c = [1000]" by (simp add: fw_two_calls(1) grant_def)
  have "int (in_window 60 0 (cl_granted ?c)) \<le> 1"
    by (rule cluster_fixed_window_bound [OF ks.redis_server_axioms _ _ steps]) (simp_all add: fw_two_calls(2))
  with steps granted show ?thesis by blast
qed

text \<open>
  C3. The sliding-window quota is global: the requests let through by all instances together
  in any stretch of \<open>window_seconds\<close> are at most \<open>rate\<close>, lost replies and expiry included.
\<close>

theorem cluster_sliding_window_bound:
  assumes "redis_server C view" "0 < w" "0 \<le> limit"
    and "(sw_step C view key limit w)\<^sup>*\<^sup>* \<lparr>cl_server = k0, cl_granted = [], cl_members = []\<rparr> c"
    and "view k0 key = None"
  shows "window_bounded limit w (cl_granted c)"
proof -
  have "sw_inv w limit (server_now_ms C k0) (view k0 key) [] []"
    using assms(3,5) by (simp add: sw_inv_def log_covers_def window_bounded_def)
  with redis_server.sw_inv_reachable [OF assms(1,4,2)]
  have "sw_inv w limit (server_now_ms C (cl_server c)) (view (cl_server c) key) (cl_granted c) (cl_members c)" by simp
  then show ?thesis by (simp add: sw_inv_def)
qed

lemma sw_first_call:
  "fst (sliding_window_log_lua ks_commands ''q'' 1 60000 ''a'' quiet_server) = Inr [1, 1, 0, 61000, 60000, 1]"
  by code_simp

theorem cluster_sliding_window_bound_witness:
  "\<exists>c. (sw_step ks_commands ks_view ''q'' 1 60)\<^sup>*\<^sup>* \<lparr>cl_server = quiet_server, cl_granted = [], cl_members = []\<rparr> c \<and>
     cl_granted c = [1000] \<and> window_bounded 1 60 (cl_granted c)"
proof -
  let ?run = "\<lambda>m. sliding_window_log_lua ks_commands ''q'' 1 (60 * 1000) m"
  let ?k2 = "snd (?run ''b'' (snd (?run ''a'' quiet_server)))"
  let ?c = "\<lparr>cl_server = ?k2, cl_granted = grant (server_now_ms ks_commands quiet_server) (fst (?run ''a'' quiet_server)) [],
    cl_members = [''b'', ''a'']\<rparr>"
  have steps: "(sw_step ks_commands ks_view ''q'' 1 60)\<^sup>*\<^sup>* \<lparr>cl_server = quiet_server, cl_granted = [], cl_members = []\<rparr> ?c"
    by (rule two_calls [where r' = "fst (?run ''b'' (snd (?run ''a'' quiet_server)))" and mid = "snd (?run ''a'' quiet_server)"]) simp_all
  have granted: "cl_granted ?c = [1000]" by (simp add: sw_first_call grant_def)
  have "window_bounded 1 60 (cl_granted ?c)"
    by (rule cluster_sliding_window_bound [OF ks.redis_server_axioms _ _ steps]) simp_all
  with steps granted show ?thesis by blast
qed

end
