(* ===== verification/Policy.thy ===== *)
theory Policy
  imports Binary64
begin

text \<open>
  The policy data of \<open>app/models/policy.py\<close> and \<open>app/schemas/policy.py\<close>: the two enums,
  the fields shared by every policy schema (\<open>PolicyBase\<close>, of which \<open>PolicyCreate\<close> is a
  copy), the stored row (\<open>RateLimitPolicy\<close>, read back as \<open>PolicyRead\<close>), the partial
  update (\<open>PolicyUpdate\<close>), the field constraints the schemas declare, and the dictionary
  form used to compare and merge policies.

  A datetime is an integer number of microseconds; a UUID is a 128-bit word.
\<close>

section \<open>Enums\<close>

datatype rate_limit_algorithm = FIXED_WINDOW | SLIDING_WINDOW_LOG | TOKEN_BUCKET

datatype failure_mode = FAIL_OPEN | FAIL_CLOSED

text \<open>\<open>str(member)\<close> of the two string enums.\<close>

fun algorithm_str :: "rate_limit_algorithm \<Rightarrow> string" where
  "algorithm_str FIXED_WINDOW = ''fixed_window''"
| "algorithm_str SLIDING_WINDOW_LOG = ''sliding_window_log''"
| "algorithm_str TOKEN_BUCKET = ''token_bucket''"

fun failure_mode_str :: "failure_mode \<Rightarrow> string" where
  "failure_mode_str FAIL_OPEN = ''fail_open''"
| "failure_mode_str FAIL_CLOSED = ''fail_closed''"

section \<open>Records\<close>

record policy_base =
  pol_name :: string
  pol_description :: "string option"
  pol_algorithm :: rate_limit_algorithm
  pol_rate :: int
  pol_window_seconds :: int
  pol_burst_capacity :: "int option"
  pol_active :: bool
  pol_priority :: int
  pol_route :: "string option"
  pol_user_id :: "string option"
  pol_ip_address :: "string option"
  pol_tenant_id :: "string option"
  pol_api_key :: "string option"
  pol_failure_mode :: failure_mode

record policy = policy_base +
  pol_id :: uuid
  pol_version :: int
  pol_created_at :: int
  pol_updated_at :: int

text \<open>
  A field of an update is unset (\<open>None\<close>), an explicit null (\<open>Some None\<close>) or a value;
  \<open>model_dump(exclude_unset=True)\<close> drops the unset ones.
\<close>

record policy_update =
  upd_name :: "string option option"
  upd_description :: "string option option"
  upd_algorithm :: "rate_limit_algorithm option option"
  upd_rate :: "int option option"
  upd_window_seconds :: "int option option"
  upd_burst_capacity :: "int option option"
  upd_active :: "bool option option"
  upd_priority :: "int option option"
  upd_route :: "string option option"
  upd_user_id :: "string option option"
  upd_ip_address :: "string option option"
  upd_tenant_id :: "string option option"
  upd_api_key :: "string option option"
  upd_failure_mode :: "failure_mode option option"

text \<open>The dictionary of the fourteen payload fields; a null value is \<open>None\<close>.\<close>

record policy_dict =
  d_name :: "string option"
  d_description :: "string option"
  d_algorithm :: "rate_limit_algorithm option"
  d_rate :: "int option"
  d_window_seconds :: "int option"
  d_burst_capacity :: "int option"
  d_active :: "bool option"
  d_priority :: "int option"
  d_route :: "string option"
  d_user_id :: "string option"
  d_ip_address :: "string option"
  d_tenant_id :: "string option"
  d_api_key :: "string option"
  d_failure_mode :: "failure_mode option"

section \<open>Derived fields\<close>

definition describe_policy_scope ::
  "string option \<Rightarrow> string option \<Rightarrow> string option \<Rightarrow> string option \<Rightarrow> string option \<Rightarrow> string" where
  "describe_policy_scope route user_id ip_address tenant_id api_key =
     (let labels =
        (if tenant_id \<noteq> None then [''tenant''] else []) @
        (if api_key \<noteq> None then [''api_key''] else []) @
        (if user_id \<noteq> None then [''user''] else []) @
        (if ip_address \<noteq> None then [''ip''] else []) @
        (if route \<noteq> None then [''route''] else [])
      in if labels = [] then ''global'' else join ''+'' labels)"

definition selector_kind :: "'a policy_base_scheme \<Rightarrow> string" where
  "selector_kind p =
     describe_policy_scope (pol_route p) (pol_user_id p) (pol_ip_address p) (pol_tenant_id p) (pol_api_key p)"

definition header_limit :: "'a policy_base_scheme \<Rightarrow> int" where
  "header_limit p = or_int (pol_burst_capacity p) (pol_rate p)"

text \<open>\<open>RateLimitPolicy.to_refill_rate_per_second\<close>, and its rounded form in \<open>PolicyRead\<close>.\<close>

definition to_refill_rate_per_second :: "'a policy_base_scheme \<Rightarrow> py_error + rat" where
  "to_refill_rate_per_second p = py_div (of_int (pol_rate p)) (of_int (pol_window_seconds p))"

definition refill_rate_per_second :: "'a policy_base_scheme \<Rightarrow> py_error + rat" where
  "refill_rate_per_second p =
     (case py_div (of_int (pol_rate p)) (of_int (pol_window_seconds p)) of
        Inl e \<Rightarrow> Inl e
      | Inr r \<Rightarrow> Inr (round6 r))"

definition as_identity_selectors :: "'a policy_base_scheme \<Rightarrow> (string \<times> string option) list" where
  "as_identity_selectors p =
     [(''route'', pol_route p), (''user_id'', pol_user_id p), (''ip_address'', pol_ip_address p),
      (''tenant_id'', pol_tenant_id p), (''api_key'', pol_api_key p)]"

section \<open>Dictionaries\<close>

text \<open>\<open>payload.model_dump()\<close> and \<open>PolicyService._to_policy_payload(policy)\<close>.\<close>

definition to_policy_payload :: "'a policy_base_scheme \<Rightarrow> policy_dict" where
  "to_policy_payload p =
     \<lparr>d_name = Some (pol_name p), d_description = pol_description p,
      d_algorithm = Some (pol_algorithm p), d_rate = Some (pol_rate p),
      d_window_seconds = Some (pol_window_seconds p), d_burst_capacity = pol_burst_capacity p,
      d_active = Some (pol_active p), d_priority = Some (pol_priority p),
      d_route = pol_route p, d_user_id = pol_user_id p, d_ip_address = pol_ip_address p,
      d_tenant_id = pol_tenant_id p, d_api_key = pol_api_key p,
      d_failure_mode = Some (pol_failure_mode p)\<rparr>"

text \<open>\<open>payload | update_data\<close>: a field that is set replaces the one of the payload.\<close>

definition set_or :: "'a option \<Rightarrow> 'a \<Rightarrow> 'a" where
  "set_or u old = (case u of None \<Rightarrow> old | Some v \<Rightarrow> v)"

definition dict_update :: "policy_dict \<Rightarrow> policy_update \<Rightarrow> policy_dict" where
  "dict_update d u =
     \<lparr>d_name = set_or (upd_name u) (d_name d),
      d_description = set_or (upd_description u) (d_description d),
      d_algorithm = set_or (upd_algorithm u) (d_algorithm d),
      d_rate = set_or (upd_rate u) (d_rate d),
      d_window_seconds = set_or (upd_window_seconds u) (d_window_seconds d),
      d_burst_capacity = set_or (upd_burst_capacity u) (d_burst_capacity d),
      d_active = set_or (upd_active u) (d_active d),
      d_priority = set_or (upd_priority u) (d_priority d),
      d_route = set_or (upd_route u) (d_route d),
      d_user_id = set_or (upd_user_id u) (d_user_id d),
      d_ip_address = set_or (upd_ip_address u) (d_ip_address d),
      d_tenant_id = set_or (upd_tenant_id u) (d_tenant_id d),
      d_api_key = set_or (upd_api_key u) (d_api_key d),
      d_failure_mode = set_or (upd_failure_mode u) (d_failure_mode d)\<rparr>"

section \<open>Field constraints\<close>

datatype validation_error = InvalidFields "string list" | BurstCapacityNotSupported

definition length_at_most :: "nat \<Rightarrow> string option \<Rightarrow> bool" where
  "length_at_most n s = (case s of None \<Rightarrow> True | Some t \<Rightarrow> length t \<le> n)"

definition gt_zero :: "int option \<Rightarrow> bool" where
  "gt_zero n = (case n of None \<Rightarrow> True | Some k \<Rightarrow> 0 < k)"

text \<open>
  The constraints of \<open>PolicyBase\<close> in field order, each with the name it is reported
  under. A null in a field whose type does not allow it fails like a broken constraint.
\<close>

definition field_checks :: "policy_dict \<Rightarrow> (string \<times> bool) list" where
  "field_checks d =
     [(''name'', case d_name d of None \<Rightarrow> False | Some s \<Rightarrow> 3 \<le> length s \<and> length s \<le> 120),
      (''description'', length_at_most 1000 (d_description d)),
      (''algorithm'', d_algorithm d \<noteq> None),
      (''rate'', d_rate d \<noteq> None \<and> gt_zero (d_rate d)),
      (''window_seconds'', d_window_seconds d \<noteq> None \<and> gt_zero (d_window_seconds d)),
      (''burst_capacity'', gt_zero (d_burst_capacity d)),
      (''active'', d_active d \<noteq> None),
      (''priority'', d_priority d \<noteq> None),
      (''route'', length_at_most 255 (d_route d)),
      (''user_id'', length_at_most 128 (d_user_id d)),
      (''ip_address'', length_at_most 64 (d_ip_address d)),
      (''tenant_id'', length_at_most 128 (d_tenant_id d)),
      (''api_key'', length_at_most 128 (d_api_key d)),
      (''failure_mode'', d_failure_mode d \<noteq> None)]"

definition failed_checks :: "(string \<times> bool) list \<Rightarrow> string list" where
  "failed_checks cs = map fst (filter (\<lambda>c. \<not> snd c) cs)"

text \<open>The model validator, which runs only when every field is valid.\<close>

definition validate_algorithm_specifics :: "'a policy_base_scheme \<Rightarrow> validation_error + unit" where
  "validate_algorithm_specifics p =
     (if pol_algorithm p \<noteq> TOKEN_BUCKET \<and> pol_burst_capacity p \<noteq> None
      then Inl BurstCapacityNotSupported else Inr ())"

text \<open>Validation of an object that has all its fields (\<open>PolicyRead.model_validate(row)\<close>).\<close>

definition validate_policy :: "'a policy_base_scheme \<Rightarrow> validation_error + 'a policy_base_scheme" where
  "validate_policy p =
     (let bad = failed_checks (field_checks (to_policy_payload p)) in
      if bad \<noteq> [] then Inl (InvalidFields bad)
      else case validate_algorithm_specifics p of Inl e \<Rightarrow> Inl e | Inr _ \<Rightarrow> Inr p)"

definition policy_ok :: "'a policy_base_scheme \<Rightarrow> bool" where
  "policy_ok p = is_ok (validate_policy p)"

text \<open>\<open>PolicyCreate(**payload)\<close>.\<close>

definition policy_create :: "policy_dict \<Rightarrow> validation_error + policy_base" where
  "policy_create d =
     (case (d_name d, d_algorithm d, d_rate d, d_window_seconds d, d_active d, d_priority d, d_failure_mode d) of
        (Some nm, Some alg, Some r, Some w, Some act, Some prio, Some fm) \<Rightarrow>
          validate_policy
            \<lparr>pol_name = nm, pol_description = d_description d, pol_algorithm = alg, pol_rate = r,
             pol_window_seconds = w, pol_burst_capacity = d_burst_capacity d, pol_active = act,
             pol_priority = prio, pol_route = d_route d, pol_user_id = d_user_id d,
             pol_ip_address = d_ip_address d, pol_tenant_id = d_tenant_id d,
             pol_api_key = d_api_key d, pol_failure_mode = fm\<rparr>
      | _ \<Rightarrow> Inl (InvalidFields (failed_checks (field_checks d))))"

text \<open>The constraints of \<open>PolicyUpdate\<close>: those of the base, on the values that are given.\<close>

definition update_field_checks :: "policy_update \<Rightarrow> (string \<times> bool) list" where
  "update_field_checks u =
     [(''name'', (case upd_name u of Some (Some s) \<Rightarrow> 3 \<le> length s \<and> length s \<le> 120 | _ \<Rightarrow> True)),
      (''description'', (case upd_description u of Some s \<Rightarrow> length_at_most 1000 s | None \<Rightarrow> True)),
      (''rate'', (case upd_rate u of Some n \<Rightarrow> gt_zero n | None \<Rightarrow> True)),
      (''window_seconds'', (case upd_window_seconds u of Some n \<Rightarrow> gt_zero n | None \<Rightarrow> True)),
      (''burst_capacity'', (case upd_burst_capacity u of Some n \<Rightarrow> gt_zero n | None \<Rightarrow> True)),
      (''route'', (case upd_route u of Some s \<Rightarrow> length_at_most 255 s | None \<Rightarrow> True)),
      (''user_id'', (case upd_user_id u of Some s \<Rightarrow> length_at_most 128 s | None \<Rightarrow> True)),
      (''ip_address'', (case upd_ip_address u of Some s \<Rightarrow> length_at_most 64 s | None \<Rightarrow> True)),
      (''tenant_id'', (case upd_tenant_id u of Some s \<Rightarrow> length_at_most 128 s | None \<Rightarrow> True)),
      (''api_key'', (case upd_api_key u of Some s \<Rightarrow> length_at_most 128 s | None \<Rightarrow> True))]"

definition validate_update :: "policy_update \<Rightarrow> validation_error + policy_update" where
  "validate_update u =
     (let bad = failed_checks (update_field_checks u) in
      if bad \<noteq> [] then Inl (InvalidFields bad) else Inr u)"

text \<open>Whether \<open>update_data\<close> is non-empty: some field is set.\<close>

definition update_nonempty :: "policy_update \<Rightarrow> bool" where
  "update_nonempty u \<longleftrightarrow>
     upd_name u \<noteq> None \<or> upd_description u \<noteq> None \<or> upd_algorithm u \<noteq> None \<or> upd_rate u \<noteq> None \<or>
     upd_window_seconds u \<noteq> None \<or> upd_burst_capacity u \<noteq> None \<or> upd_active u \<noteq> None \<or>
     upd_priority u \<noteq> None \<or> upd_route u \<noteq> None \<or> upd_user_id u \<noteq> None \<or>
     upd_ip_address u \<noteq> None \<or> upd_tenant_id u \<noteq> None \<or> upd_api_key u \<noteq> None \<or>
     upd_failure_mode u \<noteq> None"

section \<open>Lemmas\<close>

lemma policy_okD [wf_dests]:
  assumes "policy_ok p"
  shows "0 < pol_rate p" "0 < pol_window_seconds p"
    "pol_burst_capacity p = Some b \<Longrightarrow> 0 < b"
    "pol_burst_capacity p = Some b \<Longrightarrow> pol_algorithm p = TOKEN_BUCKET"
  using assms
  by (auto simp: policy_ok_def validate_policy_def to_policy_payload_def field_checks_def
      failed_checks_def gt_zero_def validate_algorithm_specifics_def Let_def split: if_splits)

lemma validate_policy_Inr: "validate_policy p = Inr q \<Longrightarrow> q = p"
  by (auto simp: validate_policy_def Let_def split: if_splits sum.splits)

lemma policy_ok_iff: "policy_ok p \<longleftrightarrow> validate_policy p = Inr p"
  by (auto simp: policy_ok_def is_ok_iff dest: validate_policy_Inr)

lemma header_limit_pos: "policy_ok p \<Longrightarrow> 0 < header_limit p"
  unfolding header_limit_def by (rule or_int_pos) (auto dest: policy_okD order_less_imp_le)

lemma header_limit_rate: "policy_ok p \<Longrightarrow> pol_algorithm p \<noteq> TOKEN_BUCKET \<Longrightarrow> header_limit p = pol_rate p"
  by (cases "pol_burst_capacity p") (auto simp: header_limit_def dest: policy_okD)

lemma validate_policy_truncate:
  "policy_ok p \<Longrightarrow> validate_policy (policy_base.truncate p) = Inr (policy_base.truncate p)"
  by (auto simp: policy_ok_def validate_policy_def validate_algorithm_specifics_def policy_base.defs
      to_policy_payload_def Let_def split: if_splits)

lemma policy_create_payload:
  assumes "policy_ok p"
  shows "policy_create (to_policy_payload p) = Inr (policy_base.truncate p)"
  using validate_policy_truncate [OF assms]
  by (simp add: policy_create_def to_policy_payload_def policy_base.defs)

lemma to_policy_payload_inj:
  "to_policy_payload (p :: policy_base) = to_policy_payload q \<Longrightarrow> p = q"
  by (cases p; cases q) (simp add: to_policy_payload_def)

lemma policy_create_ok:
  assumes "policy_create d = Inr p"
  shows "policy_ok p" "to_policy_payload p = d"
proof -
  have "\<exists>q. validate_policy q = Inr p \<and> to_policy_payload q = d"
    using assms by (auto simp: policy_create_def to_policy_payload_def split: option.splits)
  then obtain q where q: "validate_policy q = Inr p" "to_policy_payload q = d" by blast
  with validate_policy_Inr [OF q(1)] show "policy_ok p" "to_policy_payload p = d"
    by (simp_all add: policy_ok_def)
qed

section \<open>A policy for concrete instances\<close>

definition example_policy :: policy where
  "example_policy =
     \<lparr>pol_name = ''protected-route-default'', pol_description = None, pol_algorithm = TOKEN_BUCKET,
      pol_rate = 10, pol_window_seconds = 60, pol_burst_capacity = Some 15, pol_active = True,
      pol_priority = 0, pol_route = Some ''/demo/protected'', pol_user_id = None,
      pol_ip_address = None, pol_tenant_id = None, pol_api_key = None,
      pol_failure_mode = FAIL_CLOSED, pol_id = 1, pol_version = 1, pol_created_at = 0,
      pol_updated_at = 0\<rparr>"

lemma example_policy_ok [simp]: "policy_ok example_policy"
  by (simp add: example_policy_def policy_ok_def validate_policy_def to_policy_payload_def
      field_checks_def failed_checks_def gt_zero_def length_at_most_def
      validate_algorithm_specifics_def)

section \<open>Properties\<close>

text \<open>
  Merging an update into a stored policy and validating the result is sound: what
  \<open>PolicyCreate(**merged)\<close> accepts has positive rate and window, a burst capacity only with
  the token bucket, and its own dictionary is the merged one, so no field was lost or
  changed on the way.
\<close>

theorem merged_payload_validation:
  assumes "policy_create (dict_update (to_policy_payload p) u) = Inr q"
  shows "0 < pol_rate q \<and> 0 < pol_window_seconds q \<and> 0 < header_limit q \<and>
    (pol_burst_capacity q \<noteq> None \<longrightarrow> pol_algorithm q = TOKEN_BUCKET) \<and>
    to_policy_payload q = dict_update (to_policy_payload p) u"
proof -
  note ok = policy_create_ok [OF assms]
  show ?thesis using ok policy_okD [OF ok(1)] header_limit_pos [OF ok(1)] by auto
qed

definition no_update :: policy_update where
  "no_update =
     \<lparr>upd_name = None, upd_description = None, upd_algorithm = None, upd_rate = None,
      upd_window_seconds = None, upd_burst_capacity = None, upd_active = None, upd_priority = None,
      upd_route = None, upd_user_id = None, upd_ip_address = None, upd_tenant_id = None,
      upd_api_key = None, upd_failure_mode = None\<rparr>"

theorem merged_payload_validation_witness:
  "\<exists>q. policy_create (dict_update (to_policy_payload example_policy) (no_update\<lparr>upd_rate := Some (Some 20)\<rparr>)) = Inr q \<and>
     0 < pol_rate q \<and> 0 < header_limit q"
proof -
  let ?u = "no_update\<lparr>upd_rate := Some (Some 20)\<rparr>"
  let ?q = "policy_base.truncate example_policy\<lparr>pol_rate := 20\<rparr>"
  have "policy_create (dict_update (to_policy_payload example_policy) ?u) = Inr ?q" by code_simp
  from this merged_payload_validation [OF this] show ?thesis by blast
qed

end
