(* ===== verification/Py_Text.thy ===== *)
theory Py_Text
  imports Binary64
begin

text \<open>
  Operations of Python on texts: stripping, splitting, searching, and the decimal texts of
  integers and doubles. \<open>repr\<close> of a double is the shortest decimal that is read back as the same
  double; the round trip is shown for every double.

  A text has one character per code point below 256.
\<close>

section \<open>Stripping, splitting, searching\<close>

text \<open>\<open>str.isspace\<close> on these code points; \<open>\s\<close> of a regular expression is the same.\<close>

definition is_space :: "char \<Rightarrow> bool" where
  "is_space c \<longleftrightarrow>
     (let n = of_char c :: nat in n = 32 \<or> (9 \<le> n \<and> n \<le> 13) \<or> (28 \<le> n \<and> n \<le> 31) \<or> n = 133 \<or> n = 160)"

definition rstrip :: "string \<Rightarrow> string" where
  "rstrip s = rev (dropWhile is_space (rev s))"

definition strip :: "string \<Rightarrow> string" where
  "strip s = rstrip (dropWhile is_space s)"

definition rstrip_slash :: "string \<Rightarrow> string" where
  "rstrip_slash s = rev (dropWhile (\<lambda>c. c = CHR ''/'') (rev s))"

definition single_quote :: "string \<Rightarrow> string" where
  "single_quote s = CHR 0x27 # s @ [CHR 0x27]"

definition newline :: string where
  "newline = [CHR 0x0A]"

text \<open>\<open>str.split(sep)\<close> for a separator of one character, \<open>str.split()\<close>, \<open>str.lower()\<close>, \<open>str.upper()\<close>,
  \<open>in\<close> and \<open>startswith\<close>.\<close>

fun split_on :: "char \<Rightarrow> string \<Rightarrow> string list" where
  "split_on sep [] = [[]]"
| "split_on sep (c # s) =
     (if c = sep then [] # split_on sep s
      else case split_on sep s of [] \<Rightarrow> [[c]] | part # parts \<Rightarrow> (c # part) # parts)"

fun split_words :: "string \<Rightarrow> string list" where
  "split_words [] = []"
| "split_words (c # s) =
     (if is_space c then split_words s
      else case s of
             [] \<Rightarrow> [[c]]
           | d # _ \<Rightarrow>
               if is_space d then [c] # split_words s
               else (case split_words s of [] \<Rightarrow> [[c]] | w # ws \<Rightarrow> (c # w) # ws))"

definition lower_char :: "char \<Rightarrow> char" where
  "lower_char c = (let n = of_char c :: nat in if 65 \<le> n \<and> n \<le> 90 then char_of (n + 32) else c)"

definition lower :: "string \<Rightarrow> string" where
  "lower s = map lower_char s"

definition upper_char :: "char \<Rightarrow> char" where
  "upper_char c = (let n = of_char c :: nat in if 97 \<le> n \<and> n \<le> 122 then char_of (n - 32) else c)"

definition upper :: "string \<Rightarrow> string" where
  "upper s = map upper_char s"

definition starts_with :: "string \<Rightarrow> string \<Rightarrow> bool" where
  "starts_with prefix s \<longleftrightarrow> take (length prefix) s = prefix"

fun contains :: "string \<Rightarrow> string \<Rightarrow> bool" where
  "contains needle [] = (needle = [])"
| "contains needle (c # s) = (starts_with needle (c # s) \<or> contains needle s)"

definition is_digit :: "char \<Rightarrow> bool" where
  "is_digit c = (let n = of_char c :: nat in 48 \<le> n \<and> n \<le> 57)"

section \<open>Integers\<close>

text \<open>The value of a run of digits, and \<open>int(text)\<close> of a decimal text (without underscores).\<close>

definition digits_value :: "string \<Rightarrow> int" where
  "digits_value s = foldl (\<lambda>n c. 10 * n + (of_char c - 48)) 0 s"

definition signed :: "string \<Rightarrow> bool \<times> string" where
  "signed s = (case s of
      c # t \<Rightarrow> if c = CHR ''-'' then (True, t) else if c = CHR ''+'' then (False, t) else (False, s)
    | [] \<Rightarrow> (False, s))"

definition parse_int :: "string \<Rightarrow> int option" where
  "parse_int s =
     (case signed s of
        (neg, ds) \<Rightarrow>
          if ds \<noteq> [] \<and> list_all is_digit ds then Some (if neg then - digits_value ds else digits_value ds) else None)"

definition py_int :: "string \<Rightarrow> py_error + int" where
  "py_int s =
     (case parse_int (strip s) of
        None \<Rightarrow> Inl (ValueError (''invalid literal for int() with base 10: '' @ single_quote s))
      | Some n \<Rightarrow> Inr n)"

lemma foldl_digits:
  "foldl (\<lambda>n c. 10 * n + (of_char c - 48)) a ys = a * 10 ^ length ys + foldl (\<lambda>n c. 10 * n + (of_char c - 48)) (0 :: int) ys"
proof (induction ys arbitrary: a)
  case (Cons c ys)
  show ?case
    unfolding foldl.simps Cons.IH [of "10 * a + (of_char c - 48)"] Cons.IH [of "10 * 0 + (of_char c - 48)"]
    by (simp add: distrib_right left_diff_distrib)
qed simp

lemma digits_value_append: "digits_value (xs @ ys) = digits_value xs * 10 ^ length ys + digits_value ys"
  unfolding digits_value_def foldl_append by (rule foldl_digits)

lemma digits_value_simps [simp]: "digits_value [] = 0" "digits_value [c] = of_char c - 48"
  by (simp_all add: digits_value_def)

lemma digits_value_Cons: "digits_value (c # cs) = (of_char c - 48) * 10 ^ length cs + digits_value cs"
  using digits_value_append [of "[c]" cs] by simp

lemma digits_value_zeros [simp]: "digits_value (replicate n CHR ''0'') = 0"
  by (induction n) (simp_all add: digits_value_Cons)

lemma digit_char_props [simp]:
  assumes "d < 10"
  shows "is_digit (digit_char d)" "(of_char (digit_char d) :: int) = 48 + int d"
proof -
  have n: "(of_char (digit_char d) :: nat) = 48 + d" using assms by (simp add: of_char_digit)
  then show "is_digit (digit_char d)" using assms by (simp add: is_digit_def)
  have "(of_char (digit_char d) :: int) = int (of_char (digit_char d))" by (simp only: of_nat_of_char)
  with n show "(of_char (digit_char d) :: int) = 48 + int d" by simp
qed

lemma nat_str_digits [simp]: "list_all is_digit (nat_str n)"
proof (induction n rule: nat_str.induct)
  case (1 n)
  then show ?case by (cases "n < 10") (simp_all add: nat_str_small nat_str_large)
qed

lemma digits_value_nat_str [simp]: "digits_value (nat_str n) = int n"
proof (induction n rule: nat_str.induct)
  case (1 n)
  then show ?case
    by (cases "n < 10") (simp_all add: nat_str_small nat_str_large digits_value_append of_nat_div of_nat_mod)
qed

lemma int_str_nonneg: "0 \<le> n \<Longrightarrow> int_str n = nat_str (nat n)"
  by (simp add: int_str_def)

text \<open>The digits of an integer, computed on integers.\<close>

function num_str :: "int \<Rightarrow> string" where
  "num_str n = (if n < 10 then [digit_char (nat n)] else num_str (n div 10) @ [digit_char (nat (n mod 10))])"
  by auto
termination by (relation "measure nat") auto

declare num_str.simps [simp del]

lemma num_str_eq: "0 \<le> n \<Longrightarrow> num_str n = nat_str (nat n)"
proof (induction n rule: num_str.induct)
  case (1 n)
  then show ?case
    by (subst num_str.simps, subst nat_str.simps) (auto simp: nat_div_distrib nat_mod_distrib)
qed

lemma int_str_code [code]: "int_str n = (if n < 0 then CHR ''-'' # num_str (- n) else num_str n)"
  by (simp add: int_str_def num_str_eq)

lemma is_digit_not [simp]:
  "\<not> is_digit CHR ''-''" "\<not> is_digit CHR ''+''" "\<not> is_digit CHR ''.''" "\<not> is_digit CHR ''e''" "\<not> is_digit CHR ''E''"
  "is_digit CHR ''0''"
  by (simp_all add: is_digit_def)

lemma signed_digits [simp]: "list_all is_digit ds \<Longrightarrow> ds \<noteq> [] \<Longrightarrow> signed (ds @ t) = (False, ds @ t)"
  by (cases ds) (auto simp: signed_def)

lemma parse_int_str [simp]: "parse_int (int_str n) = Some n"
proof (cases "n < 0")
  case True
  then show ?thesis by (simp add: parse_int_def int_str_def signed_def)
next
  case False
  have "signed (nat_str (nat n)) = (False, nat_str (nat n))" using signed_digits [of "nat_str (nat n)" "[]"] by simp
  with False show ?thesis by (simp add: parse_int_def int_str_def)
qed

section \<open>Doubles\<close>

text \<open>
  \<open>float(text)\<close>: an optional sign, digits with an optional point, an optional exponent. The
  names of infinity and NaN and the underscores that Python allows between digits are not
  represented.
\<close>

definition parse_exponent :: "string \<Rightarrow> int option" where
  "parse_exponent s =
     (case s of [] \<Rightarrow> Some 0 | c # t \<Rightarrow> if c = CHR ''e'' \<or> c = CHR ''E'' then parse_int t else None)"

definition parse_unsigned :: "string \<Rightarrow> rat option" where
  "parse_unsigned s =
     (let ip = takeWhile is_digit s; r = dropWhile is_digit s;
          (fp, r') = (case r of
                        c # t \<Rightarrow> if c = CHR ''.'' then (takeWhile is_digit t, dropWhile is_digit t) else ([], r)
                      | [] \<Rightarrow> ([], r))
      in if ip = [] \<and> fp = [] then None
         else (case parse_exponent r' of
                 None \<Rightarrow> None
               | Some e \<Rightarrow> Some (of_int (digits_value (ip @ fp)) * 10 powi (e - int (length fp)))))"

definition parse_decimal :: "string \<Rightarrow> rat option" where
  "parse_decimal s = (case signed s of (neg, t) \<Rightarrow> map_option (\<lambda>x. if neg then - x else x) (parse_unsigned t))"

definition py_float :: "string \<Rightarrow> py_error + rat" where
  "py_float s =
     (case parse_decimal (strip s) of
        None \<Rightarrow> Inl (ValueError (''could not convert string to float: '' @ single_quote s))
      | Some x \<Rightarrow> Inr (fl x))"

text \<open>\<open>round(x, n)\<close>: the nearest decimal with \<open>n\<close> places, read back as a double.\<close>

definition py_round :: "rat \<Rightarrow> nat \<Rightarrow> rat" where
  "py_round x n = fl (of_int (round_even (x * 10 ^ n)) / 10 ^ n)"

text \<open>
  \<open>repr(x)\<close>. \<open>decpt x\<close> is where the point stands: \<open>10 powi (k - 1) \<le> x < 10 powi k\<close>. The digits are
  the fewest that are read back as \<open>x\<close>, and among those the nearest to \<open>x\<close>; with as many digits
  as the binary expansion needs the decimal is \<open>x\<close> itself, which bounds the search.
\<close>

definition decpt :: "rat \<Rightarrow> int" where
  "decpt x =
     (let (p, q) = quotient_of x;
          k = int (length (int_str p)) - int (length (int_str q))
      in if x < 10 powi k then k else k + 1)"

definition digits_at :: "rat \<Rightarrow> int \<Rightarrow> int \<Rightarrow> int option" where
  "digits_at x k n =
     (let y = x * 10 powi (n - k);
          ok = (\<lambda>c. fl (of_int c * 10 powi (k - n)) = x)
      in if ok \<lfloor>y\<rfloor> \<and> ok \<lceil>y\<rceil> then Some (round_even y)
         else if ok \<lfloor>y\<rfloor> then Some \<lfloor>y\<rfloor>
         else if ok \<lceil>y\<rceil> then Some \<lceil>y\<rceil>
         else None)"

fun shortest :: "nat \<Rightarrow> rat \<Rightarrow> int \<Rightarrow> int \<Rightarrow> int \<times> int" where
  "shortest 0 x k n = (\<lfloor>x * 10 powi (n - k)\<rfloor>, n)"
| "shortest (Suc fuel) x k n =
     (case digits_at x k n of Some c \<Rightarrow> (c, n) | None \<Rightarrow> shortest fuel x k (n + 1))"

text \<open>The text of \<open>0.d\<^sub>1d\<^sub>2\<dots> * 10 powi k\<close>: with an exponent when the point is far away.\<close>

definition exponent_text :: "int \<Rightarrow> string" where
  "exponent_text e =
     (if e < 0 then ''-'' else ''+'') @ (if \<bar>e\<bar> < 10 then ''0'' else []) @ nat_str (nat \<bar>e\<bar>)"

definition float_text :: "string \<Rightarrow> int \<Rightarrow> string" where
  "float_text ds k =
     (if - 4 < k \<and> k \<le> 16 then
        if k \<le> 0 then ''0.'' @ replicate (nat (- k)) CHR ''0'' @ ds
        else if nat k < length ds then take (nat k) ds @ ''.'' @ drop (nat k) ds
        else ds @ replicate (nat k - length ds) CHR ''0'' @ ''.0''
      else take 1 ds @ (if length ds = 1 then [] else CHR ''.'' # drop 1 ds) @ ''e'' @ exponent_text (k - 1))"

definition repr_pos :: "rat \<Rightarrow> string" where
  "repr_pos x =
     (let k = decpt x;
          (c, n) = shortest (nat (k + 52 - ilog2 x) + nat k) x k 1;
          ds = int_str c
      in float_text (rev (dropWhile (\<lambda>d. d = CHR ''0'') (rev ds))) (k + int (length ds) - n))"

definition py_repr_float :: "rat \<Rightarrow> string" where
  "py_repr_float x = (if x = 0 then ''0.0'' else if x < 0 then CHR ''-'' # repr_pos (- x) else repr_pos x)"

section \<open>The shortest digits denote the double\<close>

lemma nat_str_length: "10 ^ (length (nat_str n) - 1) \<le> n \<or> n = 0" "n < 10 ^ length (nat_str n)"
proof -
  have "(n = 0 \<or> 10 ^ (length (nat_str n) - 1) \<le> n) \<and> n < 10 ^ length (nat_str n)"
  proof (induction n rule: nat_str.induct)
    case (1 n)
    show ?case
    proof (cases "n < 10")
      case False
      with 1 have "10 ^ (length (nat_str (n div 10)) - 1) \<le> n div 10" "n div 10 < 10 ^ length (nat_str (n div 10))" by auto
      then have "10 * 10 ^ (length (nat_str (n div 10)) - 1) \<le> n" "n < 10 * 10 ^ length (nat_str (n div 10))" by linarith+
      moreover have "0 < length (nat_str (n div 10))" by simp
      ultimately show ?thesis using False by (simp add: nat_str_large flip: power_Suc)
    qed (auto simp: nat_str_small)
  qed
  then show "10 ^ (length (nat_str n) - 1) \<le> n \<or> n = 0" "n < 10 ^ length (nat_str n)" by blast+
qed

lemma shortest_denotes:
  assumes "fl x = x" "0 < x"
  shows "52 - ilog2 x \<le> n - k + int fuel \<Longrightarrow> 0 \<le> n - k + int fuel \<Longrightarrow> shortest fuel x k n = (c, m) \<Longrightarrow>
    fl (of_int c * 10 powi (k - m)) = x"
proof (induction fuel arbitrary: n)
  case 0
  obtain a where x: "x = of_int a * 2 powi (ilog2 x - 52)" using double_form [OF assms] by blast
  let ?j = "n - k" and ?i = "52 - ilog2 x"
  have "\<exists>b. x * 10 powi ?j = of_int b"
  proof (cases "0 \<le> ?i")
    case True
    then obtain i where i: "?i = int i" by (rule nonneg_int_cases)
    obtain d where "?j - int i = int d" using 0(1) i zero_le_imp_eq_int [of "?j - int i"] by auto
    then have d: "?j = int i + int d" by simp
    have "x * 10 powi ?j = of_int a * 2 powi (- int i) * 10 powi (int i + int d)"
      using x i d by (metis minus_diff_eq)
    also have "\<dots> = of_int a * 10 ^ d * (10 ^ i / 2 ^ i)" by (simp add: power_int_minus power_int_add field_simps)
    also have "(10 :: rat) ^ i / 2 ^ i = 5 ^ i" by (simp flip: power_divide)
    finally have "x * 10 powi ?j = of_int (a * 10 ^ d * 5 ^ i)" by simp
    then show ?thesis ..
  next
    case False
    then obtain i where i: "ilog2 x - 52 = int i" using zero_le_imp_eq_int [of "ilog2 x - 52"] by auto
    obtain d where d: "?j = int d" using 0(2) zero_le_imp_eq_int [of ?j] by auto
    have "x * 10 powi ?j = of_int a * 2 powi int i * 10 powi int d" using x i d by metis
    then have "x * 10 powi ?j = of_int (a * 2 ^ i * 10 ^ d)" by simp
    then show ?thesis ..
  qed
  then obtain b where b: "x * 10 powi ?j = of_int b" ..
  with 0(3) have cm: "c = b" "m = n" by auto
  have "of_int b * (10 :: rat) powi (k - n) = x * (10 powi (n - k) * 10 powi (k - n))" by (simp flip: b)
  also have "\<dots> = x" by (simp flip: power_int_add)
  finally show ?case using assms(1) by (simp add: cm)
next
  case (Suc fuel)
  show ?case
  proof (cases "digits_at x k n")
    case None
    with Suc.IH [of "n + 1"] Suc.prems show ?thesis by simp
  next
    case (Some d)
    have two: "round_even y = \<lfloor>y\<rfloor> \<or> round_even y = \<lceil>y\<rceil>" for y
    proof (cases "of_int \<lfloor>y\<rfloor> = y")
      case True
      then show ?thesis by (metis round_even_of_int)
    next
      case False
      then have "\<lceil>y\<rceil> = \<lfloor>y\<rfloor> + 1" by (simp add: ceiling_altdef)
      then show ?thesis by (simp add: round_even_def Let_def)
    qed
    from Some have "fl (of_int d * 10 powi (k - n)) = x"
      using two [of "x * 10 powi (n - k)"] by (auto simp: digits_at_def Let_def split: if_splits)
    with Some Suc.prems(3) show ?thesis by simp
  qed
qed

section \<open>The text of a double is read back\<close>

definition pointed :: "string \<Rightarrow> string" where
  "pointed fp = (if fp = [] then [] else CHR ''.'' # fp)"

definition exponent_part :: "string \<Rightarrow> int \<Rightarrow> bool" where
  "exponent_part e n \<longleftrightarrow> e = [] \<and> n = 0 \<or> e = CHR ''e'' # exponent_text n"

lemma digits_value_padded:
  "digits_value (ds @ replicate n CHR ''0'') = digits_value ds * 10 ^ n"
  "digits_value (replicate n CHR ''0'' @ ds) = digits_value ds"
  by (simp_all add: digits_value_append)

lemma list_all_replicate [simp]: "P c \<Longrightarrow> list_all P (replicate n c)"
  by (induction n) auto

lemma list_all_take_drop: "list_all P xs \<Longrightarrow> list_all P (take n xs) \<and> list_all P (drop n xs)"
  by (metis append_take_drop_id list_all_append)

text \<open>The text in its three parts, with the value they denote.\<close>

lemma float_text_parts:
  assumes ds: "ds \<noteq> []" "list_all is_digit ds"
  shows "\<exists>ip fp e n. float_text ds k = ip @ pointed fp @ e \<and> ip \<noteq> [] \<and> list_all is_digit ip \<and> list_all is_digit fp \<and>
    exponent_part e n \<and> (fp \<noteq> [] \<or> e \<noteq> []) \<and> (ip = ''0'' \<or> hd ip = hd ds) \<and>
    of_int (digits_value (ip @ fp)) * 10 powi (n - int (length fp)) = (of_int (digits_value ds) * 10 powi (k - int (length ds)) :: rat)"
    (is "\<exists>ip fp e n. ?P ip fp e n")
proof -
  consider (zero) "- 4 < k" "k \<le> 16" "k \<le> 0" | (inside) "- 4 < k" "k \<le> 16" "0 < k" "nat k < length ds"
    | (whole) "- 4 < k" "k \<le> 16" "0 < k" "\<not> nat k < length ds" | (exp) "\<not> (- 4 < k \<and> k \<le> 16)" by linarith
  then show ?thesis
  proof cases
    case zero
    let ?fp = "replicate (nat (- k)) CHR ''0'' @ ds"
    have "digits_value (''0'' @ ?fp) = digits_value ds"
      by (simp add: digits_value_Cons digits_value_padded)
    moreover have "0 - int (length ?fp) = k - int (length ds)" using zero by simp
    ultimately have "?P ''0'' ?fp [] 0" using zero ds by (simp add: float_text_def pointed_def exponent_part_def)
    then show ?thesis by blast
  next
    case inside
    have "0 - int (length (drop (nat k) ds)) = k - int (length ds)" using inside by simp
    then have "?P (take (nat k) ds) (drop (nat k) ds) [] 0"
      using inside ds list_all_take_drop [OF ds(2), of "nat k"] by (auto simp: float_text_def pointed_def exponent_part_def hd_take)
    then show ?thesis by blast
  next
    case whole
    let ?ip = "ds @ replicate (nat k - length ds) CHR ''0''"
    obtain m where m: "nat k = length ds + m" using whole(4) le_Suc_ex not_le by metis
    have "digits_value (?ip @ ''0'') = digits_value ds * 10 ^ m * 10"
      by (simp only: digits_value_append digits_value_padded m) (simp add: digits_value_zeros)
    moreover have "k - int (length ds) = int m" using m whole(3) by simp
    ultimately have "of_int (digits_value (?ip @ ''0'')) * 10 powi (0 - int (length ''0'')) =
        (of_int (digits_value ds) * 10 powi (k - int (length ds)) :: rat)" by (simp add: power_int_minus)
    then have "?P ?ip ''0'' [] 0"
      using whole ds by (simp add: float_text_def pointed_def exponent_part_def)
    then show ?thesis by blast
  next
    case exp
    obtain c cs where cs: "ds = c # cs" using ds(1) by (cases ds) auto
    have "k - 1 - int (length cs) = k - int (length ds)" by (simp add: cs)
    moreover have "float_text ds k = [c] @ pointed cs @ CHR ''e'' # exponent_text (k - 1)"
      using exp by (auto simp: float_text_def cs pointed_def)
    ultimately have "?P [c] cs (CHR ''e'' # exponent_text (k - 1)) (k - 1)"
      using ds by (simp add: cs exponent_part_def diff_diff_eq)
    then show ?thesis by blast
  qed
qed

lemma parse_exponent_text:
  assumes "exponent_part e n"
  shows "parse_exponent e = Some n"
proof -
  let ?ds = "(if \<bar>n\<bar> < 10 then ''0'' else []) @ nat_str (nat \<bar>n\<bar>)"
  have "digits_value ?ds = \<bar>n\<bar>" by (simp add: digits_value_Cons)
  then have "parse_int (exponent_text n) = Some n"
    by (auto simp: parse_int_def exponent_text_def signed_def)
  with assms show ?thesis by (auto simp: exponent_part_def parse_exponent_def)
qed

lemma exponent_part_head: "exponent_part e n \<Longrightarrow> e = [] \<or> \<not> is_digit (hd e) \<and> hd e \<noteq> CHR ''.''"
  by (auto simp: exponent_part_def)

lemma takeWhile_digits:
  "list_all is_digit xs \<Longrightarrow> t = [] \<or> \<not> is_digit (hd t) \<Longrightarrow> takeWhile is_digit (xs @ t) = xs \<and> dropWhile is_digit (xs @ t) = t"
  by (cases t) (auto simp: list_all_iff takeWhile_append2 dropWhile_append2)

lemma parse_parts:
  assumes "ip \<noteq> []" "list_all is_digit ip" "list_all is_digit fp" "exponent_part e n"
  shows "parse_unsigned (ip @ pointed fp @ e) = Some (of_int (digits_value (ip @ fp)) * 10 powi (n - int (length fp)))"
proof -
  note head = exponent_part_head [OF assms(4)]
  have "takeWhile is_digit (ip @ pointed fp @ e) = ip \<and> dropWhile is_digit (ip @ pointed fp @ e) = pointed fp @ e"
    by (rule takeWhile_digits [OF assms(2)]) (use head in \<open>auto simp: pointed_def\<close>)
  moreover have "takeWhile is_digit (fp @ e) = fp \<and> dropWhile is_digit (fp @ e) = e"
    by (rule takeWhile_digits [OF assms(3)]) (use head in auto)
  moreover have "e = [] \<or> (\<exists>c t. e = c # t \<and> c \<noteq> CHR ''.'')" using head by (cases e) auto
  ultimately show ?thesis
    using assms(1) parse_exponent_text [OF assms(4)]
    by (auto simp: parse_unsigned_def pointed_def Let_def)
qed

lemma digits_value_less: "list_all is_digit cs \<Longrightarrow> digits_value cs < 10 ^ length cs"
proof (induction cs)
  case (Cons a cs)
  have "(of_char a :: int) = int (of_char a)" by (simp only: of_nat_of_char)
  then have "(of_char a :: int) - 48 \<le> 9" using Cons.prems by (simp add: is_digit_def Let_def)
  then have top: "(of_char a - 48) * 10 ^ length cs \<le> (9 :: int) * 10 ^ length cs" by (intro mult_right_mono) auto
  have "digits_value cs < 10 ^ length cs" using Cons by simp
  with top show ?case unfolding digits_value_Cons length_Cons power_Suc by linarith
qed simp

lemma nat_str_head:
  assumes "hd (nat_str n) = CHR ''0''"
  shows "n = 0"
proof (rule ccontr)
  assume "n \<noteq> 0"
  obtain cs where cs: "nat_str n = CHR ''0'' # cs" using assms by (cases "nat_str n") auto
  have "digits_value cs = int n" using digits_value_nat_str [of n] by (simp add: cs digits_value_Cons)
  moreover have "digits_value cs < 10 ^ length cs" using digits_value_less nat_str_digits [of n] by (simp add: cs)
  moreover have "10 ^ length cs \<le> n" using nat_str_length(1) [of n] \<open>n \<noteq> 0\<close> by (simp add: cs)
  then have "int (10 ^ length cs) \<le> int n" by (simp only: of_nat_le_iff)
  ultimately show False by simp
qed

lemma repr_pos_parts:
  assumes "fl x = x" "0 < x"
  shows "\<exists>ds k. repr_pos x = float_text ds k \<and> ds \<noteq> [] \<and> list_all is_digit ds \<and> hd ds \<noteq> CHR ''0'' \<and>
    fl (of_int (digits_value ds) * 10 powi (k - int (length ds))) = x"
proof -
  let ?k = "decpt x" and ?f = "nat (decpt x + 52 - ilog2 x) + nat (decpt x)"
  obtain c n where cn: "shortest ?f x ?k 1 = (c, n)" by (rule prod.exhaust)
  have eq: "fl (of_int c * 10 powi (?k - n)) = x"
    by (rule shortest_denotes [OF assms _ _ cn]) auto
  then have "0 < (of_int c * 10 powi (?k - n) :: rat)" using assms(2) fl_pos_iff by metis
  moreover have "0 < (10 :: rat) powi (?k - n)" by simp
  ultimately have "0 < (of_int c :: rat)" by (meson zero_less_mult_pos2)
  then have c: "0 < c" by simp
  let ?s = "nat_str (nat c)"
  have int_str: "int_str c = ?s" using c by (simp add: int_str_nonneg)
  obtain ds z where stripped: "ds = rev (dropWhile (\<lambda>d. d = CHR ''0'') (rev ?s))" and z: "?s = ds @ replicate z CHR ''0''"
  proof -
    have "rev ?s = takeWhile (\<lambda>d. d = CHR ''0'') (rev ?s) @ dropWhile (\<lambda>d. d = CHR ''0'') (rev ?s)" by simp
    moreover have "takeWhile (\<lambda>d. d = CHR ''0'') xs = replicate (length (takeWhile (\<lambda>d. d = CHR ''0'') xs)) CHR ''0''" for xs
      by (induction xs) auto
    ultimately show thesis using that by (metis rev_append rev_replicate rev_rev_ident)
  qed
  have val: "c = digits_value ds * 10 ^ z"
    using digits_value_nat_str [of "nat c"] c unfolding z digits_value_padded(1) by simp
  with c have ne: "ds \<noteq> []" by auto
  have dig: "list_all is_digit ds" using nat_str_digits [of "nat c"] unfolding z by simp
  have hd: "hd ds \<noteq> CHR ''0''"
  proof
    assume h: "hd ds = CHR ''0''"
    have "hd ?s = CHR ''0''" using h ne unfolding z by simp
    then have "nat c = 0" by (rule nat_str_head)
    with c show False by simp
  qed
  let ?kk = "?k + int (length ?s) - n"
  have place: "?kk - int (length ds) = ?k - n + int z" unfolding z by simp
  have "of_int (digits_value ds) * (10 :: rat) powi (?kk - int (length ds)) = of_int (digits_value ds * 10 ^ z) * 10 powi (?k - n)"
    unfolding place by (simp add: power_int_add)
  then have "fl (of_int (digits_value ds) * 10 powi (?kk - int (length ds))) = x" using eq by (simp only: val [symmetric])
  moreover have "repr_pos x = float_text ds ?kk" by (simp add: repr_pos_def Let_def cn stripped int_str)
  ultimately show ?thesis using ne dig hd by blast
qed

lemma parse_repr_pos:
  assumes "fl x = x" "0 < x"
  shows "\<exists>y. parse_unsigned (repr_pos x) = Some y \<and> fl y = x"
proof -
  obtain ds k where ds: "repr_pos x = float_text ds k" "ds \<noteq> []" "list_all is_digit ds"
    "fl (of_int (digits_value ds) * 10 powi (k - int (length ds))) = x" using repr_pos_parts [OF assms] by blast
  obtain ip fp e n where parts: "float_text ds k = ip @ pointed fp @ e" "ip \<noteq> []" "list_all is_digit ip" "list_all is_digit fp"
    "exponent_part e n" "of_int (digits_value (ip @ fp)) * 10 powi (n - int (length fp)) =
      (of_int (digits_value ds) * 10 powi (k - int (length ds)) :: rat)"
    using float_text_parts [OF ds(2,3)] by blast
  show ?thesis using parse_parts [OF parts(2-5)] parts(6) ds(4) by (simp add: ds(1) parts(1))
qed

lemma strip_id:
  assumes "list_all (\<lambda>c. \<not> is_space c) s"
  shows "strip s = s"
proof -
  have "dropWhile is_space xs = xs" if "list_all (\<lambda>c. \<not> is_space c) xs" for xs
    using that by (cases xs) auto
  then show ?thesis using assms by (simp add: strip_def rstrip_def list_all_rev)
qed

lemma digits_not_space: "list_all is_digit s \<Longrightarrow> list_all (\<lambda>c. \<not> is_space c) s"
  by (auto simp: list_all_iff is_digit_def is_space_def Let_def)

lemma repr_not_space:
  assumes "fl x = x"
  shows "list_all (\<lambda>c. \<not> is_space c) (py_repr_float x)"
proof -
  have exp: "list_all (\<lambda>c. \<not> is_space c) (exponent_text n)" for n
    using digits_not_space [OF nat_str_digits] by (auto simp: exponent_text_def is_space_def)
  have pos: "list_all (\<lambda>c. \<not> is_space c) (repr_pos y)" if y: "fl y = y" "0 < y" for y
  proof -
    obtain ds k where ds: "repr_pos y = float_text ds k" "ds \<noteq> []" "list_all is_digit ds" using repr_pos_parts [OF y] by blast
    obtain ip fp e n where parts: "float_text ds k = ip @ pointed fp @ e" "list_all is_digit ip" "list_all is_digit fp" "exponent_part e n"
      using float_text_parts [OF ds(2,3)] by blast
    have "list_all (\<lambda>c. \<not> is_space c) e" using parts(4) exp by (auto simp: exponent_part_def is_space_def)
    moreover have "list_all (\<lambda>c. \<not> is_space c) (pointed fp)" using digits_not_space [OF parts(3)] by (simp add: pointed_def is_space_def)
    ultimately show ?thesis using digits_not_space [OF parts(2)] by (simp add: ds(1) parts(1))
  qed
  consider "x = 0" | "0 < x" | "x < 0" by linarith
  then show ?thesis
  proof cases
    case 3
    then have "fl (- x) = - x" "0 < - x" using assms by (simp_all add: fl_uminus)
    from pos [OF this] 3 show ?thesis by (simp add: py_repr_float_def is_space_def)
  qed (use pos [OF assms] in \<open>simp_all add: py_repr_float_def is_space_def\<close>)
qed

lemma parse_unsigned_signed: "parse_unsigned s = Some y \<Longrightarrow> signed s = (False, s)"
  by (cases s) (auto simp: signed_def parse_unsigned_def Let_def)

lemma parse_repr:
  assumes "fl x = x"
  shows "\<exists>y. parse_decimal (py_repr_float x) = Some y \<and> fl y = x"
proof -
  consider "x = 0" | "0 < x" | "x < 0" by linarith
  then show ?thesis
  proof cases
    case 1
    have "parse_decimal ''0.0'' = Some 0" by code_simp
    with 1 show ?thesis by (simp add: py_repr_float_def)
  next
    case 2
    then obtain y where "parse_unsigned (repr_pos x) = Some y" "fl y = x" using parse_repr_pos [OF assms] by blast
    with 2 show ?thesis using parse_unsigned_signed by (auto simp: py_repr_float_def parse_decimal_def)
  next
    case 3
    then have "fl (- x) = - x" "0 < - x" using assms by (simp_all add: fl_uminus)
    then obtain y where "parse_unsigned (repr_pos (- x)) = Some y" "fl y = - x" using parse_repr_pos by blast
    with 3 show ?thesis by (auto simp: py_repr_float_def parse_decimal_def signed_def fl_uminus)
  qed
qed

text \<open>
  The decimal text of a double is read back as the same double: \<open>float(repr(x)) = x\<close>.
\<close>

theorem float_repr_roundtrip:
  assumes "fl x = x"
  shows "py_float (py_repr_float x) = Inr x"
  using parse_repr [OF assms] strip_id [OF repr_not_space [OF assms]] by (auto simp: py_float_def)

theorem float_repr_roundtrip_witness:
  "py_float (py_repr_float (fl (1 / 10))) = Inr (fl (1 / 10)) \<and> py_repr_float (fl (1 / 10)) = ''0.1''"
proof -
  have "py_repr_float (fl (1 / 10)) = ''0.1''" by code_simp
  with float_repr_roundtrip [of "fl (1 / 10)"] show ?thesis by simp
qed

text \<open>Where the point stands.\<close>

lemma quotient_digits:
  fixes p q :: rat
  assumes "10 powi (a - 1) \<le> p" "p < 10 powi a" "10 powi (b - 1) \<le> q" "q < 10 powi b" "0 < q"
  shows "10 powi (a - b - 1) \<le> p / q" "p / q < 10 powi (a - b + 1)"
proof -
  have "p < 10 powi (a - b + 1) * 10 powi (b - 1)" using assms(2) by (simp flip: power_int_add)
  also have "\<dots> \<le> 10 powi (a - b + 1) * q" using assms(3) by (rule mult_left_mono) simp
  finally show "p / q < 10 powi (a - b + 1)" using assms(5) by (simp only: pos_divide_less_eq)
  have "10 powi (a - b - 1) * q \<le> 10 powi (a - b - 1) * 10 powi b" using assms(4) by (intro mult_left_mono) simp_all
  also have "\<dots> = 10 powi (a - 1)" by (simp flip: power_int_add)
  also note assms(1)
  finally show "10 powi (a - b - 1) \<le> p / q" using assms(5) by (simp only: pos_le_divide_eq)
qed

lemma int_str_length:
  assumes "0 < n"
  shows "10 powi (int (length (int_str n)) - 1) \<le> (of_int n :: rat)" "of_int n < (10 powi int (length (int_str n)) :: rat)"
proof -
  let ?l = "length (int_str n)"
  have l: "int ?l - 1 = int (?l - 1)" using assms nat_str_nonempty [of "nat n"] by (simp add: int_str_nonneg Suc_leI)
  have "10 ^ (?l - 1) \<le> nat n" "nat n < 10 ^ ?l"
    using nat_str_length [of "nat n"] assms by (auto simp: int_str_nonneg)
  then have "int (10 ^ (?l - 1)) \<le> n" "n < int (10 ^ ?l)" using assms by linarith+
  then have "of_int (int (10 ^ (?l - 1))) \<le> (of_int n :: rat)" "of_int n < (of_int (int (10 ^ ?l)) :: rat)"
    by (simp_all only: of_int_le_iff of_int_less_iff)
  then show "10 powi (int ?l - 1) \<le> (of_int n :: rat)" "of_int n < (10 powi int ?l :: rat)"
    unfolding l power_int_of_nat by simp_all
qed

lemma decpt_bounds:
  assumes "0 < x"
  shows "10 powi (decpt x - 1) \<le> x" "x < 10 powi decpt x"
proof -
  obtain p q where pq: "quotient_of x = (p, q)" by fastforce
  have q: "0 < q" using quotient_of_denom_pos [OF pq] .
  have x: "x = of_int p / of_int q" using quotient_of_div [OF pq] .
  with assms q have p: "0 < p" by (simp add: zero_less_divide_iff)
  define k where "k = int (length (int_str p)) - int (length (int_str q))"
  have bounds: "10 powi (k - 1) \<le> x" "x < 10 powi (k + 1)"
    using quotient_digits [OF int_str_length [OF p] int_str_length [OF q]] q by (simp_all add: x k_def)
  have dec: "decpt x = (if x < 10 powi k then k else k + 1)"
    by (simp add: decpt_def pq k_def)
  show "10 powi (decpt x - 1) \<le> x" "x < 10 powi decpt x"
    unfolding dec using bounds by (simp_all add: not_less)
qed

end
