(* ===== verification/Key_Builder.thy ===== *)
theory Key_Builder
  imports Policy Py_Text
begin

text \<open>
  \<open>app/services/key_builder.py\<close>: the identity of a request and the Redis key its quota is
  counted under.

  The Starlette request is a record of what the builder reads from it: the matched route's
  path, the URL path, the headers, the path parameters and the peer's host.
\<close>

section \<open>Identity of a request\<close>

record request_identity =
  id_route :: string
  id_user_id :: "string option"
  id_ip_address :: "string option"
  id_tenant_id :: "string option"
  id_api_key :: "string option"

record http_request =
  req_route_path :: "string option"
  req_url_path :: string
  req_headers :: "string \<rightharpoonup> string"
  req_path_params :: "string \<rightharpoonup> string"
  req_client_host :: "string option"

text \<open>The part before the first comma.\<close>

definition before_comma :: "string \<Rightarrow> string" where
  "before_comma s = takeWhile (\<lambda>c. c \<noteq> CHR '','') s"

definition extract_client_ip :: "http_request \<Rightarrow> string option" where
  "extract_client_ip r =
     (case req_headers r ''X-Forwarded-For'' of
        Some (c # cs) \<Rightarrow> Some (strip (before_comma (c # cs)))
      | _ \<Rightarrow>
          (case req_client_host r of
             Some (c # cs) \<Rightarrow> Some (c # cs)
           | _ \<Rightarrow> None))"

definition route_template :: "http_request \<Rightarrow> string" where
  "route_template r = (case req_route_path r of Some p \<Rightarrow> p | None \<Rightarrow> req_url_path r)"

definition build_request_identity :: "http_request \<Rightarrow> request_identity" where
  "build_request_identity r =
     \<lparr>id_route = route_template r,
      id_user_id = or_str (req_path_params r ''user_id'') (req_headers r ''X-User-Id''),
      id_ip_address = extract_client_ip r,
      id_tenant_id = req_headers r ''X-Tenant-Id'',
      id_api_key = req_headers r ''X-Api-Key''\<rparr>"

section \<open>The Redis key of a policy and an identity\<close>

text \<open>\<open>str(uuid)\<close>: 32 hexadecimal digits grouped 8-4-4-4-12.\<close>

definition uuid_str :: "uuid \<Rightarrow> string" where
  "uuid_str u =
     (let h = hex_digits 32 (unat u) in
      join ''-'' [take 8 h, take 4 (drop 8 h), take 4 (drop 12 h), take 4 (drop 16 h), drop 20 h])"

text \<open>The text an f-string writes for an optional string.\<close>

definition fmt :: "string option \<Rightarrow> string" where
  "fmt s = (case s of None \<Rightarrow> ''None'' | Some t \<Rightarrow> t)"

definition key_segments :: "policy \<Rightarrow> request_identity \<Rightarrow> string list" where
  "key_segments p i =
     [''rl'', algorithm_str (pol_algorithm p), uuid_str (pol_id p), ''v'' @ int_str (pol_version p)] @
     (if pol_route p \<noteq> None then [''route='' @ id_route i] else []) @
     (if pol_user_id p \<noteq> None then [''user='' @ fmt (or_str (id_user_id i) (pol_user_id p))] else []) @
     (if pol_ip_address p \<noteq> None then [''ip='' @ fmt (or_str (id_ip_address i) (pol_ip_address p))] else []) @
     (if pol_tenant_id p \<noteq> None then [''tenant='' @ fmt (or_str (id_tenant_id i) (pol_tenant_id p))] else []) @
     (if pol_api_key p \<noteq> None then [''api_key='' @ fmt (or_str (id_api_key i) (pol_api_key p))] else [])"

definition build_rate_limit_key :: "policy \<Rightarrow> request_identity \<Rightarrow> string" where
  "build_rate_limit_key p i = join '':'' (key_segments p i)"

section \<open>Lemmas\<close>

lemma algorithm_str_inj: "algorithm_str a = algorithm_str b \<Longrightarrow> a = b"
  by (cases a; cases b) auto

lemma algorithm_str_no_colon [simp]: "CHR '':'' \<notin> set (algorithm_str a)"
  by (cases a) auto

lemma length_uuid_str [simp]: "length (uuid_str u) = 36"
  by (simp add: uuid_str_def Let_def)

lemma uuid_str_no_colon [simp]: "CHR '':'' \<notin> set (uuid_str u)"
  using hex_digits_no_punct(2) [of 32 "unat u"]
  by (auto simp: uuid_str_def Let_def dest!: in_set_takeD in_set_dropD)

lemma uuid_str_inj:
  assumes "uuid_str u = uuid_str v"
  shows "u = v"
proof -
  let ?h = "\<lambda>w :: uuid. hex_digits 32 (unat w)"
  have parts: "take 8 (?h u) = take 8 (?h v)" "take 4 (drop 8 (?h u)) = take 4 (drop 8 (?h v))"
    "take 4 (drop 12 (?h u)) = take 4 (drop 12 (?h v))"
    "take 4 (drop 16 (?h u)) = take 4 (drop 16 (?h v))" "drop 20 (?h u) = drop 20 (?h v)"
    using assms by (simp_all add: uuid_str_def Let_def append_eq_append_conv)
  have split: "?h w = take 8 (?h w) @ take 4 (drop 8 (?h w)) @ take 4 (drop 12 (?h w)) @
      take 4 (drop 16 (?h w)) @ drop 20 (?h w)" for w
    using take_add [of 8 4 "?h w"] take_add [of 12 4 "?h w"] take_add [of 16 4 "?h w"]
      append_take_drop_id [of 20 "?h w"] by simp
  have "?h u = ?h v" using split [of u] split [of v] by (simp only: parts)
  moreover have bound: "unat w < 16 ^ 32" for w :: uuid
  proof -
    have "unat w < 2 ^ LENGTH(128)" by (rule unsigned_less)
    then show ?thesis by simp
  qed
  have "unat u < 16 ^ 32" "unat v < 16 ^ 32" by (rule bound)+
  ultimately have "unat u = unat v" using hex_digits_inj by blast
  then show ?thesis by (simp add: word_eq_iff_unsigned [where ?'a = nat])
qed

lemma join_Cons: "ss \<noteq> [] \<Longrightarrow> join sep (s # ss) = s @ sep @ join sep ss"
  by (cases ss) auto

lemma takeWhile_segment:
  "c \<notin> set xs \<Longrightarrow> t = [] \<or> hd t = c \<Longrightarrow> takeWhile (\<lambda>x. x \<noteq> c) (xs @ t) = xs"
  by (induction xs) (cases t, auto)+

lemma key_shape:
  "\<exists>t. build_rate_limit_key p i =
     ''rl:'' @ algorithm_str (pol_algorithm p) @ '':'' @ uuid_str (pol_id p) @ '':'' @
     (CHR ''v'' # int_str (pol_version p)) @ t \<and> (t = [] \<or> hd t = CHR '':'')"
proof -
  have "\<exists>t. join '':'' (s # ss) = s @ t \<and> (t = [] \<or> hd t = CHR '':'')" for s ss
    by (cases ss) auto
  then obtain t where t: "join '':'' ((''v'' @ int_str (pol_version p)) # drop 4 (key_segments p i)) =
      (''v'' @ int_str (pol_version p)) @ t" "t = [] \<or> hd t = CHR '':''" by blast
  have "key_segments p i = ''rl'' # algorithm_str (pol_algorithm p) # uuid_str (pol_id p) #
      (''v'' @ int_str (pol_version p)) # drop 4 (key_segments p i)"
    by (simp add: key_segments_def)
  then have "build_rate_limit_key p i = join '':'' (''rl'' # algorithm_str (pol_algorithm p) #
      uuid_str (pol_id p) # (''v'' @ int_str (pol_version p)) # drop 4 (key_segments p i))"
    unfolding build_rate_limit_key_def by (rule arg_cong)
  with t show ?thesis by (auto simp: join_Cons)
qed

lemma key_meta:
  assumes "build_rate_limit_key p i = build_rate_limit_key q j"
  shows "pol_algorithm p = pol_algorithm q \<and> pol_id p = pol_id q \<and> pol_version p = pol_version q"
proof -
  obtain t where t: "build_rate_limit_key p i = ''rl:'' @ algorithm_str (pol_algorithm p) @ '':'' @
      uuid_str (pol_id p) @ '':'' @ (CHR ''v'' # int_str (pol_version p)) @ t" "t = [] \<or> hd t = CHR '':''"
    using key_shape by blast
  obtain u where u: "build_rate_limit_key q j = ''rl:'' @ algorithm_str (pol_algorithm q) @ '':'' @
      uuid_str (pol_id q) @ '':'' @ (CHR ''v'' # int_str (pol_version q)) @ u" "u = [] \<or> hd u = CHR '':''"
    using key_shape by blast
  have "algorithm_str (pol_algorithm p) @ CHR '':'' #
        (uuid_str (pol_id p) @ CHR '':'' # CHR ''v'' # int_str (pol_version p) @ t) =
      algorithm_str (pol_algorithm q) @ CHR '':'' #
        (uuid_str (pol_id q) @ CHR '':'' # CHR ''v'' # int_str (pol_version q) @ u)"
    using assms unfolding t(1) u(1) by simp
  note alg = split_at_char [OF algorithm_str_no_colon algorithm_str_no_colon this]
  note id = split_at_char [OF uuid_str_no_colon uuid_str_no_colon conjunct2 [OF alg]]
  have "int_str (pol_version p) = int_str (pol_version q)"
    using takeWhile_segment [of "CHR '':''" "int_str (pol_version p)" t]
      takeWhile_segment [of "CHR '':''" "int_str (pol_version q)" u] t(2) u(2) id by simp
  with alg id show ?thesis by (blast dest: algorithm_str_inj uuid_str_inj int_str_inj)
qed

text \<open>An identity for concrete instances.\<close>

definition example_identity :: request_identity where
  "example_identity =
     \<lparr>id_route = ''/demo/protected'', id_user_id = Some ''alice'', id_ip_address = Some ''203.0.113.10'',
      id_tenant_id = None, id_api_key = None\<rparr>"

section \<open>Properties\<close>

text \<open>
  Two policies never share a Redis key: equal keys, for whatever identities, mean the
  same algorithm, the same policy id and the same version. In particular the version bump
  of an update starts every quota of the policy afresh.
\<close>

theorem key_separates_policies:
  assumes "build_rate_limit_key p i = build_rate_limit_key q j"
  shows "pol_algorithm p = pol_algorithm q \<and> pol_id p = pol_id q \<and> pol_version p = pol_version q"
  by (rule key_meta [OF assms])

theorem key_separates_policies_witness:
  "build_rate_limit_key example_policy example_identity =
     build_rate_limit_key (example_policy\<lparr>pol_rate := 20\<rparr>) (example_identity\<lparr>id_user_id := None\<rparr>) \<and>
   pol_version example_policy = pol_version (example_policy\<lparr>pol_rate := 20\<rparr>)"
proof -
  have "build_rate_limit_key example_policy example_identity =
      build_rate_limit_key (example_policy\<lparr>pol_rate := 20\<rparr>) (example_identity\<lparr>id_user_id := None\<rparr>)"
    by (simp add: build_rate_limit_key_def key_segments_def example_policy_def example_identity_def)
  with key_separates_policies [OF this] show ?thesis by simp
qed

end
