(* ===== verification/Local_Fallback.thy ===== *)
theory Local_Fallback
  imports Algorithms Key_Builder
begin

text \<open>
  \<open>app/services/local_fallback_limiter.py\<close>: the in-memory limiter an instance uses when
  Redis fails. Its state is three dictionaries of stored states with expiry times, one per
  algorithm, and a time to live. Its methods run under one lock, so each is one step.

  A stored value is an \<open>object\<close> in the source and is checked with \<open>isinstance\<close> when it is
  read; the value is a tagged union here, and the \<open>TypeError\<close>s are branches.
\<close>

section \<open>State\<close>

datatype stored_value =
    FixedWindowValue fixed_window_state
  | EventsValue "millis list"
  | TokenBucketValue token_bucket_state

record stored_state =
  st_value :: stored_value
  st_expires_at_ms :: millis

type_synonym bucket_map = "string \<rightharpoonup> stored_state"

record local_limiter =
  ll_fixed_windows :: bucket_map
  ll_sliding_windows :: bucket_map
  ll_token_buckets :: bucket_map
  ll_state_ttl_ms :: int

record local_decision =
  ld_allowed :: bool
  ld_limit :: int
  ld_remaining :: int
  ld_reset_at_epoch_seconds :: int
  ld_retry_after_seconds :: int

definition new_limiter :: "int \<Rightarrow> local_limiter" where
  "new_limiter state_ttl_seconds =
     \<lparr>ll_fixed_windows = Map.empty, ll_sliding_windows = Map.empty, ll_token_buckets = Map.empty,
      ll_state_ttl_ms = max 1 state_ttl_seconds * 1000\<rparr>"

definition clear :: "local_limiter \<Rightarrow> local_limiter" where
  "clear L = L\<lparr>ll_fixed_windows := Map.empty, ll_sliding_windows := Map.empty, ll_token_buckets := Map.empty\<rparr>"

section \<open>Operations\<close>

definition evict_map :: "millis \<Rightarrow> bucket_map \<Rightarrow> bucket_map" where
  "evict_map now_ms b key =
     (case b key of
        None \<Rightarrow> None
      | Some s \<Rightarrow> if st_expires_at_ms s \<le> now_ms then None else Some s)"

definition evict_expired :: "millis \<Rightarrow> local_limiter \<Rightarrow> local_limiter" where
  "evict_expired now_ms L =
     L\<lparr>ll_fixed_windows := evict_map now_ms (ll_fixed_windows L),
       ll_sliding_windows := evict_map now_ms (ll_sliding_windows L),
       ll_token_buckets := evict_map now_ms (ll_token_buckets L)\<rparr>"

definition to_decision :: "'a policy_base_scheme \<Rightarrow> rate_limit_computation \<Rightarrow> local_decision" where
  "to_decision p c =
     \<lparr>ld_allowed = rc_allowed c, ld_limit = header_limit p, ld_remaining = rc_remaining c,
      ld_reset_at_epoch_seconds = ceil_seconds (rc_reset_at_ms c),
      ld_retry_after_seconds = (if rc_allowed c then 0 else ceil_seconds (rc_retry_after_ms c))\<rparr>"

definition local_fixed_window ::
  "'a policy_base_scheme \<Rightarrow> string \<Rightarrow> millis \<Rightarrow> local_limiter \<Rightarrow> (py_error + local_decision) \<times> local_limiter" where
  "local_fixed_window p key now_ms L =
     (let run = (\<lambda>state.
        case apply_fixed_window now_ms state (pol_rate p) (pol_window_seconds p) of
          Inl e \<Rightarrow> (Inl e, L)
        | Inr (next_state, c) \<Rightarrow>
            (Inr (to_decision p c),
             L\<lparr>ll_fixed_windows := (ll_fixed_windows L)(key \<mapsto>
                 \<lparr>st_value = FixedWindowValue next_state,
                  st_expires_at_ms = max (rc_reset_at_ms c) (now_ms + ll_state_ttl_ms L)\<rparr>)\<rparr>))
      in case map_option st_value (ll_fixed_windows L key) of
           None \<Rightarrow> run None
         | Some (FixedWindowValue s) \<Rightarrow> run (Some s)
         | Some _ \<Rightarrow> (Inl (TypeError ''Unexpected fixed window state.''), L))"

text \<open>\<open>list(stored.value)\<close> of a dataclass raises: it is not iterable.\<close>

definition local_sliding_window ::
  "'a policy_base_scheme \<Rightarrow> string \<Rightarrow> millis \<Rightarrow> local_limiter \<Rightarrow> (py_error + local_decision) \<times> local_limiter" where
  "local_sliding_window p key now_ms L =
     (let run = (\<lambda>events.
        case apply_sliding_window_log now_ms events (pol_rate p) (pol_window_seconds p) of
          (next_events, c) \<Rightarrow>
            (Inr (to_decision p c),
             L\<lparr>ll_sliding_windows := (ll_sliding_windows L)(key \<mapsto>
                 \<lparr>st_value = EventsValue next_events,
                  st_expires_at_ms = max (rc_reset_at_ms c) (now_ms + ll_state_ttl_ms L)\<rparr>)\<rparr>))
      in case map_option st_value (ll_sliding_windows L key) of
           None \<Rightarrow> run []
         | Some (EventsValue events) \<Rightarrow> run events
         | Some _ \<Rightarrow> (Inl (TypeError ''object is not iterable''), L))"

text \<open>
  The bucket object of the dictionary is the one \<open>apply_token_bucket\<close> changes in place: when
  a division raises afterwards, an existing entry has its new value and its old expiry.
\<close>

definition local_token_bucket ::
  "'a policy_base_scheme \<Rightarrow> string \<Rightarrow> millis \<Rightarrow> local_limiter \<Rightarrow> (py_error + local_decision) \<times> local_limiter" where
  "local_token_bucket p key now_ms L =
     (let capacity = or_int (pol_burst_capacity p) (pol_rate p);
          stored = ll_token_buckets L key;
          put = (\<lambda>s. L\<lparr>ll_token_buckets := (ll_token_buckets L)(key \<mapsto> s)\<rparr>);
          run = (\<lambda>state.
            case to_refill_rate_per_second p of
              Inl e \<Rightarrow> (Inl e, L)
            | Inr rate \<Rightarrow>
                (case apply_token_bucket now_ms state capacity rate 1 of
                   (next_state, Inl e) \<Rightarrow>
                     (Inl e,
                      case stored of None \<Rightarrow> L | Some s \<Rightarrow> put (s\<lparr>st_value := TokenBucketValue next_state\<rparr>))
                 | (next_state, Inr c) \<Rightarrow>
                     let refill_to_full_ms = ms_to_refill (fl (float_of_int capacity - tb_tokens next_state)) rate
                     in (Inr (to_decision p c),
                         put \<lparr>st_value = TokenBucketValue next_state,
                              st_expires_at_ms = max (now_ms + refill_to_full_ms + ll_state_ttl_ms L) (now_ms + 1000)\<rparr>)))
      in case map_option st_value stored of
           None \<Rightarrow> run None
         | Some (TokenBucketValue s) \<Rightarrow> run (Some s)
         | Some _ \<Rightarrow> (Inl (TypeError ''Unexpected token bucket state.''), L))"

text \<open>\<open>apply\<close>: \<open>clock_ms\<close> is \<open>int(time.time() * 1000)\<close>, read when \<open>now_ms\<close> is missing or zero.\<close>

definition local_apply ::
  "millis \<Rightarrow> policy \<Rightarrow> request_identity \<Rightarrow> millis option \<Rightarrow> local_limiter \<Rightarrow>
   (py_error + local_decision) \<times> local_limiter" where
  "local_apply clock_ms p i now_ms L =
     (let now_ms = or_int now_ms clock_ms;
          key = build_rate_limit_key p i;
          L1 = evict_expired now_ms L
      in if pol_algorithm p = FIXED_WINDOW then local_fixed_window p key now_ms L1
         else if pol_algorithm p = SLIDING_WINDOW_LOG then local_sliding_window p key now_ms L1
         else local_token_bucket p key now_ms L1)"

section \<open>Well-formed limiters\<close>

text \<open>
  Every dictionary holds values of its own kind. This is what makes the \<open>TypeError\<close>s
  unreachable: no operation stores a value of another kind.
\<close>

definition kinds_ok :: "local_limiter \<Rightarrow> bool" where
  "kinds_ok L \<longleftrightarrow>
     (\<forall>key s. ll_fixed_windows L key = Some s \<longrightarrow> (\<exists>x. st_value s = FixedWindowValue x)) \<and>
     (\<forall>key s. ll_sliding_windows L key = Some s \<longrightarrow> (\<exists>x. st_value s = EventsValue x)) \<and>
     (\<forall>key s. ll_token_buckets L key = Some s \<longrightarrow> (\<exists>x. st_value s = TokenBucketValue x))"

lemma evict_map_Some: "evict_map now b key = Some s \<longleftrightarrow> b key = Some s \<and> now < st_expires_at_ms s"
  by (auto simp: evict_map_def split: option.splits)

lemma evict_expired_simps [simp]:
  "ll_fixed_windows (evict_expired now L) = evict_map now (ll_fixed_windows L)"
  "ll_sliding_windows (evict_expired now L) = evict_map now (ll_sliding_windows L)"
  "ll_token_buckets (evict_expired now L) = evict_map now (ll_token_buckets L)"
  "ll_state_ttl_ms (evict_expired now L) = ll_state_ttl_ms L"
  by (simp_all add: evict_expired_def)

lemma kinds_ok_new [wf_intros]: "kinds_ok (new_limiter ttl)"
  by (simp add: kinds_ok_def new_limiter_def)

lemma kinds_ok_evict [wf_intros]: "kinds_ok L \<Longrightarrow> kinds_ok (evict_expired now L)"
  by (auto simp: kinds_ok_def evict_map_Some)

lemma kinds_ok_fixed: "kinds_ok L \<Longrightarrow> kinds_ok (snd (local_fixed_window p key now L))"
  by (auto simp: local_fixed_window_def kinds_ok_def Let_def split: option.splits stored_value.splits sum.splits)

lemma kinds_ok_sliding: "kinds_ok L \<Longrightarrow> kinds_ok (snd (local_sliding_window p key now L))"
  by (auto simp: local_sliding_window_def kinds_ok_def Let_def split: option.splits stored_value.splits prod.splits)

lemma kinds_ok_token: "kinds_ok L \<Longrightarrow> kinds_ok (snd (local_token_bucket p key now L))"
  by (auto simp: local_token_bucket_def kinds_ok_def Let_def split: option.splits stored_value.splits sum.splits prod.splits)

lemma kinds_ok_apply [wf_intros]: "kinds_ok L \<Longrightarrow> kinds_ok (snd (local_apply clock p i t L))"
  by (simp add: local_apply_def Let_def kinds_ok_fixed kinds_ok_sliding kinds_ok_token kinds_ok_evict)

definition limiter_ok :: "local_limiter \<Rightarrow> bool" where
  "limiter_ok L \<longleftrightarrow> kinds_ok L \<and>
     (\<forall>key s x. ll_fixed_windows L key = Some s \<longrightarrow> st_value s = FixedWindowValue x \<longrightarrow> 0 \<le> fw_count x)"

text \<open>What a decision promises the client.\<close>

definition decision_sound :: "int \<Rightarrow> local_decision \<Rightarrow> bool" where
  "decision_sound limit d \<longleftrightarrow>
     ld_limit d = limit \<and> 0 \<le> ld_remaining d \<and> ld_remaining d \<le> limit \<and>
     (if ld_allowed d then ld_retry_after_seconds d = 0 else 1 \<le> ld_retry_after_seconds d)"

definition result_sound :: "int \<Rightarrow> py_error + local_decision \<Rightarrow> bool" where
  "result_sound limit r = (case r of Inl _ \<Rightarrow> False | Inr d \<Rightarrow> decision_sound limit d)"

lemma limiter_ok_new [wf_intros]: "limiter_ok (new_limiter ttl)"
  by (simp add: limiter_ok_def kinds_ok_new) (simp add: new_limiter_def)

lemma limiter_ok_evict [wf_intros]: "limiter_ok L \<Longrightarrow> limiter_ok (evict_expired now L)"
  by (auto simp: limiter_ok_def evict_map_Some kinds_ok_evict)

lemma limiter_ok_put [wf_intros]:
  "limiter_ok L \<Longrightarrow> 0 \<le> fw_count x \<Longrightarrow>
     limiter_ok (L\<lparr>ll_fixed_windows := (ll_fixed_windows L)(key \<mapsto> \<lparr>st_value = FixedWindowValue x, st_expires_at_ms = e\<rparr>)\<rparr>)"
  "limiter_ok L \<Longrightarrow>
     limiter_ok (L\<lparr>ll_sliding_windows := (ll_sliding_windows L)(key \<mapsto> \<lparr>st_value = EventsValue ev, st_expires_at_ms = e\<rparr>)\<rparr>)"
  "limiter_ok L \<Longrightarrow>
     limiter_ok (L\<lparr>ll_token_buckets := (ll_token_buckets L)(key \<mapsto> \<lparr>st_value = TokenBucketValue b, st_expires_at_ms = e\<rparr>)\<rparr>)"
  by (auto simp: limiter_ok_def kinds_ok_def split: if_splits)

lemma result_soundI:
  assumes "r = Inr (to_decision p c)" "header_limit p = limit" "0 \<le> rc_remaining c" "rc_remaining c \<le> limit"
    and "\<not> rc_allowed c \<Longrightarrow> 0 < rc_retry_after_ms c"
  shows "result_sound limit r"
  using assms by (auto simp: result_sound_def decision_sound_def to_decision_def intro!: ceil_seconds_pos)

lemma fixed_window_sound:
  assumes "policy_ok p" "pol_algorithm p \<noteq> TOKEN_BUCKET" "limiter_ok L" "local_fixed_window p key now L = (r, L')"
  shows "result_sound (header_limit p) r \<and> limiter_ok L'"
proof -
  note p = policy_okD(1,2) [OF assms(1)] and lim = header_limit_rate [OF assms(1,2)]
  obtain st where st: "map_option st_value (ll_fixed_windows L key) = map_option FixedWindowValue st"
    "\<And>x. st = Some x \<Longrightarrow> 0 \<le> fw_count x"
  proof (cases "ll_fixed_windows L key")
    case (Some e)
    then obtain x where "st_value e = FixedWindowValue x" "0 \<le> fw_count x"
      using assms(3) unfolding limiter_ok_def kinds_ok_def by metis
    with Some that [of "Some x"] show ?thesis by simp
  qed (use that [of None] in simp)
  have base: "0 \<le> fw_base (pol_window_seconds p) st now"
    using st(2) by (auto simp: fw_base_def split: option.splits)
  have "\<not> pol_window_seconds p = 0" using p by simp
  note eq = apply_fixed_window_eq [OF this, of now st "pol_rate p"]
  have run: "local_fixed_window p key now L =
      (case apply_fixed_window now st (pol_rate p) (pol_window_seconds p) of
          Inl e \<Rightarrow> (Inl e, L)
        | Inr (s, c) \<Rightarrow> (Inr (to_decision p c),
             L\<lparr>ll_fixed_windows := (ll_fixed_windows L)(key \<mapsto>
                 \<lparr>st_value = FixedWindowValue s, st_expires_at_ms = max (rc_reset_at_ms c) (now + ll_state_ttl_ms L)\<rparr>)\<rparr>))"
    unfolding local_fixed_window_def Let_def st(1) by (cases st) simp_all
  have "0 < window_start (pol_window_seconds p) now + pol_window_seconds p * 1000 - now"
    using window_start_bounds(2) [OF p(2), of now] by simp
  then show ?thesis
    using assms(3,4) base p unfolding run eq Let_def
    by (auto simp: lim intro!: limiter_ok_put result_soundI [OF refl])
qed

lemma sliding_window_sound:
  assumes "policy_ok p" "pol_algorithm p \<noteq> TOKEN_BUCKET" "limiter_ok L" "local_sliding_window p key now L = (r, L')"
  shows "result_sound (header_limit p) r \<and> limiter_ok L'"
proof -
  note p = policy_okD(1,2) [OF assms(1)] and lim = header_limit_rate [OF assms(1,2)]
  let ?w = "pol_window_seconds p"
  obtain ev where ev: "map_option st_value (ll_sliding_windows L key) = None \<and> ev = [] \<or>
    map_option st_value (ll_sliding_windows L key) = Some (EventsValue ev)"
    using assms(3) unfolding limiter_ok_def kinds_ok_def
    by (metis map_option_is_None not_None_eq option.map_sel option.sel option.simps(9))
  have run: "local_sliding_window p key now L =
      (case apply_sliding_window_log now ev (pol_rate p) ?w of
          (s, c) \<Rightarrow> (Inr (to_decision p c),
             L\<lparr>ll_sliding_windows := (ll_sliding_windows L)(key \<mapsto>
                 \<lparr>st_value = EventsValue s, st_expires_at_ms = max (rc_reset_at_ms c) (now + ll_state_ttl_ms L)\<rparr>)\<rparr>))"
    using ev unfolding local_sliding_window_def Let_def by auto
  obtain s c where sc: "apply_sliding_window_log now ev (pol_rate p) ?w = (s, c)" by (rule prod.exhaust)
  have "rc_remaining c \<le> pol_rate p" "0 \<le> rc_remaining c"
    using sc p by (auto simp: apply_sliding_window_log_eq Let_def)
  moreover have "0 < rc_retry_after_ms c" if "\<not> rc_allowed c"
  proof -
    have "recent ?w now ev \<noteq> []" using sc that p by (auto simp: apply_sliding_window_log_eq Let_def)
    moreover have "\<forall>e\<in>set (recent ?w now ev). now - ?w * 1000 < e" by (simp add: recent_def)
    ultimately show ?thesis
      using sc that by (cases "recent ?w now ev") (auto simp: apply_sliding_window_log_eq Let_def split: if_splits)
  qed
  ultimately show ?thesis
    using assms(3,4) unfolding run sc by (auto simp: lim intro!: limiter_ok_put result_soundI [OF refl])
qed

lemma token_bucket_sound:
  assumes "policy_ok p" "header_limit p \<le> 2 ^ 53" "limiter_ok L" "local_token_bucket p key now L = (r, L')"
  shows "result_sound (header_limit p) r \<and> limiter_ok L'"
proof -
  note p = policy_okD(1,2) [OF assms(1)] and cap = header_limit_pos [OF assms(1)]
  let ?cap = "header_limit p" and ?rate = "fl (of_int (pol_rate p) / of_int (pol_window_seconds p))"
  have rate: "to_refill_rate_per_second p = Inr ?rate" "0 < ?rate"
    using p by (simp_all add: to_refill_rate_per_second_def py_div_def)
  have ne: "?rate \<noteq> 0" using rate(2) by (metis less_irrefl)
  obtain st where st: "map_option st_value (ll_token_buckets L key) = map_option TokenBucketValue st"
  proof (cases "ll_token_buckets L key")
    case (Some e)
    then obtain x where "st_value e = TokenBucketValue x"
      using assms(3) unfolding limiter_ok_def kinds_ok_def by metis
    with Some that [of "Some x"] show ?thesis by simp
  qed (use that [of None] in simp)
  obtain s c where sc: "apply_token_bucket now st ?cap ?rate 1 = (s, Inr c)"
    using apply_token_bucket_eq [OF ne, of now st ?cap 1] unfolding Let_def by blast
  have run: "local_token_bucket p key now L =
      (Inr (to_decision p c), L\<lparr>ll_token_buckets := (ll_token_buckets L)(key \<mapsto>
          \<lparr>st_value = TokenBucketValue s, st_expires_at_ms =
             max (now + ms_to_refill (fl (float_of_int ?cap - tb_tokens s)) ?rate + ll_state_ttl_ms L) (now + 1000)\<rparr>)\<rparr>)"
    unfolding local_token_bucket_def Let_def st rate(1) header_limit_def [symmetric]
    by (cases st) (use sc in simp_all)
  let ?s0 = "case st of None \<Rightarrow> \<lparr>tb_tokens = float_of_int ?cap, tb_last_refill_ms = now\<rparr> | Some x \<Rightarrow> x"
  obtain a where a: "a = available_tokens now ?s0 ?cap ?rate" by simp
  have a_le: "a \<le> of_int ?cap" using assms(2) cap by (simp add: a available_tokens_def)
  have c: "rc_allowed c = (1 \<le> a)" "rc_remaining c = max 0 \<lfloor>if 1 \<le> a then fl (a - 1) else a\<rfloor>"
    "rc_retry_after_ms c = (if 1 \<le> a then 0 else ms_to_refill (max 0 (fl (1 - a))) ?rate)"
    using sc unfolding apply_token_bucket_eq [OF ne] Let_def a by (auto split: if_splits)
  have "fl (a - 1) \<le> fl (of_int ?cap)" by (rule fl_mono) (use a_le in simp)
  with a_le have "(if 1 \<le> a then fl (a - 1) else a) \<le> of_int ?cap" using assms(2) cap by (simp add: fl_of_int)
  then have "rc_remaining c \<le> ?cap" "0 \<le> rc_remaining c"
    unfolding c using cap by (simp_all add: floor_le_iff le_less_trans [of _ "of_int ?cap"])
  moreover have "0 < rc_retry_after_ms c" if "\<not> rc_allowed c"
    using that rate(2) unfolding c by (simp add: ms_to_refill_def max_def)
  ultimately show ?thesis
    using assms(3,4) unfolding run by (auto intro!: limiter_ok_put result_soundI [OF refl])
qed

lemma local_apply_sound:
  assumes "policy_ok p" "header_limit p \<le> 2 ^ 53" "limiter_ok L" "local_apply clock p i t L = (r, L')"
  shows "result_sound (header_limit p) r \<and> limiter_ok L'"
proof (cases "pol_algorithm p")
  case FIXED_WINDOW
  with assms(4) show ?thesis
    by (intro fixed_window_sound [OF assms(1) _ limiter_ok_evict [OF assms(3)]]) (auto simp: local_apply_def Let_def)
next
  case SLIDING_WINDOW_LOG
  with assms(4) show ?thesis
    by (intro sliding_window_sound [OF assms(1) _ limiter_ok_evict [OF assms(3)]]) (auto simp: local_apply_def Let_def)
next
  case TOKEN_BUCKET
  with assms(4) show ?thesis
    by (intro token_bucket_sound [OF assms(1,2) limiter_ok_evict [OF assms(3)]]) (auto simp: local_apply_def Let_def)
qed

section \<open>Eviction\<close>

text \<open>
  When may a stored state be forgotten? The interface asks of an algorithm that a state
  whose expiry has come behaves like no state at all (\<open>forget\<close>), and that the expiry an
  operation stores has this effect (\<open>stored\<close>). Under it, a dictionary with evictions at
  arbitrary times answers like one without.
\<close>

definition evict_entry :: "millis \<Rightarrow> ('s \<times> millis) option \<Rightarrow> ('s \<times> millis) option" where
  "evict_entry t en = (case en of None \<Rightarrow> None | Some (s, e) \<Rightarrow> if e \<le> t then None else Some (s, e))"

definition tracks ::
  "('p \<Rightarrow> millis \<Rightarrow> 's option \<Rightarrow> 'r) \<Rightarrow> ('p \<Rightarrow> millis \<Rightarrow> 's \<Rightarrow> millis \<Rightarrow> bool) \<Rightarrow> 'p \<Rightarrow> millis \<Rightarrow>
   ('s \<times> millis) option \<Rightarrow> 's option \<Rightarrow> bool" where
  "tracks step keeps p t0 en pure \<longleftrightarrow>
     (\<forall>s e. en = Some (s, e) \<longrightarrow> (\<exists>t'\<le>t0. keeps p t' s e)) \<and>
     (\<forall>t\<ge>t0. step p t (map_option fst en) = step p t pure)"

locale evicting_store =
  fixes ok :: "'p \<Rightarrow> bool"
    and step :: "'p \<Rightarrow> millis \<Rightarrow> 's option \<Rightarrow> py_error + 's \<times> rate_limit_computation"
    and expiry :: "'p \<Rightarrow> millis \<Rightarrow> rate_limit_computation \<Rightarrow> millis"
    and keeps :: "'p \<Rightarrow> millis \<Rightarrow> 's \<Rightarrow> millis \<Rightarrow> bool"
  assumes stored: "ok p \<Longrightarrow> (\<And>s0. st = Some s0 \<Longrightarrow> \<exists>t0 e0. t0 \<le> t \<and> keeps p t0 s0 e0) \<Longrightarrow>
      step p t st = Inr (s, c) \<Longrightarrow> keeps p t s (expiry p t c)"
    and forget: "ok p \<Longrightarrow> keeps p t0 s e \<Longrightarrow> e \<le> t \<Longrightarrow> step p t (Some s) = step p t None"
begin

lemma tracks_evict:
  assumes "ok p" "tracks step keeps p t0 en pure" "t0 \<le> t"
  shows "tracks step keeps p t (evict_entry t en) pure"
proof (cases "evict_entry t en = en")
  case True
  with assms(2,3) show ?thesis unfolding tracks_def by (metis order_trans)
next
  case False
  then obtain s e where en: "en = Some (s, e)" "e \<le> t" "evict_entry t en = None"
    by (auto simp: evict_entry_def split: option.splits if_splits)
  obtain t' where "keeps p t' s e" using assms(2) en(1) by (auto simp: tracks_def)
  then have "step p u None = step p u pure" if "t \<le> u" for u
    using forget [OF assms(1), of t' s e u] assms(2,3) en that by (auto simp: tracks_def)
  with en(3) show ?thesis by (simp add: tracks_def)
qed

lemma tracks_step:
  assumes "ok p" "tracks step keeps p t en pure" "step p t pure = Inr (s, c)"
  shows "step p t (map_option fst en) = Inr (s, c)" "tracks step keeps p t (Some (s, expiry p t c)) (Some s)"
proof -
  show run: "step p t (map_option fst en) = Inr (s, c)" using assms(2,3) by (simp add: tracks_def)
  have "keeps p t s (expiry p t c)"
    using assms(2) by (intro stored [OF assms(1) _ run]) (fastforce simp: tracks_def)
  then show "tracks step keeps p t (Some (s, expiry p t c)) (Some s)" by (auto simp: tracks_def)
qed

end

text \<open>
  The two windowed algorithms of the limiter; a parameter is the rate, the window in seconds
  and the time to live. The log of a sliding window may be forgotten when the time to live
  covers the window: only then.
\<close>

definition fixed_step :: "int \<times> int \<times> int \<Rightarrow> millis \<Rightarrow> fixed_window_state option \<Rightarrow> py_error + fixed_window_state \<times> rate_limit_computation" where
  "fixed_step q t st = apply_fixed_window t st (fst q) (fst (snd q))"

definition sliding_step :: "int \<times> int \<times> int \<Rightarrow> millis \<Rightarrow> millis list option \<Rightarrow> py_error + millis list \<times> rate_limit_computation" where
  "sliding_step q t st = Inr (apply_sliding_window_log t (case st of None \<Rightarrow> [] | Some ev \<Rightarrow> ev) (fst q) (fst (snd q)))"

definition window_expiry :: "int \<times> int \<times> int \<Rightarrow> millis \<Rightarrow> rate_limit_computation \<Rightarrow> millis" where
  "window_expiry q t c = max (rc_reset_at_ms c) (t + snd (snd q))"

definition fixed_keeps :: "int \<times> int \<times> int \<Rightarrow> millis \<Rightarrow> fixed_window_state \<Rightarrow> millis \<Rightarrow> bool" where
  "fixed_keeps q t s e \<longleftrightarrow> fw_window_start_ms s + fst (snd q) * 1000 \<le> e"

definition sliding_keeps :: "int \<times> int \<times> int \<Rightarrow> millis \<Rightarrow> millis list \<Rightarrow> millis \<Rightarrow> bool" where
  "sliding_keeps q t ev e \<longleftrightarrow> (\<forall>x\<in>set ev. x \<le> t \<and> x + fst (snd q) * 1000 \<le> e)"

interpretation fixed_store: evicting_store "\<lambda>q. 0 < fst (snd q)" fixed_step window_expiry fixed_keeps
proof
  fix p :: "int \<times> int \<times> int" and st t s c
  assume "0 < fst (snd p)" "fixed_step p t st = Inr (s, c)"
  then show "fixed_keeps p t s (window_expiry p t c)"
    by (auto simp: fixed_step_def apply_fixed_window_eq Let_def fixed_keeps_def window_expiry_def)
next
  fix p :: "int \<times> int \<times> int" and t0 s e t
  assume w: "0 < fst (snd p)" and k: "fixed_keeps p t0 s e" "e \<le> t"
  have "fw_window_start_ms s \<noteq> window_start (fst (snd p)) t"
    using window_start_bounds(2) [OF w, of t] k by (auto simp: fixed_keeps_def)
  then show "fixed_step p t (Some s) = fixed_step p t None"
    using w by (simp add: fixed_step_def apply_fixed_window_eq fw_base_def)
qed

interpretation sliding_store: evicting_store "\<lambda>q. 0 < fst (snd q) \<and> fst (snd q) * 1000 \<le> snd (snd q)"
  sliding_step window_expiry sliding_keeps
proof
  fix p :: "int \<times> int \<times> int" and st t s c
  assume p: "0 < fst (snd p) \<and> fst (snd p) * 1000 \<le> snd (snd p)"
    and st: "\<And>s0. st = Some s0 \<Longrightarrow> \<exists>t0 e0. t0 \<le> t \<and> sliding_keeps p t0 s0 e0"
    and run: "sliding_step p t st = Inr (s, c)"
  have "x \<le> t" if "x \<in> set s" for x
    using st run that
    by (fastforce simp: sliding_step_def apply_sliding_window_log_eq Let_def recent_def sliding_keeps_def
        split: option.splits if_splits)
  with p show "sliding_keeps p t s (window_expiry p t c)"
    by (fastforce simp: sliding_keeps_def window_expiry_def)
next
  fix p :: "int \<times> int \<times> int" and t0 s e t
  assume "sliding_keeps p t0 s e" "e \<le> t"
  then have "recent (fst (snd p)) t s = []"
    by (fastforce simp: recent_def sliding_keeps_def filter_empty_conv)
  then show "sliding_step p t (Some s) = sliding_step p t None"
    by (simp add: sliding_step_def apply_sliding_window_log_eq recent_def)
qed

section \<open>Runs of the limiter\<close>

text \<open>
  The requests a degraded instance sees, each with the clock at its arrival, for whatever
  policies; \<open>local_run\<close> lists the verdicts with the keys they are counted under.
\<close>

type_synonym arrival = "policy \<times> request_identity \<times> millis"

definition arrival_key :: "arrival \<Rightarrow> string" where
  "arrival_key a = build_rate_limit_key (fst a) (fst (snd a))"

definition arrival_ms :: "arrival \<Rightarrow> millis" where
  "arrival_ms a = snd (snd a)"

fun local_run :: "local_limiter \<Rightarrow> arrival list \<Rightarrow> (string \<times> millis \<times> bool) list" where
  "local_run L [] = []"
| "local_run L (a # rest) =
     (case local_apply (arrival_ms a) (fst a) (fst (snd a)) None L of
        (Inl _, L') \<Rightarrow> local_run L' rest
      | (Inr d, L') \<Rightarrow> (arrival_key a, arrival_ms a, ld_allowed d) # local_run L' rest)"

definition verdicts_on :: "string \<Rightarrow> (string \<times> millis \<times> bool) list \<Rightarrow> (millis \<times> bool) list" where
  "verdicts_on key vs = map snd (filter (\<lambda>v. fst v = key) vs)"

definition arrivals_on :: "string \<Rightarrow> arrival list \<Rightarrow> millis list" where
  "arrivals_on key rs = map arrival_ms (filter (\<lambda>a. arrival_key a = key) rs)"

text \<open>All requests under the key are for one algorithm, rate and window.\<close>

definition uniform_on :: "string \<Rightarrow> rate_limit_algorithm \<Rightarrow> int \<Rightarrow> int \<Rightarrow> arrival list \<Rightarrow> bool" where
  "uniform_on key alg limit w rs \<longleftrightarrow>
     (\<forall>a\<in>set rs. arrival_key a = key \<longrightarrow>
        pol_algorithm (fst a) = alg \<and> pol_rate (fst a) = limit \<and> pol_window_seconds (fst a) = w)"

definition fixed_entry :: "local_limiter \<Rightarrow> string \<Rightarrow> (fixed_window_state \<times> millis) option" where
  "fixed_entry L key =
     (case ll_fixed_windows L key of
        Some s \<Rightarrow> (case st_value s of FixedWindowValue x \<Rightarrow> Some (x, st_expires_at_ms s) | _ \<Rightarrow> None)
      | None \<Rightarrow> None)"

definition events_entry :: "local_limiter \<Rightarrow> string \<Rightarrow> (millis list \<times> millis) option" where
  "events_entry L key =
     (case ll_sliding_windows L key of
        Some s \<Rightarrow> (case st_value s of EventsValue x \<Rightarrow> Some (x, st_expires_at_ms s) | _ \<Rightarrow> None)
      | None \<Rightarrow> None)"

lemma entries_evict:
  "fixed_entry (evict_expired t L) key = evict_entry t (fixed_entry L key)"
  "events_entry (evict_expired t L) key = evict_entry t (events_entry L key)"
  by (auto simp: fixed_entry_def events_entry_def evict_entry_def evict_map_def
      split: option.splits stored_value.splits)

lemma local_fixed_window_frame [simp]:
  "ll_sliding_windows (snd (local_fixed_window p k t L)) = ll_sliding_windows L"
  "key \<noteq> k \<Longrightarrow> ll_fixed_windows (snd (local_fixed_window p k t L)) key = ll_fixed_windows L key"
  "ll_state_ttl_ms (snd (local_fixed_window p k t L)) = ll_state_ttl_ms L"
  by (simp_all add: local_fixed_window_def Let_def split: option.split stored_value.split sum.split prod.split)

lemma local_sliding_window_frame [simp]:
  "ll_fixed_windows (snd (local_sliding_window p k t L)) = ll_fixed_windows L"
  "key \<noteq> k \<Longrightarrow> ll_sliding_windows (snd (local_sliding_window p k t L)) key = ll_sliding_windows L key"
  "ll_state_ttl_ms (snd (local_sliding_window p k t L)) = ll_state_ttl_ms L"
  by (simp_all add: local_sliding_window_def Let_def split: option.split stored_value.split prod.split)

lemma local_token_bucket_frame [simp]:
  "ll_fixed_windows (snd (local_token_bucket p k t L)) = ll_fixed_windows L"
  "ll_sliding_windows (snd (local_token_bucket p k t L)) = ll_sliding_windows L"
  "ll_state_ttl_ms (snd (local_token_bucket p k t L)) = ll_state_ttl_ms L"
  by (simp_all add: local_token_bucket_def Let_def split: option.split stored_value.split sum.split prod.split)

text \<open>A call on another key, whatever comes of it, only evicts.\<close>

lemma local_apply_frame:
  assumes "build_rate_limit_key p i \<noteq> key"
  shows "fixed_entry (snd (local_apply clock p i None L)) key = evict_entry clock (fixed_entry L key)"
    and "events_entry (snd (local_apply clock p i None L)) key = evict_entry clock (events_entry L key)"
  using assms unfolding entries_evict [symmetric]
  by (simp_all add: local_apply_def Let_def fixed_entry_def events_entry_def)

lemma local_apply_ttl: "ll_state_ttl_ms (snd (local_apply clock p i t L)) = ll_state_ttl_ms L"
  by (simp add: local_apply_def Let_def)

text \<open>A call on the key itself is a step of the algorithm on the entry that eviction left.\<close>

lemma local_apply_fixed:
  assumes "pol_algorithm p = FIXED_WINDOW" "kinds_ok L" "build_rate_limit_key p i = key"
    and "fixed_step (pol_rate p, pol_window_seconds p, ll_state_ttl_ms L) clock
      (map_option fst (evict_entry clock (fixed_entry L key))) = Inr (s, c)"
  shows "\<exists>d L'. local_apply clock p i None L = (Inr d, L') \<and> d = to_decision p c \<and> ld_allowed d = rc_allowed c \<and>
    fixed_entry L' key = Some (s, window_expiry (pol_rate p, pol_window_seconds p, ll_state_ttl_ms L) clock c)"
proof -
  let ?E = "evict_expired clock L"
  have "map_option st_value (ll_fixed_windows ?E key) =
      map_option (\<lambda>en. FixedWindowValue (fst en)) (fixed_entry ?E key)"
    using kinds_ok_evict [OF assms(2), of clock]
    by (force simp: fixed_entry_def kinds_ok_def split: option.splits stored_value.splits)
  with assms(4) show ?thesis
    unfolding local_apply_def local_fixed_window_def Let_def assms(3)
    by (cases "fixed_entry ?E key")
      (auto simp: assms(1) fixed_step_def entries_evict [symmetric] to_decision_def fixed_entry_def [of "_ \<lparr>ll_fixed_windows := _\<rparr>"]
        window_expiry_def)
qed

lemma local_apply_sliding:
  assumes "pol_algorithm p = SLIDING_WINDOW_LOG" "kinds_ok L" "build_rate_limit_key p i = key"
    and "sliding_step (pol_rate p, pol_window_seconds p, ll_state_ttl_ms L) clock
      (map_option fst (evict_entry clock (events_entry L key))) = Inr (s, c)"
  shows "\<exists>d L'. local_apply clock p i None L = (Inr d, L') \<and> d = to_decision p c \<and> ld_allowed d = rc_allowed c \<and>
    events_entry L' key = Some (s, window_expiry (pol_rate p, pol_window_seconds p, ll_state_ttl_ms L) clock c)"
proof -
  let ?E = "evict_expired clock L"
  have "map_option st_value (ll_sliding_windows ?E key) =
      map_option (\<lambda>en. EventsValue (fst en)) (events_entry ?E key)"
    using kinds_ok_evict [OF assms(2), of clock]
    by (force simp: events_entry_def kinds_ok_def split: option.splits stored_value.splits)
  with assms(4) show ?thesis
    unfolding local_apply_def local_sliding_window_def Let_def assms(3)
    by (cases "events_entry ?E key")
      (auto simp: assms(1) sliding_step_def entries_evict [symmetric] to_decision_def
        events_entry_def [of "_ \<lparr>ll_sliding_windows := _\<rparr>"] window_expiry_def)
qed

text \<open>The algorithm on its own, without the dictionary.\<close>

fun pure_run ::
  "('p \<Rightarrow> millis \<Rightarrow> 's option \<Rightarrow> py_error + 's \<times> rate_limit_computation) \<Rightarrow> 'p \<Rightarrow> 's option \<Rightarrow> millis list \<Rightarrow>
   (millis \<times> bool) list" where
  "pure_run step q st [] = []"
| "pure_run step q st (t # ts) =
     (case step q t st of Inl _ \<Rightarrow> [] | Inr (s, c) \<Rightarrow> (t, rc_allowed c) # pure_run step q (Some s) ts)"

lemma pure_run_fixed: "pure_run fixed_step (limit, w, ttl) st ts = fw_run limit w st ts"
  by (induction ts arbitrary: st) (auto simp: fixed_step_def split: sum.split)

lemma pure_run_sliding: "pure_run sliding_step (limit, w, ttl) st ts = sw_run limit w (case st of None \<Rightarrow> [] | Some ev \<Rightarrow> ev) ts"
  by (induction ts arbitrary: st) (auto simp: sliding_step_def split: prod.split)

lemma run_keys_simps [simp]:
  "arrivals_on key [] = []" "verdicts_on key [] = []"
  "arrivals_on key (a # rs) = (if arrival_key a = key then arrival_ms a # arrivals_on key rs else arrivals_on key rs)"
  "verdicts_on key (v # vs) = (if fst v = key then snd v # verdicts_on key vs else verdicts_on key vs)"
  by (simp_all add: arrivals_on_def verdicts_on_def)

lemma uniform_on_Cons:
  "uniform_on key alg limit w (a # rs) \<longleftrightarrow>
     (arrival_key a = key \<longrightarrow> pol_algorithm (fst a) = alg \<and> pol_rate (fst a) = limit \<and> pol_window_seconds (fst a) = w) \<and>
     uniform_on key alg limit w rs"
  by (auto simp: uniform_on_def)

context evicting_store
begin

lemma run_refines:
  assumes "ok q" and total: "\<And>t st. \<exists>s c. step q t st = Inr (s, c)"
    and frame: "\<And>p i t L. build_rate_limit_key p i \<noteq> key \<Longrightarrow>
      entry (snd (local_apply t p i None L)) = evict_entry t (entry L)"
    and hit: "\<And>p i t L s c. pol_algorithm p = alg \<Longrightarrow> pol_rate p = limit \<Longrightarrow> pol_window_seconds p = w \<Longrightarrow>
      kinds_ok L \<Longrightarrow> ll_state_ttl_ms L = ttl \<Longrightarrow> build_rate_limit_key p i = key \<Longrightarrow>
      step q t (map_option fst (evict_entry t (entry L))) = Inr (s, c) \<Longrightarrow>
      \<exists>d L'. local_apply t p i None L = (Inr d, L') \<and> ld_allowed d = rc_allowed c \<and> entry L' = Some (s, expiry q t c)"
  shows "uniform_on key alg limit w rs \<Longrightarrow> sorted (t0 # map arrival_ms rs) \<Longrightarrow> kinds_ok L \<Longrightarrow> ll_state_ttl_ms L = ttl \<Longrightarrow>
    tracks step keeps q t0 (entry L) pure \<Longrightarrow>
    verdicts_on key (local_run L rs) = pure_run step q pure (arrivals_on key rs)"
proof (induction rs arbitrary: L pure t0)
  case (Cons a rs)
  let ?t = "arrival_ms a"
  obtain r L' where run: "local_apply ?t (fst a) (fst (snd a)) None L = (r, L')" by (rule prod.exhaust)
  have L': "kinds_ok L'" "ll_state_ttl_ms L' = ttl"
    using kinds_ok_apply [OF Cons.prems(3)] local_apply_ttl Cons.prems(4) run by (metis snd_conv)+
  have le: "t0 \<le> ?t" and sorted: "sorted (?t # map arrival_ms rs)" using Cons.prems(2) by auto
  note uni = iffD1 [OF uniform_on_Cons Cons.prems(1)]
  note ev = tracks_evict [OF assms(1) Cons.prems(5) le]
  show ?case
  proof (cases "arrival_key a = key")
    case True
    then have key: "build_rate_limit_key (fst a) (fst (snd a)) = key" by (simp add: arrival_key_def)
    obtain s c where sc: "step q ?t pure = Inr (s, c)" using total by blast
    note st = tracks_step [OF assms(1) ev sc]
    from True uni have "pol_algorithm (fst a) = alg" "pol_rate (fst a) = limit" "pol_window_seconds (fst a) = w" by simp_all
    from hit [OF this Cons.prems(3,4) key st(1)] obtain d where
      d: "r = Inr d" "ld_allowed d = rc_allowed c" "entry L' = Some (s, expiry q ?t c)" using run by auto
    have "verdicts_on key (local_run L' rs) = pure_run step q (Some s) (arrivals_on key rs)"
      using uni sorted L' st(2) unfolding d(3) [symmetric] by (intro Cons.IH [of ?t]) auto
    with d(1,2) sc True run show ?thesis by simp
  next
    case False
    then have "entry L' = evict_entry ?t (entry L)"
      using frame [of "fst a" "fst (snd a)" ?t L] run by (simp add: arrival_key_def)
    with ev have "tracks step keeps q ?t (entry L') pure" by simp
    then have "verdicts_on key (local_run L' rs) = pure_run step q pure (arrivals_on key rs)"
      using uni sorted L' by (intro Cons.IH [of ?t]) auto
    with False run show ?thesis by (simp split: sum.split)
  qed
qed simp

end

lemma tracks_new: "tracks step keeps q t0 None None"
  by (simp add: tracks_def)

lemma local_run_fixed:
  assumes "uniform_on key FIXED_WINDOW limit w rs" "0 < w" "sorted (map arrival_ms rs)"
  shows "verdicts_on key (local_run (new_limiter ttl) rs) = fw_run limit w None (arrivals_on key rs)"
proof (cases rs)
  case (Cons a as)
  let ?q = "(limit, w, max 1 ttl * 1000)"
  have "verdicts_on key (local_run (new_limiter ttl) rs) = pure_run fixed_step ?q None (arrivals_on key rs)"
  proof (rule fixed_store.run_refines [where entry = "\<lambda>L. fixed_entry L key", OF _ _ _ _ assms(1)])
    show "\<exists>s c. fixed_step ?q t st = Inr (s, c)" for t st
      using assms(2) by (simp add: fixed_step_def apply_fixed_window_eq Let_def)
    show "sorted (arrival_ms a # map arrival_ms rs)" using assms(3) Cons by simp
    show "tracks fixed_step fixed_keeps ?q (arrival_ms a) (fixed_entry (new_limiter ttl) key) None"
      by (simp add: fixed_entry_def new_limiter_def tracks_new)
    show "\<exists>d L'. local_apply t p i None L = (Inr d, L') \<and> ld_allowed d = rc_allowed c \<and>
        fixed_entry L' key = Some (s, window_expiry ?q t c)"
      if "pol_algorithm p = FIXED_WINDOW" "pol_rate p = limit" "pol_window_seconds p = w" "kinds_ok L"
        "ll_state_ttl_ms L = max 1 ttl * 1000" "build_rate_limit_key p i = key"
        "fixed_step ?q t (map_option fst (evict_entry t (fixed_entry L key))) = Inr (s, c)" for p i t L s c
      using local_apply_fixed [of p L i key t s c] that by auto
    show "fixed_entry (snd (local_apply t p i None L)) key = evict_entry t (fixed_entry L key)"
      if "build_rate_limit_key p i \<noteq> key" for p i t L
      using that by (rule local_apply_frame)
    show "kinds_ok (new_limiter ttl)" by (rule kinds_ok_new)
    show "ll_state_ttl_ms (new_limiter ttl) = max 1 ttl * 1000" by (simp add: new_limiter_def)
  qed (use assms in simp_all)
  then show ?thesis by (simp add: pure_run_fixed)
qed simp

lemma local_run_sliding:
  assumes "uniform_on key SLIDING_WINDOW_LOG limit w rs" "0 < w" "w \<le> ttl" "sorted (map arrival_ms rs)"
  shows "verdicts_on key (local_run (new_limiter ttl) rs) = sw_run limit w [] (arrivals_on key rs)"
proof (cases rs)
  case (Cons a as)
  let ?q = "(limit, w, max 1 ttl * 1000)"
  have "verdicts_on key (local_run (new_limiter ttl) rs) = pure_run sliding_step ?q None (arrivals_on key rs)"
  proof (rule sliding_store.run_refines [where entry = "\<lambda>L. events_entry L key", OF _ _ _ _ assms(1)])
    show "\<exists>s c. sliding_step ?q t st = Inr (s, c)" for t st
      by (simp add: sliding_step_def apply_sliding_window_log_eq Let_def)
    show "sorted (arrival_ms a # map arrival_ms rs)" using assms(4) Cons by simp
    show "tracks sliding_step sliding_keeps ?q (arrival_ms a) (events_entry (new_limiter ttl) key) None"
      by (simp add: events_entry_def new_limiter_def tracks_new)
    show "\<exists>d L'. local_apply t p i None L = (Inr d, L') \<and> ld_allowed d = rc_allowed c \<and>
        events_entry L' key = Some (s, window_expiry ?q t c)"
      if "pol_algorithm p = SLIDING_WINDOW_LOG" "pol_rate p = limit" "pol_window_seconds p = w" "kinds_ok L"
        "ll_state_ttl_ms L = max 1 ttl * 1000" "build_rate_limit_key p i = key"
        "sliding_step ?q t (map_option fst (evict_entry t (events_entry L key))) = Inr (s, c)" for p i t L s c
      using local_apply_sliding [of p L i key t s c] that by auto
    show "events_entry (snd (local_apply t p i None L)) key = evict_entry t (events_entry L key)"
      if "build_rate_limit_key p i \<noteq> key" for p i t L
      using that by (rule local_apply_frame)
    show "kinds_ok (new_limiter ttl)" by (rule kinds_ok_new)
    show "ll_state_ttl_ms (new_limiter ttl) = max 1 ttl * 1000" by (simp add: new_limiter_def)
  qed (use assms in simp_all)
  then show ?thesis by (simp add: pure_run_sliding)
qed simp

section \<open>Properties\<close>

text \<open>
  C26. Every call of the local limiter under a valid policy produces a decision: no
  \<open>TypeError\<close> and no division by zero is reachable, the advertised limit is the policy's, the
  remaining quota lies between 0 and the limit, an allowed request need not wait and a
  refused one waits at least a second; and the limiter stays well-formed.
\<close>

theorem local_decision_always_sound:
  assumes "policy_ok p" "header_limit p \<le> 2 ^ 53" "limiter_ok L"
  shows "result_sound (header_limit p) (fst (local_apply clock p i now_ms L)) \<and>
    limiter_ok (snd (local_apply clock p i now_ms L))"
  by (rule local_apply_sound [OF assms]) simp

theorem local_decision_always_sound_witness:
  "policy_ok example_policy \<and> result_sound 15 (fst (local_apply 5 example_policy example_identity None (new_limiter 120)))"
  using local_decision_always_sound [of example_policy "new_limiter 120" 5 example_identity None]
  by (simp add: limiter_ok_new header_limit_def or_int_def) (simp add: example_policy_def)

text \<open>
  C18. Eviction does not break the local fixed window: on one instance, for any mix of
  requests under any policies with a clock that does not go back, exactly \<open>min limit n\<close> of the
  \<open>n\<close> requests counted under a key are allowed in each window, whatever the time to live.
\<close>

theorem local_fixed_window_bound:
  assumes "uniform_on key FIXED_WINDOW limit w rs" "0 < w" "0 \<le> limit" "sorted (map arrival_ms rs)"
  shows "int (in_window w e (admitted (verdicts_on key (local_run (new_limiter ttl) rs)))) =
    min limit (int (in_window w e (arrivals_on key rs)))"
proof -
  have "sorted (arrivals_on key rs)" using assms(4) by (simp add: arrivals_on_def sorted_map sorted_wrt_filter)
  from fw_run_counts [OF assms(2) this, of None limit e] assms(3)
  show ?thesis by (simp add: local_run_fixed [OF assms(1,2,4)])
qed

definition windowed_policy :: "rate_limit_algorithm \<Rightarrow> int \<Rightarrow> int \<Rightarrow> policy" where
  "windowed_policy alg limit w =
     example_policy\<lparr>pol_algorithm := alg, pol_rate := limit, pol_window_seconds := w, pol_burst_capacity := None\<rparr>"

lemma windowed_policy_simps [simp]:
  "pol_algorithm (windowed_policy alg limit w) = alg"
  "pol_rate (windowed_policy alg limit w) = limit"
  "pol_window_seconds (windowed_policy alg limit w) = w"
  by (simp_all add: windowed_policy_def)

definition example_arrivals :: "rate_limit_algorithm \<Rightarrow> int \<Rightarrow> int \<Rightarrow> millis list \<Rightarrow> arrival list" where
  "example_arrivals alg limit w ts =
     map (\<lambda>t. (windowed_policy alg limit w, example_identity, t)) ts"

definition example_key :: "rate_limit_algorithm \<Rightarrow> string" where
  "example_key alg = build_rate_limit_key (example_policy\<lparr>pol_algorithm := alg\<rparr>) example_identity"

lemma example_key_eq:
  "build_rate_limit_key (windowed_policy alg limit w) example_identity = example_key alg"
  by (simp add: example_key_def build_rate_limit_key_def key_segments_def windowed_policy_def example_policy_def)

lemma example_arrivals [simp]:
  "uniform_on (example_key alg) alg limit w (example_arrivals alg limit w ts)"
  "arrivals_on (example_key alg) (example_arrivals alg limit w ts) = ts"
  "map arrival_ms (example_arrivals alg limit w ts) = ts"
proof -
  have "arrival_key (windowed_policy alg limit w, example_identity, t) = example_key alg" for t
    by (simp add: arrival_key_def example_key_eq)
  then show "uniform_on (example_key alg) alg limit w (example_arrivals alg limit w ts)"
    "arrivals_on (example_key alg) (example_arrivals alg limit w ts) = ts"
    "map arrival_ms (example_arrivals alg limit w ts) = ts"
    by (induction ts) (auto simp: example_arrivals_def uniform_on_def arrivals_on_def arrival_ms_def)
qed

theorem local_fixed_window_bound_witness:
  "int (in_window 60 0 (admitted (verdicts_on (example_key FIXED_WINDOW)
     (local_run (new_limiter 1) (example_arrivals FIXED_WINDOW 2 60 [1000, 2000, 59500, 61000]))))) = 2"
  using local_fixed_window_bound [of "example_key FIXED_WINDOW" 2 60 "example_arrivals FIXED_WINDOW 2 60 [1000, 2000, 59500, 61000]" 0 1]
  by (simp add: window_start_def)

text \<open>
  C17. The local sliding window keeps its promise when the time to live covers the window:
  then, with evictions and any other traffic, at most \<open>limit\<close> requests under a key are allowed
  in any stretch of \<open>window_seconds\<close>.
\<close>

theorem local_sliding_window_bound:
  assumes "uniform_on key SLIDING_WINDOW_LOG limit w rs" "0 < w" "0 \<le> limit" "w \<le> ttl" "sorted (map arrival_ms rs)"
  shows "window_bounded limit w (admitted (verdicts_on key (local_run (new_limiter ttl) rs)))"
proof -
  have sorted: "sorted (arrivals_on key rs)" using assms(5) by (simp add: arrivals_on_def sorted_map sorted_wrt_filter)
  have "sw_run limit w [] (arrivals_on key rs) = sw_spec limit w [] (arrivals_on key rs)"
    by (rule sw_run_eq_spec [OF sorted]) simp
  then show ?thesis
    using sw_spec_bounded [of limit w "[]" "arrivals_on key rs"] assms(3)
    by (simp add: local_run_sliding [OF assms(1,2,4,5)] window_bounded_def)
qed

theorem local_sliding_window_bound_witness:
  "window_bounded 2 60 (admitted (verdicts_on (example_key SLIDING_WINDOW_LOG)
     (local_run (new_limiter 120) (example_arrivals SLIDING_WINDOW_LOG 2 60 [1000, 2000, 3000, 61500]))))"
  by (rule local_sliding_window_bound) simp_all

text \<open>
  It does not keep it when the time to live is shorter than the window: eviction then
  forgets requests that still count. Two requests per hour, the default time to live of 120
  seconds: after a request at second 1 and one at second 3500 the log expires at second
  3620, with the second request still active, and two more requests are let through at once;
  three of the four lie within two minutes.
\<close>

theorem local_sliding_window_forgets:
  "admitted (verdicts_on (example_key SLIDING_WINDOW_LOG)
     (local_run (new_limiter 120) (example_arrivals SLIDING_WINDOW_LOG 2 3600 [1000, 3500000, 3620000, 3620000]))) =
   [1000, 3500000, 3620000, 3620000] \<and>
   \<not> window_bounded 2 3600 [1000, 3500000, 3620000, 3620000]"
proof
  show "admitted (verdicts_on (example_key SLIDING_WINDOW_LOG)
     (local_run (new_limiter 120) (example_arrivals SLIDING_WINDOW_LOG 2 3600 [1000, 3500000, 3620000, 3620000]))) =
   [1000, 3500000, 3620000, 3620000]"
    by (simp add: example_arrivals_def local_apply_def Let_def example_key_eq arrival_key_def arrival_ms_def
        local_sliding_window_def evict_map_def new_limiter_def apply_sliding_window_log_def to_decision_def)
  show "\<not> window_bounded 2 3600 [1000, 3500000, 3620000, 3620000]"
    by (auto simp: window_bounded_def intro!: exI [of _ 20000])
qed

end
