(* ===== verification/Policy_Matcher.thy ===== *)
theory Policy_Matcher
  imports Key_Builder
begin

text \<open>
  \<open>app/services/policy_matcher.py\<close>: which policies apply to an identity, how they are
  ranked, and which one wins. The score is a tuple compared lexicographically, which is the
  order HOL-Library.Product_Lexorder puts on products.
\<close>

section \<open>Matching and scoring\<close>

definition selector_ok :: "string option \<Rightarrow> string option \<Rightarrow> bool" where
  "selector_ok sel v \<longleftrightarrow> \<not> (sel \<noteq> None \<and> sel \<noteq> v)"

definition policy_matches :: "policy \<Rightarrow> request_identity \<Rightarrow> bool" where
  "policy_matches p i =
     (if \<not> selector_ok (pol_route p) (Some (id_route i)) then False
      else if \<not> selector_ok (pol_user_id p) (id_user_id i) then False
      else if \<not> selector_ok (pol_ip_address p) (id_ip_address i) then False
      else if \<not> selector_ok (pol_tenant_id p) (id_tenant_id i) then False
      else if \<not> selector_ok (pol_api_key p) (id_api_key i) then False
      else True)"

definition specificity :: "policy \<Rightarrow> int" where
  "specificity p =
     sum_list (map (\<lambda>v. if v \<noteq> None then 1 else 0)
       [pol_route p, pol_user_id p, pol_ip_address p, pol_tenant_id p, pol_api_key p])"

definition selector_weight :: "policy \<Rightarrow> int" where
  "selector_weight p =
     (if pol_user_id p \<noteq> None then 20 else 0) + (if pol_api_key p \<noteq> None then 18 else 0) +
     (if pol_tenant_id p \<noteq> None then 16 else 0) + (if pol_ip_address p \<noteq> None then 14 else 0) +
     (if pol_route p \<noteq> None then 12 else 0)"

definition policy_score :: "policy \<Rightarrow> int \<times> int \<times> int \<times> int" where
  "policy_score p = (specificity p, selector_weight p, pol_priority p, pol_version p)"

section \<open>Selection\<close>

text \<open>\<open>max(xs, key=f)\<close> on a non-empty list: the first element of maximal key.\<close>

fun max_by :: "('a \<Rightarrow> 'k::linorder) \<Rightarrow> 'a \<Rightarrow> 'a list \<Rightarrow> 'a" where
  "max_by f best [] = best"
| "max_by f best (x # xs) = max_by f (if f best < f x then x else best) xs"

definition matching_policies :: "policy list \<Rightarrow> request_identity \<Rightarrow> policy list" where
  "matching_policies ps i = filter (\<lambda>p. pol_active p \<and> policy_matches p i) ps"

definition select_best_policy :: "policy list \<Rightarrow> request_identity \<Rightarrow> policy option" where
  "select_best_policy ps i =
     (case matching_policies ps i of [] \<Rightarrow> None | p # qs \<Rightarrow> Some (max_by policy_score p qs))"

section \<open>Lemmas\<close>

lemma policy_matches_iff:
  "policy_matches p i \<longleftrightarrow>
     selector_ok (pol_route p) (Some (id_route i)) \<and> selector_ok (pol_user_id p) (id_user_id i) \<and>
     selector_ok (pol_ip_address p) (id_ip_address i) \<and>
     selector_ok (pol_tenant_id p) (id_tenant_id i) \<and> selector_ok (pol_api_key p) (id_api_key i)"
  by (simp add: policy_matches_def)

lemma selector_ok_simps [simp]:
  "selector_ok None v"
  "selector_ok (Some s) v \<longleftrightarrow> v = Some s"
  by (auto simp: selector_ok_def)

lemma max_by_in: "max_by f b xs \<in> insert b (set xs)"
  by (induction xs arbitrary: b) auto

lemma max_by_ge: "x \<in> insert b (set xs) \<Longrightarrow> f x \<le> f (max_by f b xs)"
proof (induction xs arbitrary: b x)
  case (Cons y ys)
  let ?b = "if f b < f y then y else b"
  have "f b \<le> f ?b" "f y \<le> f ?b" by auto
  moreover have "f ?b \<le> f (max_by f ?b ys)" by (rule Cons.IH) simp
  ultimately have "f b \<le> f (max_by f ?b ys)" "f y \<le> f (max_by f ?b ys)" by (blast intro: order_trans)+
  with Cons show ?case by auto
qed simp

text \<open>The element \<open>max_by\<close> returns is the first one of its key in the list.\<close>

lemma max_by_first:
  "find (\<lambda>x. f x = f (max_by f b xs)) (b # xs) = Some (max_by f b xs)"
proof (induction xs arbitrary: b)
  case (Cons y ys)
  show ?case
  proof (cases "f b < f y")
    case True
    have "f y \<le> f (max_by f y ys)" by (rule max_by_ge) simp
    with True have "(f b = f (max_by f y ys)) = False" by auto
    then have "find (\<lambda>x. f x = f (max_by f y ys)) (b # y # ys) = Some (max_by f y ys)"
      by (subst find.simps(2)) (simp only: if_False Cons.IH)
    with True show ?thesis by (simp only: max_by.simps if_True)
  next
    case False
    let ?m = "max_by f b ys"
    have "find (\<lambda>x. f x = f ?m) (b # y # ys) = Some ?m"
    proof (cases "f b = f ?m")
      case True
      then have "Some b = Some ?m" using Cons.IH [of b] by (simp only: find.simps if_True simp_thms)
      with True show ?thesis by (simp only: find.simps if_True simp_thms)
    next
      case neq: False
      have "f b \<le> f ?m" by (rule max_by_ge) simp
      with neq False have "(f y = f ?m) = False" by auto
      moreover have "find (\<lambda>x. f x = f ?m) ys = Some ?m"
        using Cons.IH [of b] neq by (simp only: find.simps if_False)
      ultimately show ?thesis using neq by (simp only: find.simps if_False)
    qed
    with False show ?thesis by (simp only: max_by.simps if_False)
  qed
qed simp

lemma select_best_SomeD:
  assumes "select_best_policy ps i = Some p"
  shows "p \<in> set ps" "pol_active p" "policy_matches p i"
    "q \<in> set ps \<Longrightarrow> pol_active q \<Longrightarrow> policy_matches q i \<Longrightarrow> policy_score q \<le> policy_score p"
proof -
  obtain r rs where m: "matching_policies ps i = r # rs" and p: "p = max_by policy_score r rs"
    using assms by (auto simp: select_best_policy_def split: list.splits)
  have "insert r (set rs) = set (matching_policies ps i)" by (simp add: m)
  then have mem: "x \<in> insert r (set rs) \<longleftrightarrow> x \<in> set ps \<and> pol_active x \<and> policy_matches x i" for x
    by (simp add: matching_policies_def)
  have "p \<in> insert r (set rs)" unfolding p by (rule max_by_in)
  then have "p \<in> set ps \<and> pol_active p \<and> policy_matches p i" by (rule iffD1 [OF mem])
  then show "p \<in> set ps" "pol_active p" "policy_matches p i" by simp_all
  assume "q \<in> set ps" "pol_active q" "policy_matches q i"
  then have "q \<in> insert r (set rs)" by (simp only: mem simp_thms)
  then show "policy_score q \<le> policy_score p" unfolding p by (rule max_by_ge)
qed

lemma select_best_None_iff:
  "select_best_policy ps i = None \<longleftrightarrow> (\<forall>p\<in>set ps. \<not> (pol_active p \<and> policy_matches p i))"
proof -
  have "select_best_policy ps i = None \<longleftrightarrow> matching_policies ps i = []"
    by (simp add: select_best_policy_def split: list.split)
  then show ?thesis by (auto simp: matching_policies_def filter_empty_conv)
qed

lemma find_filter: "find P (filter Q xs) = find (\<lambda>x. Q x \<and> P x) xs"
  by (induction xs) auto

lemma selector_value:
  "selector_ok sel v \<Longrightarrow> sel \<noteq> None \<Longrightarrow> or_str v sel = sel"
  by auto

text \<open>A matching identity carries the policy's own selector values, so the key has no other.\<close>

lemma key_segments_matching:
  assumes "policy_matches p i"
  shows "key_segments p i =
     [''rl'', algorithm_str (pol_algorithm p), uuid_str (pol_id p), ''v'' @ int_str (pol_version p)] @
     (case pol_route p of None \<Rightarrow> [] | Some s \<Rightarrow> [''route='' @ s]) @
     (case pol_user_id p of None \<Rightarrow> [] | Some s \<Rightarrow> [''user='' @ s]) @
     (case pol_ip_address p of None \<Rightarrow> [] | Some s \<Rightarrow> [''ip='' @ s]) @
     (case pol_tenant_id p of None \<Rightarrow> [] | Some s \<Rightarrow> [''tenant='' @ s]) @
     (case pol_api_key p of None \<Rightarrow> [] | Some s \<Rightarrow> [''api_key='' @ s])"
  using assms
  by (auto simp: key_segments_def policy_matches_iff selector_value fmt_def split: option.splits)

section \<open>Properties\<close>

lemma example_matches [simp]: "policy_matches example_policy (example_identity\<lparr>id_user_id := u\<rparr>)"
  by (simp add: policy_matches_iff example_policy_def example_identity_def)

text \<open>
  C27. \<open>select_best_policy\<close> returns nothing exactly when no active policy matches; otherwise
  it returns a policy of the list that is active and matches, whose score is the largest of
  all candidates, and which is the first candidate of that score in the list's order.
\<close>

theorem select_best_policy_correct:
  "case select_best_policy ps i of
     None \<Rightarrow> \<forall>p\<in>set ps. \<not> (pol_active p \<and> policy_matches p i)
   | Some p \<Rightarrow>
       p \<in> set ps \<and> pol_active p \<and> policy_matches p i \<and>
       (\<forall>q\<in>set ps. pol_active q \<and> policy_matches q i \<longrightarrow> policy_score q \<le> policy_score p) \<and>
       find (\<lambda>q. (pol_active q \<and> policy_matches q i) \<and> policy_score q = policy_score p) ps = Some p"
proof (cases "select_best_policy ps i")
  case None
  then have "\<forall>p\<in>set ps. \<not> (pol_active p \<and> policy_matches p i)" by (rule iffD1 [OF select_best_None_iff])
  then show ?thesis unfolding None by (simp only: option.case)
next
  case (Some p)
  then obtain r rs where m: "matching_policies ps i = r # rs" and p: "p = max_by policy_score r rs"
    by (auto simp: select_best_policy_def split: list.splits)
  have "find (\<lambda>q. policy_score q = policy_score p) (matching_policies ps i) = Some p"
    unfolding m p by (rule max_by_first)
  then have "find (\<lambda>q. (pol_active q \<and> policy_matches q i) \<and> policy_score q = policy_score p) ps = Some p"
    by (simp only: matching_policies_def find_filter)
  with Some select_best_SomeD [OF Some] show ?thesis by auto
qed

theorem select_best_policy_correct_witness:
  "select_best_policy [example_policy, example_policy\<lparr>pol_user_id := Some ''alice''\<rparr>] example_identity =
     Some (example_policy\<lparr>pol_user_id := Some ''alice''\<rparr>) \<and>
   policy_score example_policy \<le> policy_score (example_policy\<lparr>pol_user_id := Some ''alice''\<rparr>)"
proof -
  let ?ps = "[example_policy, example_policy\<lparr>pol_user_id := Some ''alice''\<rparr>]"
  have sel: "select_best_policy ?ps example_identity = Some (example_policy\<lparr>pol_user_id := Some ''alice''\<rparr>)"
    by code_simp
  have "policy_matches example_policy example_identity" "pol_active example_policy"
    using example_matches [of "Some ''alice''"] by (simp_all add: example_identity_def example_policy_def)
  then show ?thesis using select_best_policy_correct [of ?ps example_identity] sel by simp
qed

text \<open>
  A more specific policy always wins: when the winner is \<open>p\<close>, no active matching policy
  constrains more of the five selectors than \<open>p\<close> does, and among those that constrain as
  many, none has a heavier combination of selectors.
\<close>

theorem specificity_dominates:
  assumes "select_best_policy ps i = Some p" "q \<in> set ps" "pol_active q" "policy_matches q i"
  shows "specificity q \<le> specificity p \<and>
    (specificity q = specificity p \<longrightarrow> selector_weight q \<le> selector_weight p)"
  using select_best_SomeD(4) [OF assms] by (auto simp: policy_score_def less_eq_prod_def less_prod_def)

theorem specificity_dominates_witness:
  "specificity example_policy \<le> specificity (example_policy\<lparr>pol_user_id := Some ''alice''\<rparr>)"
proof -
  have sel: "select_best_policy [example_policy, example_policy\<lparr>pol_user_id := Some ''alice''\<rparr>] example_identity =
      Some (example_policy\<lparr>pol_user_id := Some ''alice''\<rparr>)" by code_simp
  have "policy_matches example_policy example_identity" "pol_active example_policy"
    using example_matches [of "Some ''alice''"] by (simp_all add: example_identity_def example_policy_def)
  then show ?thesis using specificity_dominates [OF sel, of example_policy] by simp
qed

text \<open>
  One policy version has one bucket: every two identities a policy matches are counted
  under the same Redis key. A route policy without a user or IP selector is therefore one
  quota shared by all its callers, not a quota per caller.
\<close>

theorem matching_identities_share_bucket:
  assumes "policy_matches p i" "policy_matches p j"
  shows "build_rate_limit_key p i = build_rate_limit_key p j"
  unfolding build_rate_limit_key_def
  by (simp only: key_segments_matching [OF assms(1)] key_segments_matching [OF assms(2)])

theorem matching_identities_share_bucket_witness:
  "build_rate_limit_key example_policy (example_identity\<lparr>id_user_id := Some ''alice''\<rparr>) =
   build_rate_limit_key example_policy (example_identity\<lparr>id_user_id := Some ''bob''\<rparr>)"
  by (rule matching_identities_share_bucket) simp_all

end
