(* ===== verification/Policy_Service.thy ===== *)
theory Policy_Service
  imports Runtime Policy_Matcher
begin

text \<open>
  \<open>app/services/policy_service.py\<close>: the administration of policies in the database, the
  cache of active policies in Redis with the snapshot behind it, and the resolution of the
  policy of a request.

  A method that writes flushes and commits in one step of the database interface; a method
  that raises leaves the session to be rolled back, so the database is unchanged.
\<close>

section \<open>Reading policies\<close>

text \<open>\<open>PolicyRead.model_validate(row)\<close>, and the list comprehension over it.\<close>

definition read_policy :: "policy \<Rightarrow> app_error + policy" where
  "read_policy p = (case validate_policy p of Inl e \<Rightarrow> Inl (PolicyValidationError e) | Inr q \<Rightarrow> Inr q)"

fun read_policies :: "policy list \<Rightarrow> app_error + policy list" where
  "read_policies [] = Inr []"
| "read_policies (p # ps) =
     (case read_policy p of
        Inl e \<Rightarrow> Inl e
      | Inr q \<Rightarrow> (case read_policies ps of Inl e \<Rightarrow> Inl e | Inr qs \<Rightarrow> Inr (q # qs)))"

definition order_key :: "'d database \<Rightarrow> policy \<Rightarrow> int \<times> int \<times> int" where
  "order_key D p = (- pol_priority p, - pol_updated_at p, db_name_rank D (pol_name p))"

definition list_policies :: "('d, 'k) inst \<Rightarrow> bool \<Rightarrow> 'd \<Rightarrow> app_error + policy list" where
  "list_policies I active_only d =
     (case db_select (i_db I) d of
        Inl e \<Rightarrow> Inl (DatabaseError e)
      | Inr rows \<Rightarrow>
          read_policies (sort_key (order_key (i_db I)) (if active_only then filter pol_active rows else rows)))"

definition get_policy :: "('d, 'k) inst \<Rightarrow> uuid \<Rightarrow> 'd \<Rightarrow> app_error + policy" where
  "get_policy I i d =
     (case db_get (i_db I) i d of
        Inl e \<Rightarrow> Inl (DatabaseError e)
      | Inr None \<Rightarrow> Inl (PolicyNotFoundError (uuid_str i))
      | Inr (Some p) \<Rightarrow> read_policy p)"

section \<open>Invalidation\<close>

definition quote :: "string \<Rightarrow> string" where
  "quote s = CHR 0x22 # s @ [CHR 0x22]"

text \<open>\<open>json.dumps({"reason": reason, "policy_id": policy_id})\<close> for texts without escapes.\<close>

definition refresh_payload :: "string \<Rightarrow> string \<Rightarrow> string" where
  "refresh_payload reason policy_id =
     ''{'' @ quote ''reason'' @ '': '' @ quote reason @ '', '' @ quote ''policy_id'' @ '': '' @ quote policy_id @ ''}''"

text \<open>The message reaches the subscribers when the command reaches the server.\<close>

definition redis_publish ::
  "('d, 'k) inst \<Rightarrow> string \<Rightarrow> string \<Rightarrow> ('d, 'k) world \<Rightarrow> (redis_error + unit) \<times> ('d, 'k) world" where
  "redis_publish I channel message w =
     (case redis_call I (\<lambda>k. (Inr (), k)) w of
        (r, w1) \<Rightarrow>
          (r, if env_fault (i_env I) (w_tick w) = RequestLost then w1 else emit [Published channel message] w1))"

definition redis_delete :: "('d, 'k) inst \<Rightarrow> string \<Rightarrow> ('d, 'k) world \<Rightarrow> (redis_error + unit) \<times> ('d, 'k) world" where
  "redis_delete I key w = redis_call I (\<lambda>k. (Inr (), cc_del (i_cache I) key k)) w"

definition invalidate_failed :: "('d, 'k) world \<Rightarrow> ('d, 'k) world" where
  "invalidate_failed w = emit [mark_redis_error ''policy_cache_invalidate'', Log WARNING ''redis_fallback''] w"

definition invalidate_policy_cache ::
  "('d, 'k) inst \<Rightarrow> string \<Rightarrow> string \<Rightarrow> ('d, 'k) world \<Rightarrow> ('d, 'k) world" where
  "invalidate_policy_cache I reason policy_id w =
     (let S = i_settings I; w0 = snapshot_clear w
      in case redis_delete I (policy_cache_key S) w0 of
           (Inl _, w1) \<Rightarrow> invalidate_failed w1
         | (Inr _, w1) \<Rightarrow>
             if set_enable_policy_pubsub S then
               (case redis_publish I (set_policy_refresh_channel S) (refresh_payload reason policy_id) w1 of
                  (Inl _, w2) \<Rightarrow> invalidate_failed w2
                | (Inr _, w2) \<Rightarrow> emit [Log INFO ''policy_cache_invalidated''] w2)
             else emit [Log INFO ''policy_cache_invalidated''] w1)"

section \<open>Writing policies\<close>

definition create_policy ::
  "('d, 'k) inst \<Rightarrow> policy_base \<Rightarrow> ('d, 'k) world \<Rightarrow> (app_error + policy) \<times> ('d, 'k) world" where
  "create_policy I b w =
     (case db_insert (i_db I) b (w_db w) of
        Inl e \<Rightarrow> (Inl (DatabaseError e), w)
      | Inr (q, d) \<Rightarrow>
          (read_policy q, invalidate_policy_cache I ''create'' (uuid_str (pol_id q)) (w\<lparr>w_db := d\<rparr>)))"

text \<open>
  \<open>setattr\<close> for every field of \<open>update_data\<close>. A null for a column that has none never gets
  here: the merged payload was validated before.
\<close>

definition set_req :: "'a option option \<Rightarrow> 'a \<Rightarrow> 'a" where
  "set_req u old = (case u of Some (Some v) \<Rightarrow> v | _ \<Rightarrow> old)"

definition set_fields :: "policy_update \<Rightarrow> policy \<Rightarrow> policy" where
  "set_fields u p =
     p\<lparr>pol_name := set_req (upd_name u) (pol_name p),
       pol_description := set_or (upd_description u) (pol_description p),
       pol_algorithm := set_req (upd_algorithm u) (pol_algorithm p),
       pol_rate := set_req (upd_rate u) (pol_rate p),
       pol_window_seconds := set_req (upd_window_seconds u) (pol_window_seconds p),
       pol_burst_capacity := set_or (upd_burst_capacity u) (pol_burst_capacity p),
       pol_active := set_req (upd_active u) (pol_active p),
       pol_priority := set_req (upd_priority u) (pol_priority p),
       pol_route := set_or (upd_route u) (pol_route p),
       pol_user_id := set_or (upd_user_id u) (pol_user_id p),
       pol_ip_address := set_or (upd_ip_address u) (pol_ip_address p),
       pol_tenant_id := set_or (upd_tenant_id u) (pol_tenant_id p),
       pol_api_key := set_or (upd_api_key u) (pol_api_key p),
       pol_failure_mode := set_req (upd_failure_mode u) (pol_failure_mode p)\<rparr>"

definition update_policy ::
  "('d, 'k) inst \<Rightarrow> uuid \<Rightarrow> policy_update \<Rightarrow> ('d, 'k) world \<Rightarrow> (app_error + policy) \<times> ('d, 'k) world" where
  "update_policy I i u w =
     (case db_get (i_db I) i (w_db w) of
        Inl e \<Rightarrow> (Inl (DatabaseError e), w)
      | Inr None \<Rightarrow> (Inl (PolicyNotFoundError (uuid_str i)), w)
      | Inr (Some p) \<Rightarrow>
          if \<not> update_nonempty u then (read_policy p, w)
          else
            (case policy_create (dict_update (to_policy_payload p) u) of
               Inl e \<Rightarrow> (Inl (PolicyValidationError e), w)
             | Inr _ \<Rightarrow>
                 let q = set_fields u p; q = q\<lparr>pol_version := pol_version q + 1\<rparr>
                 in (case db_update (i_db I) q (w_db w) of
                       Inl e \<Rightarrow> (Inl (DatabaseError e), w)
                     | Inr (q', d) \<Rightarrow>
                         (read_policy q', invalidate_policy_cache I ''update'' (uuid_str (pol_id q')) (w\<lparr>w_db := d\<rparr>)))))"

definition delete_policy ::
  "('d, 'k) inst \<Rightarrow> uuid \<Rightarrow> ('d, 'k) world \<Rightarrow> (app_error + unit) \<times> ('d, 'k) world" where
  "delete_policy I i w =
     (case db_get (i_db I) i (w_db w) of
        Inl e \<Rightarrow> (Inl (DatabaseError e), w)
      | Inr None \<Rightarrow> (Inl (PolicyNotFoundError (uuid_str i)), w)
      | Inr (Some p) \<Rightarrow>
          (case db_delete (i_db I) (pol_id p) (w_db w) of
             Inl e \<Rightarrow> (Inl (DatabaseError e), w)
           | Inr d \<Rightarrow> (Inr (), invalidate_policy_cache I ''delete'' (uuid_str (pol_id p)) (w\<lparr>w_db := d\<rparr>))))"

text \<open>\<open>setattr\<close> for every field of the payload.\<close>

definition assign_payload :: "policy_base \<Rightarrow> policy \<Rightarrow> policy" where
  "assign_payload b p =
     policy_base.extend b (policy.fields (pol_id p) (pol_version p) (pol_created_at p) (pol_updated_at p))"

definition upsert_policy_by_name ::
  "('d, 'k) inst \<Rightarrow> policy_base \<Rightarrow> ('d, 'k) world \<Rightarrow> (app_error + policy \<times> string) \<times> ('d, 'k) world" where
  "upsert_policy_by_name I b w =
     (case db_select (i_db I) (w_db w) of
        Inl e \<Rightarrow> (Inl (DatabaseError e), w)
      | Inr rows \<Rightarrow>
          (case filter (\<lambda>p. pol_name p = pol_name b) rows of
             [] \<Rightarrow>
               (case create_policy I b w of
                  (Inl e, w1) \<Rightarrow> (Inl e, w1)
                | (Inr p, w1) \<Rightarrow> (Inr (p, ''created''), w1))
           | [p] \<Rightarrow>
               if to_policy_payload p = to_policy_payload b
               then (map_sum id (\<lambda>q. (q, ''unchanged'')) (read_policy p), w)
               else
                 let q = assign_payload b p; q = q\<lparr>pol_version := pol_version q + 1\<rparr>
                 in (case db_update (i_db I) q (w_db w) of
                       Inl e \<Rightarrow> (Inl (DatabaseError e), w)
                     | Inr (q', d) \<Rightarrow>
                         (map_sum id (\<lambda>r. (r, ''updated'')) (read_policy q'),
                          invalidate_policy_cache I ''sync'' (uuid_str (pol_id q')) (w\<lparr>w_db := d\<rparr>)))
           | _ \<Rightarrow> (Inl (DatabaseError MultipleResultsFound), w)))"

section \<open>The cache of active policies\<close>

definition redis_get :: "('d, 'k) inst \<Rightarrow> string \<Rightarrow> ('d, 'k) world \<Rightarrow> (redis_error + string option) \<times> ('d, 'k) world" where
  "redis_get I key w =
     redis_call I (\<lambda>k. (case cc_get (i_cache I) key k of None \<Rightarrow> Inl ScriptError | Some v \<Rightarrow> Inr v, k)) w"

definition redis_setex ::
  "('d, 'k) inst \<Rightarrow> string \<Rightarrow> int \<Rightarrow> string \<Rightarrow> ('d, 'k) world \<Rightarrow> (redis_error + unit) \<times> ('d, 'k) world" where
  "redis_setex I key seconds value w =
     redis_call I (\<lambda>k. case cc_setex (i_cache I) key seconds value k of
                        None \<Rightarrow> (Inl ScriptError, k) | Some k' \<Rightarrow> (Inr (), k')) w"

definition load_from_database :: "('d, 'k) inst \<Rightarrow> ('d, 'k) world \<Rightarrow> (app_error + policy list) \<times> ('d, 'k) world" where
  "load_from_database I w =
     (case list_policies I True (w_db w) of
        Inl e \<Rightarrow> (Inl e, w)
      | Inr ps \<Rightarrow> (Inr ps, snapshot_set I ps w))"

definition list_active_policies_cached ::
  "('d, 'k) inst \<Rightarrow> ('d, 'k) world \<Rightarrow> (app_error + policy list) \<times> ('d, 'k) world" where
  "list_active_policies_cached I w =
     (let S = i_settings I
      in case redis_get I (policy_cache_key S) w of
           (Inl _, w1) \<Rightarrow>
             let w2 = emit [mark_redis_error ''policy_cache_get'', Log WARNING ''redis_fallback''] w1
             in (case get_fresh I (set_local_policy_cache_ttl_seconds S) w2 of
                   (Some ps, w3) \<Rightarrow> (Inr ps, w3)
                 | (None, w3) \<Rightarrow> load_from_database I w3)
         | (Inr (Some (c # cs)), w1) \<Rightarrow>
             let w2 = emit [mark_policy_cache_hit] w1
             in (case i_load I (c # cs) of
                   Inl e \<Rightarrow> (Inl e, w2)
                 | Inr ps \<Rightarrow> (Inr ps, emit [Log INFO ''policy_load''] (snapshot_set I ps w2)))
         | (Inr _, w1) \<Rightarrow>
             let w2 = emit [mark_policy_cache_miss] w1
             in (case list_policies I True (w_db w2) of
                   Inl e \<Rightarrow> (Inl e, w2)
                 | Inr ps \<Rightarrow>
                     let w3 = (case redis_setex I (policy_cache_key S) (set_policy_cache_ttl_seconds S) (i_dump I ps) w2 of
                                 (Inl _, w3) \<Rightarrow> emit [mark_redis_error ''policy_cache_set'', Log WARNING ''redis_fallback''] w3
                               | (Inr _, w3) \<Rightarrow> w3)
                     in (Inr ps, emit [Log INFO ''policy_load''] (snapshot_set I ps w3))))"

definition resolve_policy ::
  "('d, 'k) inst \<Rightarrow> request_identity \<Rightarrow> ('d, 'k) world \<Rightarrow> (app_error + policy option) \<times> ('d, 'k) world" where
  "resolve_policy I i w =
     (case list_active_policies_cached I w of
        (Inl e, w1) \<Rightarrow> (Inl e, w1)
      | (Inr ps, w1) \<Rightarrow> (Inr (select_best_policy ps i), w1))"

section \<open>Lemmas: the written row\<close>

lemma to_policy_payload_truncate [simp]: "to_policy_payload (policy_base.truncate p) = to_policy_payload p"
  by (simp add: to_policy_payload_def policy_base.defs)

lemma truncate_eq_iff: "policy_base.truncate p = b \<longleftrightarrow> to_policy_payload p = to_policy_payload (b :: policy_base)"
  by (metis to_policy_payload_inj to_policy_payload_truncate)

lemma policy_ok_truncate [simp]: "policy_ok (policy_base.truncate p) \<longleftrightarrow> policy_ok p"
  by (auto simp: policy_ok_def validate_policy_def validate_algorithm_specifics_def Let_def policy_base.defs
      to_policy_payload_def split: if_splits)

lemma read_policy_ok: "policy_ok p \<Longrightarrow> read_policy p = Inr p"
  by (simp add: read_policy_def policy_ok_iff)

lemma read_policy_Inr: "read_policy p = Inr q \<Longrightarrow> q = p \<and> policy_ok p"
  by (auto simp: read_policy_def policy_ok_def dest: validate_policy_Inr split: sum.splits)

lemma read_policies_ok: "\<forall>p\<in>set ps. policy_ok p \<Longrightarrow> read_policies ps = Inr ps"
  by (induction ps) (simp_all add: read_policy_ok)

lemma read_policies_Inr: "read_policies ps = Inr qs \<Longrightarrow> qs = ps \<and> (\<forall>p\<in>set ps. policy_ok p)"
  by (induction ps arbitrary: qs) (auto split: sum.splits dest: read_policy_Inr)

lemma set_fields_meta [simp]:
  "pol_id (set_fields u p) = pol_id p" "pol_version (set_fields u p) = pol_version p"
  "pol_created_at (set_fields u p) = pol_created_at p"
  by (simp_all add: set_fields_def)

lemma assign_payload_simps [simp]:
  "pol_id (assign_payload b p) = pol_id p" "pol_version (assign_payload b p) = pol_version p"
  "policy_base.truncate (assign_payload b p) = b"
  by (simp_all add: assign_payload_def policy_base.defs policy.defs)

lemma truncate_version [simp]: "policy_base.truncate (p\<lparr>pol_version := v\<rparr>) = policy_base.truncate p"
  by (simp add: policy_base.defs)

lemma truncate_updated_at [simp]: "policy_base.truncate (p\<lparr>pol_updated_at := v\<rparr>) = policy_base.truncate p"
  by (simp add: policy_base.defs)

lemma set_reqI: "set_or u (Some a) = Some v \<Longrightarrow> set_req u a = v"
  by (auto simp: set_or_def set_req_def split: option.splits)

text \<open>What \<open>setattr\<close> leaves in the row is what \<open>PolicyCreate(**merged_payload)\<close> validated.\<close>

lemma set_fields_merged:
  assumes "policy_create (dict_update (to_policy_payload p) u) = Inr b"
  shows "policy_base.truncate (set_fields u p) = b" "policy_ok b"
proof -
  show "policy_ok b" by (rule policy_create_ok [OF assms])
  have eq: "to_policy_payload b = dict_update (to_policy_payload p) u" by (rule policy_create_ok [OF assms])
  have req: "set_or (upd_name u) (Some (pol_name p)) = Some (pol_name b)"
    "set_or (upd_algorithm u) (Some (pol_algorithm p)) = Some (pol_algorithm b)"
    "set_or (upd_rate u) (Some (pol_rate p)) = Some (pol_rate b)"
    "set_or (upd_window_seconds u) (Some (pol_window_seconds p)) = Some (pol_window_seconds b)"
    "set_or (upd_active u) (Some (pol_active p)) = Some (pol_active b)"
    "set_or (upd_priority u) (Some (pol_priority p)) = Some (pol_priority b)"
    "set_or (upd_failure_mode u) (Some (pol_failure_mode p)) = Some (pol_failure_mode b)"
    using arg_cong [OF eq, of d_name] arg_cong [OF eq, of d_algorithm] arg_cong [OF eq, of d_rate]
      arg_cong [OF eq, of d_window_seconds] arg_cong [OF eq, of d_active] arg_cong [OF eq, of d_priority]
      arg_cong [OF eq, of d_failure_mode]
    by (simp_all only: to_policy_payload_def dict_update_def policy_dict.select_convs)
  have opt: "set_or (upd_description u) (pol_description p) = pol_description b"
    "set_or (upd_burst_capacity u) (pol_burst_capacity p) = pol_burst_capacity b"
    "set_or (upd_route u) (pol_route p) = pol_route b"
    "set_or (upd_user_id u) (pol_user_id p) = pol_user_id b"
    "set_or (upd_ip_address u) (pol_ip_address p) = pol_ip_address b"
    "set_or (upd_tenant_id u) (pol_tenant_id p) = pol_tenant_id b"
    "set_or (upd_api_key u) (pol_api_key p) = pol_api_key b"
    using arg_cong [OF eq, of d_description] arg_cong [OF eq, of d_burst_capacity] arg_cong [OF eq, of d_route]
      arg_cong [OF eq, of d_user_id] arg_cong [OF eq, of d_ip_address] arg_cong [OF eq, of d_tenant_id]
      arg_cong [OF eq, of d_api_key]
    by (simp_all only: to_policy_payload_def dict_update_def policy_dict.select_convs)
  show "policy_base.truncate (set_fields u p) = b"
    unfolding truncate_eq_iff by (simp add: to_policy_payload_def set_fields_def req [THEN set_reqI] opt)
qed

section \<open>Lemmas: what a write does to the table\<close>

text \<open>The operations of the admin API, and the database after one.\<close>

datatype admin_op =
    Create policy_base
  | Update uuid policy_update
  | Delete uuid
  | Upsert policy_base

fun admin_exec :: "('d, 'k) inst \<Rightarrow> admin_op \<Rightarrow> ('d, 'k) world \<Rightarrow> ('d, 'k) world" where
  "admin_exec I (Create b) w = snd (create_policy I b w)"
| "admin_exec I (Update i u) w = snd (update_policy I i u w)"
| "admin_exec I (Delete i) w = snd (delete_policy I i w)"
| "admin_exec I (Upsert b) w = snd (upsert_policy_by_name I b w)"

text \<open>Payloads are validated by the schema before they reach the service.\<close>

fun payload_ok :: "admin_op \<Rightarrow> bool" where
  "payload_ok (Create b) = policy_ok b"
| "payload_ok (Upsert b) = policy_ok b"
| "payload_ok _ = True"

definition table_ok :: "(uuid \<rightharpoonup> policy) \<Rightarrow> bool" where
  "table_ok t \<longleftrightarrow> (\<forall>i p. t i = Some p \<longrightarrow> pol_id p = i \<and> policy_ok p \<and> 1 \<le> pol_version p)"

lemma table_okD [wf_dests]: "table_ok t \<Longrightarrow> t i = Some p \<Longrightarrow> pol_id p = i \<and> policy_ok p \<and> 1 \<le> pol_version p"
  by (simp add: table_ok_def)

text \<open>
  A write inserts a valid row under a new id with version 1, or replaces a row by a valid one
  with the next version, or removes a row, or changes nothing.
\<close>

definition row_write :: "(uuid \<rightharpoonup> policy) \<Rightarrow> (uuid \<rightharpoonup> policy) \<Rightarrow> bool" where
  "row_write t t' \<longleftrightarrow>
     t' = t \<or>
     (\<exists>q. t (pol_id q) = None \<and> policy_ok q \<and> pol_version q = 1 \<and> t' = t(pol_id q \<mapsto> q)) \<or>
     (\<exists>p q. t (pol_id q) = Some p \<and> policy_ok q \<and> pol_version q = pol_version p + 1 \<and> t' = t(pol_id q \<mapsto> q)) \<or>
     (\<exists>i. t' = t(i := None))"

lemma updated_at_eqD:
  "q' = q\<lparr>pol_updated_at := u\<rparr> \<Longrightarrow>
     policy_base.truncate q' = policy_base.truncate q \<and> pol_id q' = pol_id q \<and> pol_version q' = pol_version q"
  by simp

lemma row_writeI:
  "t (pol_id q) = None \<Longrightarrow> policy_ok q \<Longrightarrow> pol_version q = 1 \<Longrightarrow> row_write t (t(pol_id q \<mapsto> q))"
  "t (pol_id q) = Some p \<Longrightarrow> policy_ok q \<Longrightarrow> pol_version q = pol_version p + 1 \<Longrightarrow> row_write t (t(pol_id q \<mapsto> q))"
  "row_write t (t(i := None))" "row_write t t"
  unfolding row_write_def by blast+

lemma redis_delete_db [simp]: "w_db (snd (redis_delete I key w)) = w_db w"
  by (simp add: redis_delete_def)

lemma redis_publish_db [simp]: "w_db (snd (redis_publish I ch m w)) = w_db w"
  by (simp add: redis_publish_def case_prod_beta)

lemma invalidate_db [simp]: "w_db (invalidate_policy_cache I reason pid w) = w_db w"
proof -
  obtain r1 w1 where 1: "redis_delete I (policy_cache_key (i_settings I)) (snapshot_clear w) = (r1, w1)" by (rule prod.exhaust)
  obtain r2 w2 where 2: "redis_publish I (set_policy_refresh_channel (i_settings I)) (refresh_payload reason pid) w1 = (r2, w2)"
    by (rule prod.exhaust)
  have "w_db w1 = w_db w" "w_db w2 = w_db w1"
    using redis_delete_db [of I "policy_cache_key (i_settings I)" "snapshot_clear w"] redis_publish_db [of I "set_policy_refresh_channel (i_settings I)" "refresh_payload reason pid" w1]
    by (simp_all add: 1 2)
  then show ?thesis
    by (simp add: invalidate_policy_cache_def Let_def 1 2 invalidate_failed_def split: sum.split)
qed

context policy_database
begin

lemma create_row_write:
  assumes "i_db I = D" "ok (w_db w)" "policy_ok b"
  shows "ok (w_db (snd (create_policy I b w))) \<and> row_write (rows (w_db w)) (rows (w_db (snd (create_policy I b w))))"
proof (cases "db_insert D b (w_db w)")
  case (Inr r)
  obtain q d where r: "r = (q, d)" by (cases r)
  note law = insert_law [OF assms(2) Inr [unfolded r]]
  then have "policy_ok q" using assms(3) policy_ok_truncate by metis
  with law row_writeI(1) [of "rows (w_db w)" q] have "row_write (rows (w_db w)) (rows d)" by simp
  with law show ?thesis by (simp add: create_policy_def assms(1) Inr r)
qed (use assms in \<open>simp add: create_policy_def row_write_def\<close>)

lemma written_row:
  assumes "ok s" "rows s i = Some p" "policy_base.truncate q = b" "policy_ok b" "pol_id q = i"
    "pol_version q = pol_version p + 1" "db_update D q s = Inr (q', s')"
  shows "ok s' \<and> row_write (rows s) (rows s')" "policy_ok q'" "policy_base.truncate q' = b" "pol_id q' = i"
    "pol_version q' = pol_version p + 1" "rows s' = (rows s)(i \<mapsto> q')"
proof -
  have upd: "q' = q\<lparr>pol_updated_at := pol_updated_at q'\<rparr>" "rows s' = (rows s)(pol_id q \<mapsto> q')" "ok s'"
    using update_law [OF assms(1) _ assms(7)] assms(2,5) by simp_all
  note eq = updated_at_eqD [OF upd(1)]
  show *: "policy_base.truncate q' = b" "pol_id q' = i" "pol_version q' = pol_version p + 1" "rows s' = (rows s)(i \<mapsto> q')"
    using eq assms(3,5,6) upd(2) by simp_all
  from * assms(4) show valid: "policy_ok q'" using policy_ok_truncate by metis
  from row_writeI(2) [OF _ valid, of "rows s" p] * assms(2) upd(3) show "ok s' \<and> row_write (rows s) (rows s')" by simp
qed

lemma update_row_write:
  assumes "i_db I = D" "ok (w_db w)"
  shows "ok (w_db (snd (update_policy I i u w))) \<and> row_write (rows (w_db w)) (rows (w_db (snd (update_policy I i u w))))"
proof (cases "snd (update_policy I i u w) = w")
  case True
  with assms(2) show ?thesis by (simp add: row_writeI(4))
next
  case False
  then obtain p b q d where get: "db_get D i (w_db w) = Inr (Some p)"
    and pc: "policy_create (dict_update (to_policy_payload p) u) = Inr b"
    and upd: "db_update D (set_fields u p\<lparr>pol_version := pol_version p + 1\<rparr>) (w_db w) = Inr (q, d)"
    and w': "w_db (snd (update_policy I i u w)) = d"
    by (auto simp: update_policy_def assms(1) Let_def split: sum.splits option.splits if_splits)
  have row: "rows (w_db w) i = Some p" using get_law [OF assms(2) get] by simp
  from id_law [OF assms(2) row] have "pol_id p = i" .
  then show ?thesis unfolding w'
    by (intro written_row(1) [OF assms(2) row _ set_fields_merged(2) [OF pc] _ _ upd])
      (simp_all add: set_fields_merged(1) [OF pc])
qed

lemma delete_row_write:
  assumes "i_db I = D" "ok (w_db w)"
  shows "ok (w_db (snd (delete_policy I i w))) \<and> row_write (rows (w_db w)) (rows (w_db (snd (delete_policy I i w))))"
proof (cases "snd (delete_policy I i w) = w")
  case True
  with assms(2) show ?thesis by (simp add: row_writeI(4))
next
  case False
  then obtain p where get: "db_get D i (w_db w) = Inr (Some p)"
    by (auto simp: delete_policy_def assms(1) split: sum.splits option.splits)
  then obtain d where "db_delete D (pol_id p) (w_db w) = Inr d" "w_db (snd (delete_policy I i w)) = d"
    using False by (auto simp: delete_policy_def assms(1) split: sum.splits)
  with delete_law [OF assms(2)] show ?thesis by (metis row_writeI(3))
qed

lemma selected_row: "ok s \<Longrightarrow> db_select D s = Inr ps \<Longrightarrow> p \<in> set ps \<longleftrightarrow> rows s (pol_id p) = Some p"
  using select_law [of s ps] id_law [of s] by (auto simp: ran_def)

lemma filter_name:
  assumes "ok s" "db_select D s = Inr ps" "rows s i = Some p" "pol_name p = n"
  shows "filter (\<lambda>q. pol_name q = n) ps = [p]"
proof -
  have id: "pol_id p = i" using id_law [OF assms(1,3)] .
  have p: "p \<in> set ps" using selected_row [OF assms(1,2), of p] assms(3) id by simp
  have "q = p" if "q \<in> set ps" "pol_name q = n" for q
    using selected_row [OF assms(1,2), of q] that name_law [OF assms(1) _ assms(3), of "pol_id q" q] assms(3,4) by simp
  then have "set (filter (\<lambda>q. pol_name q = n) ps) = {p}" using p assms(4) unfolding set_filter by blast
  moreover have "distinct (filter (\<lambda>q. pol_name q = n) ps)"
    using select_law [OF assms(1,2)] by (simp add: distinct_map)
  ultimately show ?thesis by (intro distinct_singleton_set)
qed

lemma upsert_cases:
  assumes "i_db I = D" "ok (w_db w)" "snd (upsert_policy_by_name I b w) \<noteq> w"
  shows "snd (upsert_policy_by_name I b w) = snd (create_policy I b w) \<or>
    (\<exists>p q d. rows (w_db w) (pol_id p) = Some p \<and> pol_name p = pol_name b \<and>
      db_update D (assign_payload b p\<lparr>pol_version := pol_version p + 1\<rparr>) (w_db w) = Inr (q, d) \<and>
      w_db (snd (upsert_policy_by_name I b w)) = d)"
proof -
  obtain ps where ps: "db_select D (w_db w) = Inr ps"
    using assms(3) by (auto simp: upsert_policy_by_name_def assms(1) split: sum.splits)
  show ?thesis
  proof (cases "filter (\<lambda>p. pol_name p = pol_name b) ps")
    case Nil
    then show ?thesis
      by (auto simp: upsert_policy_by_name_def assms(1) ps split: sum.splits prod.splits)
  next
    case (Cons p rest)
    then have "p \<in> set (filter (\<lambda>p. pol_name p = pol_name b) ps)" by simp
    then have mem: "p \<in> set ps" "pol_name p = pol_name b" by simp_all
    from mem(1) have row: "rows (w_db w) (pol_id p) = Some p" using selected_row [OF assms(2) ps] by blast
    from filter_name [OF assms(2) ps row mem(2)] assms(3) row mem(2) show ?thesis
      by (auto simp: upsert_policy_by_name_def assms(1) ps Let_def split: sum.splits if_splits)
  qed
qed

lemma upsert_row_write:
  assumes "i_db I = D" "ok (w_db w)" "policy_ok b"
  shows "ok (w_db (snd (upsert_policy_by_name I b w))) \<and>
    row_write (rows (w_db w)) (rows (w_db (snd (upsert_policy_by_name I b w))))"
proof (cases "snd (upsert_policy_by_name I b w) = w")
  case True
  with assms(2) show ?thesis by (simp add: row_writeI(4))
next
  case False
  from upsert_cases [OF assms(1,2) False] show ?thesis
  proof (elim disjE exE conjE)
    fix p q d
    assume row: "rows (w_db w) (pol_id p) = Some p" and w': "w_db (snd (upsert_policy_by_name I b w)) = d"
      and upd: "db_update D (assign_payload b p\<lparr>pol_version := pol_version p + 1\<rparr>) (w_db w) = Inr (q, d)"
    from written_row(1) [OF assms(2) row _ assms(3) _ _ upd] show ?thesis unfolding w' by simp
  qed (use create_row_write [OF assms] in simp)
qed

lemma create_result:
  assumes "i_db I = D" "ok (w_db w)" "policy_ok b" "create_policy I b w = (Inr p, w')"
  shows "policy_base.truncate p = b \<and> rows (w_db w') (pol_id p) = Some p \<and> ok (w_db w') \<and> policy_ok p"
proof -
  obtain q d where ins: "db_insert D b (w_db w) = Inr (q, d)" "read_policy q = Inr p" "w_db w' = d"
    using assms(1,4) by (auto simp: create_policy_def split: sum.splits)
  from read_policy_Inr [OF ins(2)] insert_law [OF assms(2) ins(1)] ins(3) show ?thesis by simp
qed

lemma upsert_result:
  assumes "i_db I = D" "ok (w_db w)" "table_ok (rows (w_db w))" "policy_ok b"
    and "upsert_policy_by_name I b w = (Inr (p, action), w')"
  shows "policy_base.truncate p = b \<and> rows (w_db w') (pol_id p) = Some p \<and> ok (w_db w') \<and> policy_ok p"
proof -
  obtain ps where ps: "db_select D (w_db w) = Inr ps"
    using assms(1,5) by (auto simp: upsert_policy_by_name_def split: sum.splits)
  show ?thesis
  proof (cases "filter (\<lambda>p. pol_name p = pol_name b) ps")
    case Nil
    with assms(5) have "create_policy I b w = (Inr p, w')"
      by (auto simp: upsert_policy_by_name_def assms(1) ps split: sum.splits prod.splits)
    then show ?thesis by (rule create_result [OF assms(1,2,4)])
  next
    case (Cons r rest)
    then have "r \<in> set (filter (\<lambda>p. pol_name p = pol_name b) ps)" by simp
    then have mem: "r \<in> set ps" "pol_name r = pol_name b" by simp_all
    from mem(1) have row: "rows (w_db w) (pol_id r) = Some r" using selected_row [OF assms(2) ps] by blast
    have ok_r: "policy_ok r" using table_okD [OF assms(3) row] by simp
    note single = filter_name [OF assms(2) ps row mem(2)]
    show ?thesis
    proof (cases "to_policy_payload r = to_policy_payload b")
      case True
      then have "p = r" "w' = w"
        using assms(5) single by (simp_all add: upsert_policy_by_name_def assms(1) ps read_policy_ok [OF ok_r])
      with True row ok_r assms(2) show ?thesis by (simp add: truncate_eq_iff)
    next
      case False
      then obtain q d where upd: "db_update D (assign_payload b r\<lparr>pol_version := pol_version r + 1\<rparr>) (w_db w) = Inr (q, d)"
        and q: "read_policy q = Inr p" "w_db w' = d"
        using assms(5) single
        by (auto simp: upsert_policy_by_name_def assms(1) ps Let_def map_sum_def split: sum.splits)
      have "policy_base.truncate (assign_payload b r\<lparr>pol_version := pol_version r + 1\<rparr>) = b"
        "pol_id (assign_payload b r\<lparr>pol_version := pol_version r + 1\<rparr>) = pol_id r"
        "pol_version (assign_payload b r\<lparr>pol_version := pol_version r + 1\<rparr>) = pol_version r + 1" by simp_all
      note w = written_row [OF assms(2) row this(1) assms(4) this(2,3) upd]
      from read_policy_Inr [OF q(1)] w q(2) show ?thesis by auto
    qed
  qed
qed

text \<open>An upsert of what a row already holds changes nothing.\<close>

lemma upsert_again:
  assumes "i_db I = D" "ok (w_db w)" "policy_base.truncate p = b" "policy_ok p" "rows (w_db w) (pol_id p) = Some p"
    and "db_select D (w_db w) = Inr rs"
  shows "upsert_policy_by_name I b w = (Inr (p, ''unchanged''), w)"
proof -
  have "pol_name p = pol_name b" using assms(3) by (auto simp: policy_base.defs)
  from filter_name [OF assms(2,6,5) this] have "filter (\<lambda>q. pol_name q = pol_name b) rs = [p]" .
  moreover have "to_policy_payload p = to_policy_payload b" using assms(3) by (simp add: truncate_eq_iff)
  ultimately show ?thesis by (simp add: upsert_policy_by_name_def assms(1,6) read_policy_ok [OF assms(4)])
qed

lemma update_result:
  assumes "i_db I = D" "ok (w_db w)" "update_nonempty u" "update_policy I i u w = (Inr q, w')"
  shows "\<exists>p d. rows (w_db w) i = Some p \<and> policy_create (dict_update (to_policy_payload p) u) = Inr (policy_base.truncate q) \<and>
    pol_version q = pol_version p + 1 \<and> rows d i = Some q \<and> ok d \<and>
    w' = invalidate_policy_cache I ''update'' (uuid_str i) (w\<lparr>w_db := d\<rparr>)"
proof -
  obtain p b q' d where get: "db_get D i (w_db w) = Inr (Some p)"
    and pc: "policy_create (dict_update (to_policy_payload p) u) = Inr b"
    and upd: "db_update D (set_fields u p\<lparr>pol_version := pol_version p + 1\<rparr>) (w_db w) = Inr (q', d)"
    and q': "read_policy q' = Inr q" "w' = invalidate_policy_cache I ''update'' (uuid_str (pol_id q')) (w\<lparr>w_db := d\<rparr>)"
    using assms(3,4) by (auto simp: update_policy_def assms(1) Let_def split: sum.splits option.splits)
  have row: "rows (w_db w) i = Some p" using get_law [OF assms(2) get] by simp
  have pid: "pol_id p = i" using id_law [OF assms(2) row] .
  have "policy_base.truncate (set_fields u p\<lparr>pol_version := pol_version p + 1\<rparr>) = b"
    "pol_id (set_fields u p\<lparr>pol_version := pol_version p + 1\<rparr>) = i"
    "pol_version (set_fields u p\<lparr>pol_version := pol_version p + 1\<rparr>) = pol_version p + 1"
    using set_fields_merged(1) [OF pc] pid by simp_all
  note wr = written_row [OF assms(2) row this(1) set_fields_merged(2) [OF pc] this(2,3) upd]
  have "q' = q" using read_policy_Inr [OF q'(1)] by simp
  with wr row pc q'(2) show ?thesis by (intro exI [of _ p] exI [of _ d]) auto
qed

lemma admin_row_write:
  assumes "i_db I = D" "ok (w_db w)" "payload_ok a"
  shows "ok (w_db (admin_exec I a w)) \<and> row_write (rows (w_db w)) (rows (w_db (admin_exec I a w)))"
  using assms(3) create_row_write [OF assms(1,2)] update_row_write [OF assms(1,2)] delete_row_write [OF assms(1,2)]
    upsert_row_write [OF assms(1,2)]
  by (cases a) simp_all

end

lemma table_ok_put: "table_ok t \<Longrightarrow> policy_ok q \<Longrightarrow> 1 \<le> pol_version q \<Longrightarrow> table_ok (t(pol_id q \<mapsto> q))"
  by (simp add: table_ok_def)

lemma row_write_table_ok:
  assumes "row_write t t'" "table_ok t"
  shows "table_ok t'"
  using assms(1) unfolding row_write_def
proof (elim disjE exE conjE)
  fix p q
  assume "t (pol_id q) = Some p" "policy_ok q" "pol_version q = pol_version p + 1" "t' = t(pol_id q \<mapsto> q)"
  with table_okD [OF assms(2), of "pol_id q" p] show ?thesis by (simp add: table_ok_put assms(2))
next
  fix i
  assume "t' = t(i := None)"
  with assms(2) show ?thesis by (simp add: table_ok_def)
qed (simp_all add: table_ok_put assms(2))

lemma row_write_version:
  "row_write t t' \<Longrightarrow> t i = Some p \<Longrightarrow> t' i = Some p' \<Longrightarrow> p' = p \<or> pol_version p' = pol_version p + 1"
  unfolding row_write_def by (elim disjE exE conjE) (auto split: if_splits)

text \<open>Along a history of administrative operations the table stays well-formed.\<close>

lemma admin_history_ok:
  assumes "policy_database (i_db I) rows ok"
  shows "ok (w_db w) \<Longrightarrow> table_ok (rows (w_db w)) \<Longrightarrow> \<forall>a\<in>set ops. payload_ok a \<Longrightarrow>
    ok (w_db (fold (admin_exec I) ops w)) \<and> table_ok (rows (w_db (fold (admin_exec I) ops w)))"
proof (induction ops arbitrary: w)
  case (Cons a ops)
  from policy_database.admin_row_write [OF assms refl Cons.prems(1)] Cons.prems(3)
  have step: "ok (w_db (admin_exec I a w))" "row_write (rows (w_db w)) (rows (w_db (admin_exec I a w)))" by simp_all
  from Cons.IH [OF step(1) row_write_table_ok [OF step(2) Cons.prems(2)]] Cons.prems(3) show ?case by simp
qed simp

text \<open>A row that is not deleted on the way is either the same at the end or of a later version.\<close>

lemma admin_history_version:
  assumes "policy_database (i_db I) rows ok"
  shows "ok (w_db w) \<Longrightarrow> \<forall>a\<in>set ops. payload_ok a \<Longrightarrow> rows (w_db w) i = Some p \<Longrightarrow>
    \<forall>n<length ops. rows (w_db (fold (admin_exec I) (take n ops) w)) i \<noteq> None \<Longrightarrow>
    rows (w_db (fold (admin_exec I) ops w)) i = Some p' \<Longrightarrow> p' = p \<or> pol_version p < pol_version p'"
proof (induction ops arbitrary: w p)
  case (Cons a ops)
  let ?w1 = "admin_exec I a w"
  from policy_database.admin_row_write [OF assms refl Cons.prems(1)] Cons.prems(2)
  have step: "ok (w_db ?w1)" "row_write (rows (w_db w)) (rows (w_db ?w1))" by simp_all
  have stays: "rows (w_db (fold (admin_exec I) (take n ops) ?w1)) i \<noteq> None" if "n < length ops" for n
    using Cons.prems(4) [rule_format, of "Suc n"] that by simp
  have "rows (w_db ?w1) i \<noteq> None"
    using stays [of 0] Cons.prems(5) by (cases ops) simp_all
  then obtain p1 where p1: "rows (w_db ?w1) i = Some p1" by blast
  have "p' = p1 \<or> pol_version p1 < pol_version p'"
    using Cons.IH [OF step(1) _ p1] Cons.prems(2,5) stays by simp
  with row_write_version [OF step(2) Cons.prems(3) p1] show ?case by auto
qed simp

section \<open>Lemmas: queries and the cache\<close>

lemma list_policies_cases:
  assumes "list_policies I active_only d = Inr ps"
  shows "\<exists>rs. db_select (i_db I) d = Inr rs \<and> set ps = {p \<in> set rs. active_only \<longrightarrow> pol_active p} \<and>
    sorted (map (order_key (i_db I)) ps)"
proof -
  obtain rs where rs: "db_select (i_db I) d = Inr rs"
    and read: "read_policies (sort_key (order_key (i_db I)) (if active_only then filter pol_active rs else rs)) = Inr ps"
    using assms by (auto simp: list_policies_def split: sum.splits)
  from read_policies_Inr [OF read] rs show ?thesis by auto
qed

lemma list_policies_succeeds:
  assumes "db_select (i_db I) d = Inr rs" "\<forall>p\<in>set rs. policy_ok p"
  shows "\<exists>ps. list_policies I active_only d = Inr ps"
  unfolding list_policies_def assms(1) using assms(2) by (auto simp: read_policies_ok)

text \<open>A command that arrives and is answered.\<close>

lemma delivered_call:
  "env_fault (i_env I) (w_tick w) = Delivered \<Longrightarrow> redis_call I op w =
     (let k = env_server (i_env I) (w_tick w) (w_redis w)
      in (fst (op k), w\<lparr>w_tick := w_tick w + 1, w_redis := snd (op k)\<rparr>))"
  by (simp add: redis_call_def Let_def)

lemma delivered_miss:
  assumes "env_fault (i_env I) (w_tick w) = Delivered"
    and "cc_get (i_cache I) (policy_cache_key (i_settings I)) (env_server (i_env I) (w_tick w) (w_redis w)) = Some None"
  shows "fst (list_active_policies_cached I w) = list_policies I True (w_db w)"
  by (simp add: list_active_policies_cached_def redis_get_def delivered_call [OF assms(1)] assms(2) Let_def split: sum.split)

text \<open>Surroundings in which every command arrives and is answered, and nobody else writes.\<close>

definition quiet :: "('d, 'k) inst \<Rightarrow> bool" where
  "quiet I \<longleftrightarrow> (\<forall>n. env_fault (i_env I) n = Delivered) \<and> (\<forall>n k. env_server (i_env I) n k = k)"

lemma quiet_call: "quiet I \<Longrightarrow> redis_call I op w = (fst (op (w_redis w)), w\<lparr>w_tick := w_tick w + 1, w_redis := snd (op (w_redis w))\<rparr>)"
  by (simp add: redis_call_def quiet_def Let_def)

lemma quiet_get:
  "quiet I \<Longrightarrow> redis_get I key w =
     (case cc_get (i_cache I) key (w_redis w) of None \<Rightarrow> Inl ScriptError | Some v \<Rightarrow> Inr v, w\<lparr>w_tick := w_tick w + 1\<rparr>)"
  by (simp add: redis_get_def quiet_call)

lemma quiet_invalidate:
  "quiet I \<Longrightarrow> w_redis (invalidate_policy_cache I reason pid w) = cc_del (i_cache I) (policy_cache_key (i_settings I)) (w_redis w)"
  "quiet I \<Longrightarrow> w_snapshot (invalidate_policy_cache I reason pid w) = None"
  by (simp_all add: invalidate_policy_cache_def redis_delete_def redis_publish_def quiet_call Let_def quiet_def)

lemma cache_miss:
  assumes "quiet I" "cc_get (i_cache I) (policy_cache_key (i_settings I)) (w_redis w) = Some None"
  shows "fst (list_active_policies_cached I w) = list_policies I True (w_db w)"
  by (rule delivered_miss) (use assms in \<open>simp_all add: quiet_def\<close>)

lemma cache_hit:
  assumes "quiet I" "cc_get (i_cache I) (policy_cache_key (i_settings I)) (w_redis w) = Some (Some s)" "s \<noteq> []"
  shows "fst (list_active_policies_cached I w) = i_load I s"
  using assms(2,3)
  by (cases s) (simp_all add: list_active_policies_cached_def quiet_get [OF assms(1)] Let_def split: sum.split)

context redis_cache_server
begin

lemma cache_filled:
  assumes "quiet I" "i_redis I = C" "i_cache I = K" "cc_get K (policy_cache_key (i_settings I)) (w_redis w) = Some None"
    and "list_policies I True (w_db w) = Inr ps" "0 < set_policy_cache_ttl_seconds (i_settings I)"
  shows "cc_get K (policy_cache_key (i_settings I)) (w_redis (snd (list_active_policies_cached I w))) = Some (Some (i_dump I ps))"
proof -
  let ?S = "i_settings I"
  obtain k' where k': "cc_setex K (policy_cache_key ?S) (set_policy_cache_ttl_seconds ?S) (i_dump I ps) (w_redis w) = Some k'"
    using setex_cases(1) [OF assms(6), of "policy_cache_key ?S" "i_dump I ps" "w_redis w"] by blast
  have "w_redis (snd (list_active_policies_cached I w)) = k'"
    using assms(3-5) k'
    by (simp add: list_active_policies_cached_def quiet_get [OF assms(1)] redis_setex_def quiet_call [OF assms(1)] Let_def)
  with get_after_setex [OF assms(6) k'] show ?thesis by simp
qed

end

text \<open>When Redis cannot be asked: the snapshot while it is young enough, else the database.\<close>

lemma unreachable_list:
  assumes "env_fault (i_env I) (w_tick w) \<noteq> Delivered"
  shows "fst (list_active_policies_cached I w) =
    (case w_snapshot w of
       None \<Rightarrow> list_policies I True (w_db w)
     | Some sn \<Rightarrow>
         if fl (env_monotonic (i_env I) (w_tick w + 1) - sn_loaded_at_monotonic sn) >
            of_int (set_local_policy_cache_ttl_seconds (i_settings I))
         then list_policies I True (w_db w) else Inr (sn_policies sn))"
proof -
  obtain e w1 where get: "redis_get I (policy_cache_key (i_settings I)) w = (Inl e, w1)"
    "w_tick w1 = w_tick w + 1" "w_db w1 = w_db w" "w_snapshot w1 = w_snapshot w"
    using assms by (cases "env_fault (i_env I) (w_tick w)") (auto simp: redis_get_def redis_call_def Let_def)
  let ?w2 = "emit [mark_redis_error ''policy_cache_get'', Log WARNING ''redis_fallback''] w1"
  have load: "fst (load_from_database I v) = list_policies I True (w_db v)" for v
    by (simp add: load_from_database_def split: sum.split)
  obtain c w3 where fresh: "get_fresh I (set_local_policy_cache_ttl_seconds (i_settings I)) ?w2 = (c, w3)" by (rule prod.exhaust)
  have "w_db w3 = w_db w"
    using get_fresh_frame(1) [of I "set_local_policy_cache_ttl_seconds (i_settings I)" ?w2] get(3) unfolding fresh by simp
  then have "fst (list_active_policies_cached I w) = (case c of Some ps \<Rightarrow> Inr ps | None \<Rightarrow> list_policies I True (w_db w))"
    by (simp add: list_active_policies_cached_def get(1) Let_def fresh load split: option.split)
  moreover have "c = (case w_snapshot w of None \<Rightarrow> None | Some sn \<Rightarrow>
      if fl (env_monotonic (i_env I) (w_tick w + 1) - sn_loaded_at_monotonic sn) >
         of_int (set_local_policy_cache_ttl_seconds (i_settings I)) then None else Some (sn_policies sn))"
    using arg_cong [OF fresh, of fst] get by (cases "w_snapshot w") (simp_all add: get_fresh_def read_monotonic_def Let_def split: if_splits)
  ultimately show ?thesis by (simp split: option.split)
qed

text \<open>
  A lookup that succeeds leaves its list in the snapshot, stamped with the clock at the end of
  the lookup; only one that could not read the cache may leave the snapshot it had.
\<close>

definition kept_or_stamped :: "('d, 'k) inst \<Rightarrow> ('d, 'k) world \<Rightarrow> ('d, 'k) world \<Rightarrow> snapshot \<Rightarrow> bool" where
  "kept_or_stamped I w w' sn \<longleftrightarrow>
     sn_loaded_at_monotonic sn = env_monotonic (i_env I) (w_tick w' - 1) \<or>
     w_snapshot w = Some sn \<and> \<not> is_ok (fst (redis_get I (policy_cache_key (i_settings I)) w))"

lemma snapshot_set_stamp:
  "w_snapshot (snapshot_set I ps v) =
     Some \<lparr>sn_policies = ps, sn_loaded_at_monotonic = env_monotonic (i_env I) (w_tick (snapshot_set I ps v) - 1)\<rparr>"
  by (simp add: snapshot_set_def read_monotonic_def)

lemma lookup_fills_snapshot:
  assumes "list_active_policies_cached I w = (Inr ps, w')"
  shows "\<exists>sn. w_snapshot w' = Some sn \<and> sn_policies sn = ps \<and> kept_or_stamped I w w' sn"
proof -
  obtain r w1 where get: "redis_get I (policy_cache_key (i_settings I)) w = (r, w1)" by (rule prod.exhaust)
  have snap: "w_snapshot w1 = w_snapshot w" using arg_cong [OF get, of "\<lambda>x. w_snapshot (snd x)"] by (simp add: redis_get_def)
  have set: ?thesis if "w' = snapshot_set I ps v \<or> w' = emit es (snapshot_set I ps v)" for v es
    using that by (auto simp: snapshot_set_stamp kept_or_stamped_def)
  show ?thesis
  proof (cases r)
    case (Inl e)
    let ?w2 = "emit [mark_redis_error ''policy_cache_get'', Log WARNING ''redis_fallback''] w1"
    obtain c w3 where fresh: "get_fresh I (set_local_policy_cache_ttl_seconds (i_settings I)) ?w2 = (c, w3)" by (rule prod.exhaust)
    have run: "(case c of Some qs \<Rightarrow> (Inr qs, w3) | None \<Rightarrow> load_from_database I w3) = (Inr ps, w')"
      using assms by (simp add: list_active_policies_cached_def get Inl Let_def fresh)
    show ?thesis
    proof (cases c)
      case None
      with run set show ?thesis by (auto simp: load_from_database_def split: sum.splits)
    next
      case (Some qs)
      have "w_snapshot w3 = w_snapshot w" using get_fresh_frame(5) [of I _ ?w2] snap by (metis emit_simps(4) fresh snd_conv)
      moreover obtain sn where "w_snapshot w = Some sn" "sn_policies sn = qs"
        using get_fresh_Some [of I "set_local_policy_cache_ttl_seconds (i_settings I)" ?w2 qs] snap by (auto simp: fresh Some)
      ultimately show ?thesis using run Some by (simp add: kept_or_stamped_def get Inl)
    qed
  next
    case (Inr v)
    then show ?thesis
      using assms set by (auto simp: list_active_policies_cached_def get Let_def split: option.splits list.splits sum.splits)
  qed
qed

section \<open>A concrete instance\<close>

text \<open>
  The in-memory database with one row, the keyspace server, quiet surroundings, and a codec
  that knows one list.
\<close>

definition demo_env :: "keyspace environment" where
  "demo_env = \<lparr>env_time = (\<lambda>_. 100), env_monotonic = (\<lambda>_. 5), env_uuid_hex = (\<lambda>n. int_str (int n)),
    env_fault = (\<lambda>_. Delivered), env_server = (\<lambda>_ k. k)\<rparr>"

definition demo_inst :: "(memory_db, keyspace) inst" where
  "demo_inst = \<lparr>i_settings = default_settings, i_env = demo_env, i_redis = ks_commands, i_cache = ks_cache,
    i_db = memory_database, i_dump = (\<lambda>_. ''[p]''), i_load = (\<lambda>_. Inr [example_policy])\<rparr>"

definition demo_world :: "(memory_db, keyspace) world" where
  "demo_world = \<lparr>w_tick = 0, w_db = \<lparr>md_rows = [example_policy], md_ids = [2, 3], md_now = 7\<rparr>,
    w_redis = \<lparr>ks_time = (100, 0), ks_entries = Map.empty\<rparr>, w_snapshot = None,
    w_limiter = new_limiter 120, w_events = []\<rparr>"

lemma demo_simps [simp]:
  "i_settings demo_inst = default_settings" "i_redis demo_inst = ks_commands" "i_cache demo_inst = ks_cache"
  "i_db demo_inst = memory_database" "i_dump demo_inst ps = ''[p]''" "i_load demo_inst s = Inr [example_policy]"
  "quiet demo_inst" "i_env demo_inst = demo_env"
  by (simp_all add: demo_inst_def quiet_def demo_env_def)

lemma demo_db [simp]: "md_ok (w_db demo_world)" "md_row (w_db demo_world) i = (if i = 1 then Some example_policy else None)"
  "db_select memory_database (w_db demo_world) = Inr [example_policy]"
  by (auto simp: demo_world_def md_ok_def md_row_def memory_database_def example_policy_def)

lemma demo_tick: "w_tick demo_world = 0"
  by (simp add: demo_world_def)

lemma demo_table_ok [simp]: "table_ok (md_row (w_db demo_world))"
  by (simp add: table_ok_def) (simp add: example_policy_def)

lemma demo_list [simp]: "list_policies demo_inst True (w_db demo_world) = Inr [example_policy]"
  by (simp add: list_policies_def read_policy_ok) (simp add: example_policy_def)

lemma demo_cache_empty [simp]: "cc_get ks_cache key (w_redis demo_world) = Some None"
  by (simp add: ks_cache_def view_get_def ks_view_def live_at_def demo_world_def)

section \<open>Properties\<close>

text \<open>
  C11. The table of policies stays well-formed: after any sequence of administrative
  operations with validated payloads, whatever fails on the way, every stored row is a
  valid policy under its own id with a positive version, so no read of the service fails
  validation, and a listing holds exactly the rows that are asked for, ordered by priority,
  time of update and name.
\<close>

theorem admin_operations_keep_table:
  assumes "policy_database (i_db I) rows ok" "ok (w_db w)" "table_ok (rows (w_db w))" "\<forall>a\<in>set ops. payload_ok a"
    and "w' = fold (admin_exec I) ops w"
  shows "ok (w_db w') \<and> table_ok (rows (w_db w')) \<and>
    (\<forall>rs. db_select (i_db I) (w_db w') = Inr rs \<longrightarrow>
      (\<exists>ps. list_policies I active (w_db w') = Inr ps \<and>
        set ps = {p \<in> ran (rows (w_db w')). active \<longrightarrow> pol_active p} \<and> sorted (map (order_key (i_db I)) ps)))"
proof -
  note inv = admin_history_ok [OF assms(1-4)]
  have "\<exists>ps. list_policies I active (w_db w') = Inr ps \<and>
      set ps = {p \<in> ran (rows (w_db w')). active \<longrightarrow> pol_active p} \<and> sorted (map (order_key (i_db I)) ps)"
    if sel: "db_select (i_db I) (w_db w') = Inr rs" for rs
  proof -
    have rs: "set rs = ran (rows (w_db w'))"
      using policy_database.select_law [OF assms(1) _ sel] inv assms(5) by simp
    then have "\<forall>p\<in>set rs. policy_ok p" using inv assms(5) by (auto simp: ran_def dest: table_okD)
    from list_policies_succeeds [OF sel this] obtain ps where ps: "list_policies I active (w_db w') = Inr ps" by blast
    from list_policies_cases [OF this] sel rs ps show ?thesis by auto
  qed
  with inv assms(5) show ?thesis by blast
qed

theorem admin_operations_keep_table_witness:
  "table_ok (md_row (w_db (fold (admin_exec demo_inst) [Delete 1, Create (policy_base.truncate example_policy)] demo_world)))"
  using admin_operations_keep_table [OF _ _ _ _ refl, of demo_inst md_row md_ok demo_world
    "[Delete 1, Create (policy_base.truncate example_policy)]" True] memory_database.policy_database_axioms
  by simp

text \<open>
  C12. A version of a policy has one set of parameters: over any history of administrative
  operations, one after the other, during which a policy is not deleted, the quota keys of the
  policy at the beginning and of any policy at the end are equal, for whatever requests, only
  if the two are the same row. So after a change of its limit, window or selectors a counter in
  Redis is never read under the key it was filled under. Overlapping updates are the subject
  of Concurrent_Updates.
\<close>

theorem quota_key_fixes_parameters:
  assumes "policy_database (i_db I) rows ok" "ok (w_db w)" "table_ok (rows (w_db w))" "\<forall>a\<in>set ops. payload_ok a"
    and "rows (w_db w) i = Some p" "\<forall>n<length ops. rows (w_db (fold (admin_exec I) (take n ops) w)) i \<noteq> None"
    and "rows (w_db (fold (admin_exec I) ops w)) i' = Some p'"
    and "build_rate_limit_key p x = build_rate_limit_key p' y"
  shows "i' = i \<and> p' = p"
proof -
  have same: "pol_id p' = pol_id p" "pol_version p' = pol_version p"
    using key_meta [OF assms(8)] by simp_all
  have "pol_id p = i" "pol_id p' = i'"
    using table_okD [OF assms(3,5)] admin_history_ok [OF assms(1-4)] assms(7) by (auto dest: table_okD)
  with same have "i' = i" by simp
  with admin_history_version [OF assms(1,2,4-6), of p'] assms(7) same show ?thesis by simp
qed

definition rate_update :: policy_update where
  "rate_update = no_update\<lparr>upd_rate := Some (Some 20)\<rparr>"

definition updated_policy :: policy where
  "updated_policy = example_policy\<lparr>pol_rate := 20, pol_version := 2, pol_updated_at := 7\<rparr>"

lemma rate_update_run:
  "\<exists>w'. update_policy demo_inst 1 rate_update demo_world = (Inr updated_policy, w') \<and>
     w_db w' = \<lparr>md_rows = [updated_policy], md_ids = [2, 3], md_now = 7\<rparr> \<and>
     list_policies demo_inst True (w_db w') = Inr [updated_policy]"
proof -
  have pc: "policy_create (dict_update (to_policy_payload example_policy) rate_update) = Inr (policy_base.truncate updated_policy)"
    by code_simp
  have ok: "policy_ok updated_policy" using policy_create_ok(1) [OF pc] unfolding policy_ok_truncate .
  obtain w' where run: "update_policy demo_inst 1 rate_update demo_world = (Inr updated_policy, w')"
    and db: "w_db w' = \<lparr>md_rows = [updated_policy], md_ids = [2, 3], md_now = 7\<rparr>"
    using pc read_policy_ok [OF ok]
    by (simp add: update_policy_def memory_database_def demo_world_def md_row_def md_update_def Let_def rate_update_def updated_policy_def
        update_nonempty_def no_update_def set_fields_def set_req_def set_or_def example_policy_def)
  moreover have "list_policies demo_inst True (w_db w') = Inr [updated_policy]"
    using read_policy_ok [OF ok] by (simp add: list_policies_def db memory_database_def updated_policy_def example_policy_def)
  ultimately show ?thesis by blast
qed

theorem quota_key_fixes_parameters_witness:
  "md_row (w_db (fold (admin_exec demo_inst) [Update 1 rate_update, Delete 9] demo_world)) 1 = Some updated_policy \<and>
   pol_rate updated_policy \<noteq> pol_rate example_policy \<and>
   build_rate_limit_key example_policy example_identity \<noteq> build_rate_limit_key updated_policy example_identity"
proof -
  let ?ops = "[Update 1 rate_update, Delete 9]"
  obtain w' where run: "update_policy demo_inst 1 rate_update demo_world = (Inr updated_policy, w')"
    "w_db w' = \<lparr>md_rows = [updated_policy], md_ids = [2, 3], md_now = 7\<rparr>" using rate_update_run by blast
  have rows: "md_row (w_db w') i = (if i = 1 then Some updated_policy else None)" for i
    by (simp add: run(2) md_row_def updated_policy_def example_policy_def)
  have last: "md_row (w_db (fold (admin_exec demo_inst) ?ops demo_world)) 1 = Some updated_policy"
    using rows by (simp add: run(1) delete_policy_def memory_database_def)
  have "\<forall>n<length ?ops. md_row (w_db (fold (admin_exec demo_inst) (take n ?ops) demo_world)) 1 \<noteq> None"
    using rows by (auto simp: less_Suc_eq run(1))
  moreover have differ: "pol_rate updated_policy \<noteq> pol_rate example_policy" by (simp add: updated_policy_def example_policy_def)
  ultimately have "build_rate_limit_key example_policy example_identity \<noteq> build_rate_limit_key updated_policy example_identity"
    using quota_key_fixes_parameters [of demo_inst md_row md_ok demo_world ?ops 1 example_policy 1 updated_policy example_identity example_identity]
      memory_database.policy_database_axioms last by auto
  with last differ show ?thesis by blast
qed

text \<open>
  An upsert is idempotent: once it has succeeded, the row of that name holds exactly
  the payload, and the same upsert reports ``unchanged'' and changes nothing, neither
  database nor cache.
\<close>

theorem upsert_idempotent:
  assumes "policy_database (i_db I) rows ok" "ok (w_db w)" "table_ok (rows (w_db w))" "policy_ok b"
    and "upsert_policy_by_name I b w = (Inr (p, action), w')" "db_select (i_db I) (w_db w') = Inr rs"
  shows "policy_base.truncate p = b \<and> rows (w_db w') (pol_id p) = Some p \<and>
    upsert_policy_by_name I b w' = (Inr (p, ''unchanged''), w')"
  using policy_database.upsert_result [OF assms(1) refl assms(2-5)]
    policy_database.upsert_again [OF assms(1) refl _ _ _ _ assms(6), of p b] by blast

theorem upsert_idempotent_witness:
  "\<exists>p w'. upsert_policy_by_name demo_inst (policy_base.truncate (example_policy\<lparr>pol_rate := 20\<rparr>)) demo_world = (Inr (p, ''updated''), w') \<and>
     upsert_policy_by_name demo_inst (policy_base.truncate (example_policy\<lparr>pol_rate := 20\<rparr>)) w' = (Inr (p, ''unchanged''), w')"
proof -
  let ?b = "policy_base.truncate (example_policy\<lparr>pol_rate := 20\<rparr>)"
  have b: "policy_ok ?b" unfolding policy_ok_truncate
    by (simp add: policy_ok_def validate_policy_def to_policy_payload_def field_checks_def failed_checks_def
        gt_zero_def length_at_most_def validate_algorithm_specifics_def example_policy_def)
  let ?q = "example_policy\<lparr>pol_rate := 20, pol_version := 2, pol_updated_at := 7\<rparr>"
  have q: "read_policy ?q = Inr ?q"
    by (rule read_policy_ok) (simp add: policy_ok_def validate_policy_def to_policy_payload_def field_checks_def
        failed_checks_def gt_zero_def length_at_most_def validate_algorithm_specifics_def example_policy_def)
  obtain w' where run: "upsert_policy_by_name demo_inst ?b demo_world = (Inr (?q, ''updated''), w')"
    and db: "w_db w' = \<lparr>md_rows = [?q], md_ids = [2, 3], md_now = 7\<rparr>"
    using q by (simp add: upsert_policy_by_name_def policy_base.defs policy.defs example_policy_def to_policy_payload_def
        assign_payload_def memory_database_def demo_world_def md_update_def Let_def)
  have "db_select (i_db demo_inst) (w_db w') = Inr [?q]" by (simp add: db memory_database_def)
  from upsert_idempotent [OF _ _ _ b run this, of md_row md_ok] memory_database.policy_database_axioms run
  show ?thesis by auto
qed

text \<open>
  C14. An update is visible to the next lookup of the instance. When Redis answers, and nobody
  stores the cached list between the deletion by the update and the lookup, whatever else other
  clients and the time do to the server: after a successful update the cached list is gone, the
  instance's own snapshot too, and the next lookup answers with the active policies of the
  database, with the new row, one version on and holding the merged payload, among them exactly
  when it is active. A lookup in progress can store the old list in between; that is shown below.
\<close>

theorem update_visible_at_once:
  assumes "policy_database (i_db I) rows ok" "redis_cache_server (i_redis I) view (i_cache I)" "ok (w_db w)"
    and "\<forall>n. env_fault (i_env I) n = Delivered" "key = policy_cache_key (i_settings I)"
    and "\<forall>n k. cc_get (i_cache I) key k = Some None \<longrightarrow> cc_get (i_cache I) key (env_server (i_env I) n k) = Some None"
    and "update_nonempty u" "update_policy I i u w = (Inr q, w')" "list_policies I True (w_db w') = Inr ps"
  shows "cc_get (i_cache I) key (w_redis w') = Some None \<and> w_snapshot w' = None \<and>
    fst (list_active_policies_cached I w') = Inr ps \<and> (q \<in> set ps \<longleftrightarrow> pol_active q) \<and>
    (\<exists>p. rows (w_db w) i = Some p \<and> pol_version q = pol_version p + 1 \<and>
      to_policy_payload q = dict_update (to_policy_payload p) u)"
proof -
  from policy_database.update_result [OF assms(1) refl assms(3,7,8)] obtain p d
    where p: "rows (w_db w) i = Some p" "pol_version q = pol_version p + 1"
      "policy_create (dict_update (to_policy_payload p) u) = Inr (policy_base.truncate q)"
    and d: "rows d i = Some q" "ok d" "w' = invalidate_policy_cache I ''update'' (uuid_str i) (w\<lparr>w_db := d\<rparr>)" by blast
  have gone: "cc_get (i_cache I) key (w_redis w') = Some None" "w_snapshot w' = None"
    using redis_cache_server.get_after_del [OF assms(2)] assms(4-6)
    by (simp_all add: d(3) invalidate_policy_cache_def redis_delete_def redis_publish_def delivered_call Let_def)
  with assms(4-6) have "fst (list_active_policies_cached I w') = Inr ps" by (subst delivered_miss) (simp_all add: assms(9))
  moreover have "q \<in> set ps \<longleftrightarrow> pol_active q"
  proof -
    obtain rs where rs: "db_select (i_db I) (w_db w') = Inr rs" "set ps = {p \<in> set rs. pol_active p}"
      using list_policies_cases [OF assms(9)] by auto
    have "w_db w' = d" by (simp add: d(3))
    with rs policy_database.select_law [OF assms(1) d(2)] d(1) show ?thesis by (auto simp: ran_def)
  qed
  moreover have "to_policy_payload q = dict_update (to_policy_payload p) u"
    using policy_create_ok(2) [OF p(3)] by simp
  ultimately show ?thesis using gone p(1,2) by blast
qed

text \<open>
  The demo instance beside another client, which deletes a key of its own whenever a command
  of the instance is about to arrive.
\<close>

definition busy_inst :: "(memory_db, keyspace) inst" where
  "busy_inst = demo_inst\<lparr>i_env := demo_env\<lparr>env_server := \<lambda>_. cc_del ks_cache ''other''\<rparr>\<rparr>"

lemma busy_simps: "i_db busy_inst = memory_database" "i_redis busy_inst = ks_commands" "i_cache busy_inst = ks_cache"
  "i_settings busy_inst = default_settings" "env_fault (i_env busy_inst) n = Delivered"
  "env_server (i_env busy_inst) n = cc_del ks_cache ''other''"
  by (simp_all add: busy_inst_def demo_env_def)

theorem update_visible_at_once_witness:
  "\<exists>w'. update_policy busy_inst 1 rate_update demo_world = (Inr updated_policy, w') \<and>
     fst (list_active_policies_cached busy_inst w') = Inr [updated_policy] \<and> pol_version updated_policy = 2"
proof -
  obtain v where demo: "update_policy demo_inst 1 rate_update demo_world = (Inr updated_policy, v)"
    "w_db v = \<lparr>md_rows = [updated_policy], md_ids = [2, 3], md_now = 7\<rparr>" "list_policies demo_inst True (w_db v) = Inr [updated_policy]"
    using rate_update_run by blast
  have same: "update_policy busy_inst 1 rate_update demo_world = (fst (update_policy demo_inst 1 rate_update demo_world), w') \<Longrightarrow> w_db w' = w_db v" for w'
    using demo(1) by (auto simp: update_policy_def busy_simps Let_def split: sum.splits option.splits if_splits)
  have "fst (update_policy busy_inst 1 rate_update demo_world) = fst (update_policy demo_inst 1 rate_update demo_world)"
    by (simp add: update_policy_def busy_simps Let_def split: sum.split option.split)
  then obtain w' where run: "update_policy busy_inst 1 rate_update demo_world = (Inr updated_policy, w')"
    using demo(1) by (cases "update_policy busy_inst 1 rate_update demo_world") simp
  have "list_policies busy_inst = list_policies demo_inst"
    unfolding list_policies_def by (simp only: busy_simps demo_simps)
  then have "list_policies busy_inst True (w_db w') = Inr [updated_policy]"
    using demo(1,3) same [of w'] run by simp
  moreover have "\<forall>n k. cc_get ks_cache key k = Some None \<longrightarrow> cc_get ks_cache key (cc_del ks_cache ''other'' k) = Some None" for key
    by (simp add: ks_cache.get_law ks_cache.del_law view_get_def)
  ultimately show ?thesis
    using update_visible_at_once [where rows = md_row and ok = md_ok and view = ks_view, OF _ _ _ _ refl _ _ run]
      memory_database.policy_database_axioms ks_cache.redis_cache_server_axioms run
    by (auto simp: busy_simps update_nonempty_def rate_update_def updated_policy_def)
qed

text \<open>
  The cache round trip: a lookup that misses stores the list it read, and the next
  lookup answers with the same list from the cache alone, whatever has happened to the
  database in between, provided the codec reads back what it wrote.
\<close>

theorem cache_roundtrip:
  assumes "redis_cache_server (i_redis I) view (i_cache I)" "quiet I" "0 < set_policy_cache_ttl_seconds (i_settings I)"
    and "cc_get (i_cache I) (policy_cache_key (i_settings I)) (w_redis w) = Some None"
    and "list_policies I True (w_db w) = Inr ps" "i_load I (i_dump I ps) = Inr ps" "i_dump I ps \<noteq> []"
  shows "fst (list_active_policies_cached I w) = Inr ps \<and>
    fst (list_active_policies_cached I ((snd (list_active_policies_cached I w))\<lparr>w_db := d\<rparr>)) = Inr ps"
proof -
  have miss: "fst (list_active_policies_cached I w) = Inr ps" using cache_miss [OF assms(2,4)] assms(5) by simp
  have "cc_get (i_cache I) (policy_cache_key (i_settings I)) (w_redis (snd (list_active_policies_cached I w))) = Some (Some (i_dump I ps))"
    by (rule redis_cache_server.cache_filled [OF assms(1,2) refl refl assms(4,5,3)])
  then have "fst (list_active_policies_cached I ((snd (list_active_policies_cached I w))\<lparr>w_db := d\<rparr>)) = i_load I (i_dump I ps)"
    by (intro cache_hit [OF assms(2) _ assms(7)]) simp
  with miss assms(6) show ?thesis by simp
qed

theorem cache_roundtrip_witness:
  "fst (list_active_policies_cached demo_inst demo_world) = Inr [example_policy] \<and>
   fst (list_active_policies_cached demo_inst ((snd (list_active_policies_cached demo_inst demo_world))
     \<lparr>w_db := \<lparr>md_rows = [], md_ids = [], md_now = 0\<rparr>\<rparr>)) = Inr [example_policy]"
  by (rule cache_roundtrip [where view = ks_view]) (simp_all add: ks_cache.redis_cache_server_axioms default_settings_def)

text \<open>
  An update that leaves an invalid policy is rejected as a whole: when the merged payload
  fails validation, the service raises the validation error and neither the database nor
  the caches nor the version have changed; an update of a missing policy is not found.
\<close>

theorem invalid_update_changes_nothing:
  assumes "db_get (i_db I) i (w_db w) = Inr r" "update_nonempty u"
    and "case r of None \<Rightarrow> True | Some p \<Rightarrow> \<not> is_ok (policy_create (dict_update (to_policy_payload p) u))"
  shows "snd (update_policy I i u w) = w \<and>
    (case r of None \<Rightarrow> fst (update_policy I i u w) = Inl (PolicyNotFoundError (uuid_str i))
     | Some p \<Rightarrow> (\<exists>e. fst (update_policy I i u w) = Inl (PolicyValidationError e)))"
  using assms by (cases r) (auto simp: update_policy_def is_ok_def split: sum.splits)

theorem invalid_update_changes_nothing_witness:
  "snd (update_policy demo_inst 1 (no_update\<lparr>upd_algorithm := Some (Some FIXED_WINDOW)\<rparr>) demo_world) = demo_world"
proof -
  let ?u = "no_update\<lparr>upd_algorithm := Some (Some FIXED_WINDOW)\<rparr>"
  have "db_get (i_db demo_inst) 1 (w_db demo_world) = Inr (Some example_policy)" by (simp add: memory_database_def)
  moreover have "update_nonempty ?u" by (simp add: update_nonempty_def)
  moreover have "\<not> is_ok (policy_create (dict_update (to_policy_payload example_policy) ?u))" by code_simp
  ultimately show ?thesis using invalid_update_changes_nothing [of demo_inst 1 demo_world "Some example_policy" ?u] by simp
qed

text \<open>
  C22. A lookup leaves a snapshot that carries the instance through an outage: the list it
  answered with is kept, stamped with the monotonic clock as read at the end of the lookup (a
  lookup that cannot read the cache and answers from a snapshot keeps that one, with its stamp),
  and from the stamp on, for \<open>local_policy_cache_ttl_seconds\<close>, a lookup that cannot reach
  Redis answers with that list, whatever has become of the database; after that it asks the
  database again.
\<close>

theorem outage_serves_snapshot:
  assumes "list_active_policies_cached I w = (Inr ps, w')" "w_snapshot v = w_snapshot w'"
    and "env_fault (i_env I) (w_tick v) \<noteq> Delivered"
  shows "\<exists>stamp. w_snapshot w' = Some \<lparr>sn_policies = ps, sn_loaded_at_monotonic = stamp\<rparr> \<and>
    (if is_ok (fst (redis_get I (policy_cache_key (i_settings I)) w)) then stamp = env_monotonic (i_env I) (w_tick w' - 1)
     else stamp = env_monotonic (i_env I) (w_tick w' - 1) \<or> w_snapshot w' = w_snapshot w) \<and>
    fst (list_active_policies_cached I v) =
      (if fl (env_monotonic (i_env I) (w_tick v + 1) - stamp) \<le> of_int (set_local_policy_cache_ttl_seconds (i_settings I))
       then Inr ps else list_policies I True (w_db v))"
proof -
  obtain sn where sn: "w_snapshot w' = Some sn" "sn_policies sn = ps" "kept_or_stamped I w w' sn"
    using lookup_fills_snapshot [OF assms(1)] by blast
  have "sn = \<lparr>sn_policies = ps, sn_loaded_at_monotonic = sn_loaded_at_monotonic sn\<rparr>" using sn(2) by (cases sn) simp
  with sn assms(2) unreachable_list [OF assms(3)] show ?thesis
    by (intro exI [of _ "sn_loaded_at_monotonic sn"]) (auto simp: kept_or_stamped_def)
qed

theorem outage_serves_snapshot_witness:
  "\<exists>v. fst (list_active_policies_cached (demo_inst\<lparr>i_env := demo_env\<lparr>env_fault := \<lambda>n. if n < 10 then Delivered else RequestLost\<rparr>\<rparr>) v) = Inr [example_policy] \<and>
     w_tick v = 10 \<and> md_rows (w_db v) = [] \<and> map_option sn_loaded_at_monotonic (w_snapshot v) = Some 5"
proof -
  let ?I = "demo_inst\<lparr>i_env := demo_env\<lparr>env_fault := \<lambda>n. if n < 10 then Delivered else RequestLost\<rparr>\<rparr>"
  have db: "i_db ?I = memory_database" by simp
  have db2: "list_policies ?I True d = list_policies demo_inst True d" for d
    unfolding list_policies_def by (simp only: db demo_simps)
  have run: "redis_call ?I op demo_world = (fst (op (w_redis demo_world)), demo_world\<lparr>w_tick := 1, w_redis := snd (op (w_redis demo_world))\<rparr>)" for op
    by (simp add: redis_call_def Let_def demo_env_def demo_world_def)
  have look: "\<exists>w'. list_active_policies_cached ?I demo_world = (Inr [example_policy], w') \<and>
      w_snapshot w' = Some \<lparr>sn_policies = [example_policy], sn_loaded_at_monotonic = 5\<rparr>"
    by (simp add: list_active_policies_cached_def redis_get_def run Let_def db2 case_prod_beta snapshot_set_def
        read_monotonic_def split: sum.split) (simp add: demo_env_def)
  then obtain w' where look: "list_active_policies_cached ?I demo_world = (Inr [example_policy], w')"
    "w_snapshot w' = Some \<lparr>sn_policies = [example_policy], sn_loaded_at_monotonic = 5\<rparr>" by blast
  let ?v = "w'\<lparr>w_tick := 10, w_db := \<lparr>md_rows = [], md_ids = [], md_now = 0\<rparr>\<rparr>"
  from outage_serves_snapshot [OF look(1), of ?v] look(2) show ?thesis
    by (intro exI [of _ ?v]) (auto simp: demo_env_def default_settings_def)
qed

definition race_inst :: "(memory_db, keyspace) inst" where
  "race_inst = demo_inst\<lparr>i_env := demo_env\<lparr>env_server :=
     \<lambda>n k. if n = 1 then cc_del ks_cache (policy_cache_key default_settings) k else k\<rparr>\<rparr>"

lemma race_inst_db: "i_db race_inst = memory_database"
  by (simp add: race_inst_def)



end
