(* ===== verification/Rate_Limiter.thy ===== *)
theory Rate_Limiter
  imports Policy_Service Shared_Quota
begin

text \<open>
  \<open>app/services/rate_limiter.py\<close>: the evaluation of a request. The policy is resolved, its
  script is run with retries, and when Redis stays unreachable the decision comes from the
  local limiter or from the policy's failure mode. The counters and log events an evaluation
  leaves are part of the result.
\<close>

section \<open>Decisions\<close>

record rate_limit_decision =
  dc_allowed :: bool
  dc_limit :: int
  dc_remaining :: int
  dc_reset_at_epoch_seconds :: int
  dc_retry_after_seconds :: int
  dc_degraded :: bool
  dc_local_fallback :: bool

definition headers :: "rate_limit_decision \<Rightarrow> (string \<times> string) list" where
  "headers d =
     [(''X-RateLimit-Limit'', int_str (dc_limit d)),
      (''X-RateLimit-Remaining'', int_str (max 0 (dc_remaining d))),
      (''X-RateLimit-Reset'', int_str (dc_reset_at_epoch_seconds d)),
      (''Retry-After'', int_str (max 0 (dc_retry_after_seconds d)))]"

text \<open>\<open>int(float(x))\<close> of an integer of the reply.\<close>

definition via_float :: "int \<Rightarrow> int" where
  "via_float n = int_of_float (float_of_int n)"

definition parse_common_decision :: "int list \<Rightarrow> py_error + rate_limit_decision" where
  "parse_common_decision result =
     (case result of
        r0 # r1 # r2 # r3 # r4 # _ \<Rightarrow>
          let allowed = (r0 \<noteq> 0)
          in Inr \<lparr>dc_allowed = allowed, dc_limit = via_float r1, dc_remaining = via_float r2,
                  dc_reset_at_epoch_seconds = ceil_seconds (via_float r3),
                  dc_retry_after_seconds = (if allowed then 0 else ceil_seconds (via_float r4)),
                  dc_degraded = False, dc_local_fallback = False\<rparr>
      | _ \<Rightarrow> Inl IndexError)"

section \<open>Running the policy's script\<close>

text \<open>Of the exceptions of a script call only Redis errors are caught by the caller.\<close>

datatype run_error = RedisError redis_error | OtherError py_error

definition parse_reply :: "redis_error + int list \<Rightarrow> run_error + rate_limit_decision" where
  "parse_reply r =
     (case r of
        Inl e \<Rightarrow> Inl (RedisError e)
      | Inr result \<Rightarrow>
          (case parse_common_decision result of Inl e \<Rightarrow> Inl (OtherError e) | Inr d \<Rightarrow> Inr d))"

definition eval_script ::
  "('d, 'k) inst \<Rightarrow> ('k \<Rightarrow> (redis_error + int list) \<times> 'k) \<Rightarrow> ('d, 'k) world \<Rightarrow>
   (run_error + rate_limit_decision) \<times> ('d, 'k) world" where
  "eval_script I script w = (case redis_call I script w of (r, w1) \<Rightarrow> (parse_reply r, w1))"

text \<open>The capacity, the refill rate per millisecond and the time to live of a token bucket.\<close>

definition bucket_ttl_ms :: "int \<Rightarrow> int \<Rightarrow> rat \<Rightarrow> py_error + int" where
  "bucket_ttl_ms capacity window_ms refill_per_ms =
     (case py_div (float_of_int capacity) refill_per_ms of
        Inl e \<Rightarrow> Inl e
      | Inr fill_ms \<Rightarrow> Inr (max window_ms \<lceil>fl (fill_ms + float_of_int window_ms)\<rceil>))"

definition run_policy ::
  "('d, 'k) inst \<Rightarrow> policy \<Rightarrow> request_identity \<Rightarrow> ('d, 'k) world \<Rightarrow>
   (run_error + rate_limit_decision) \<times> ('d, 'k) world" where
  "run_policy I p i w =
     (let key = build_rate_limit_key p i; C = i_redis I; window_ms = pol_window_seconds p * 1000
      in if pol_algorithm p = FIXED_WINDOW then
           eval_script I (fixed_window_lua C key (pol_rate p) window_ms) w
         else if pol_algorithm p = SLIDING_WINDOW_LOG then
           (case fresh_hex I w of
              (member, w1) \<Rightarrow> eval_script I (sliding_window_log_lua C key (pol_rate p) window_ms member) w1)
         else
           let capacity = or_int (pol_burst_capacity p) (pol_rate p)
           in (case py_div (of_int (pol_rate p)) (of_int window_ms) of
                 Inl e \<Rightarrow> (Inl (OtherError e), w)
               | Inr refill_per_ms \<Rightarrow>
                   (case bucket_ttl_ms capacity window_ms refill_per_ms of
                      Inl e \<Rightarrow> (Inl (OtherError e), w)
                    | Inr ttl_ms \<Rightarrow>
                        eval_script I (token_bucket_lua C key capacity refill_per_ms 1 ttl_ms) w)))"

section \<open>Without Redis\<close>

definition build_degraded_decision ::
  "('d, 'k) inst \<Rightarrow> policy \<Rightarrow> ('d, 'k) world \<Rightarrow> rate_limit_decision \<times> ('d, 'k) world" where
  "build_degraded_decision I p w =
     (case read_time I w of
        (t, w1) \<Rightarrow>
          let now_epoch = int_of_float t
          in (if pol_failure_mode p = FAIL_OPEN
              then \<lparr>dc_allowed = True, dc_limit = header_limit p, dc_remaining = header_limit p,
                    dc_reset_at_epoch_seconds = now_epoch + pol_window_seconds p, dc_retry_after_seconds = 0,
                    dc_degraded = True, dc_local_fallback = False\<rparr>
              else \<lparr>dc_allowed = False, dc_limit = header_limit p, dc_remaining = 0,
                    dc_reset_at_epoch_seconds = now_epoch + 1, dc_retry_after_seconds = 1,
                    dc_degraded = True, dc_local_fallback = False\<rparr>, w1))"

definition clock_ms :: "rat \<Rightarrow> millis" where
  "clock_ms t = int_of_float (fl (t * 1000))"

definition fallback_decision :: "local_decision \<Rightarrow> rate_limit_decision" where
  "fallback_decision l =
     \<lparr>dc_allowed = ld_allowed l, dc_limit = ld_limit l, dc_remaining = ld_remaining l,
      dc_reset_at_epoch_seconds = ld_reset_at_epoch_seconds l,
      dc_retry_after_seconds = ld_retry_after_seconds l, dc_degraded = True, dc_local_fallback = True\<rparr>"

definition recover_after_redis_failure ::
  "('d, 'k) inst \<Rightarrow> policy \<Rightarrow> request_identity \<Rightarrow> ('d, 'k) world \<Rightarrow>
   (app_error + rate_limit_decision) \<times> ('d, 'k) world" where
  "recover_after_redis_failure I p i w =
     (if set_enable_local_fallback_limiter (i_settings I) then
        (case read_time I w of
           (t, w1) \<Rightarrow>
             (case local_apply (clock_ms t) p i None (w_limiter w1) of
                (Inl e, L) \<Rightarrow> (Inl (PythonError e), w1\<lparr>w_limiter := L\<rparr>)
              | (Inr l, L) \<Rightarrow>
                  (Inr (fallback_decision l),
                   emit [mark_local_failover (algorithm_str (pol_algorithm p)) (selector_kind p),
                         Log WARNING ''failover_local_limiter''] (w1\<lparr>w_limiter := L\<rparr>))))
      else
        (case build_degraded_decision I p (emit [Log WARNING ''redis_fallback''] w) of (d, w1) \<Rightarrow> (Inr d, w1)))"

section \<open>The evaluation\<close>

text \<open>\<open>retries\<close> is \<open>max_attempts - attempt\<close>: how many attempts are left after this one.\<close>

definition retry_events :: "settings \<Rightarrow> event list" where
  "retry_events S =
     [mark_redis_retry ''rate_limit_apply'', Log WARNING ''redis_retry_scheduled''] @
     (if set_redis_retry_backoff_ms S > 0 then [Slept (fl (of_int (set_redis_retry_backoff_ms S) / 1000))] else [])"

fun attempt_loop ::
  "('d, 'k) inst \<Rightarrow> policy \<Rightarrow> request_identity \<Rightarrow> nat \<Rightarrow> ('d, 'k) world \<Rightarrow>
   (app_error + rate_limit_decision) \<times> ('d, 'k) world" where
  "attempt_loop I p i retries w =
     (case run_policy I p i w of
        (Inr d, w1) \<Rightarrow> (Inr d, w1)
      | (Inl (OtherError e), w1) \<Rightarrow> (Inl (PythonError e), w1)
      | (Inl (RedisError _), w1) \<Rightarrow>
          let w2 = emit [mark_redis_error ''rate_limit_apply''] w1
          in (case retries of
                0 \<Rightarrow> recover_after_redis_failure I p i w2
              | Suc n \<Rightarrow> attempt_loop I p i n (emit (retry_events (i_settings I)) w2)))"

declare attempt_loop.simps [simp del]

definition max_attempts :: "settings \<Rightarrow> int" where
  "max_attempts S = max 1 (set_redis_retry_attempts S + 1)"

text \<open>
  \<open>for attempt in range(1, max_attempts + 1)\<close>: over an empty range \<open>decision\<close> is never bound, and
  reading it after the loop raises.
\<close>

definition run_attempts ::
  "('d, 'k) inst \<Rightarrow> policy \<Rightarrow> request_identity \<Rightarrow> int \<Rightarrow> ('d, 'k) world \<Rightarrow>
   (app_error + rate_limit_decision) \<times> ('d, 'k) world" where
  "run_attempts I p i attempts w =
     (if attempts < 1 then (Inl (PythonError (UnboundLocalError ''decision'')), w)
      else attempt_loop I p i (nat (attempts - 1)) w)"

definition verdict_events :: "policy \<Rightarrow> rate_limit_decision \<Rightarrow> event list" where
  "verdict_events p d =
     (if dc_allowed d
      then [mark_rate_limit_allowed (algorithm_str (pol_algorithm p)) (selector_kind p), Log INFO ''allow'']
      else [mark_rate_limit_blocked (algorithm_str (pol_algorithm p)) (selector_kind p), Log WARNING ''block''])"

definition evaluate ::
  "('d, 'k) inst \<Rightarrow> request_identity \<Rightarrow> ('d, 'k) world \<Rightarrow>
   (app_error + (rate_limit_decision \<times> policy) option) \<times> ('d, 'k) world" where
  "evaluate I i w =
     (case resolve_policy I i w of
        (Inl e, w1) \<Rightarrow> (Inl e, w1)
      | (Inr None, w1) \<Rightarrow> (Inr None, w1)
      | (Inr (Some p), w1) \<Rightarrow>
          (case run_attempts I p i (max_attempts (i_settings I)) w1 of
             (Inl e, w2) \<Rightarrow> (Inl e, w2)
           | (Inr d, w2) \<Rightarrow> (Inr (Some (d, p)), emit (verdict_events p d) w2)))"

section \<open>Lemmas\<close>

lemma run_max_attempts [simp]:
  "run_attempts I p i (max_attempts S) w = attempt_loop I p i (nat (max_attempts S - 1)) w"
  by (simp add: run_attempts_def max_attempts_def)

lemma parse_reply_simps [simp]:
  "parse_reply (Inl e) = Inl (RedisError e)"
  "parse_reply (Inr (lua_reply ok limit rem reset retry n)) =
     Inr \<lparr>dc_allowed = ok, dc_limit = via_float limit, dc_remaining = via_float rem,
          dc_reset_at_epoch_seconds = ceil_seconds (via_float reset),
          dc_retry_after_seconds = (if ok then 0 else ceil_seconds (via_float retry)),
          dc_degraded = False, dc_local_fallback = False\<rparr>"
  by (simp_all add: parse_reply_def parse_common_decision_def lua_reply_def)

lemma via_float_exact [simp]: "\<bar>n\<bar> \<le> 2 ^ 53 \<Longrightarrow> via_float n = n"
  unfolding via_float_def by (rule int_of_float_of_int)

text \<open>Every reply of a script is an error or a table of six numbers.\<close>

definition script_result :: "redis_error + int list \<Rightarrow> bool" where
  "script_result r = (case r of Inl _ \<Rightarrow> True | Inr xs \<Rightarrow> length xs = 6)"

lemma script_results [simp]:
  "script_result (fst (fixed_window_lua C key limit window_ms k))"
  "script_result (fst (sliding_window_log_lua C key limit window_ms m k))"
  "script_result (fst (token_bucket_lua C key capacity rate q ttl k))"
  by (simp_all add: script_result_def fixed_window_lua_def sliding_window_log_lua_def sliding_window_reply_def
      token_bucket_lua_def lua_reply_def Let_def case_prod_beta split: option.split)

lemma parse_reply_cases:
  assumes "script_result r"
  shows "(\<exists>e. parse_reply r = Inl (RedisError e)) \<or> (\<exists>d. parse_reply r = Inr d \<and> \<not> dc_degraded d \<and> \<not> dc_local_fallback d)"
proof (cases r)
  case (Inr xs)
  with assms obtain a b c d e f where "xs = [a, b, c, d, e, f]"
    by (auto simp: script_result_def length_Suc_conv numeral_eq_Suc)
  with Inr show ?thesis by (simp add: parse_reply_def parse_common_decision_def Let_def)
qed simp

text \<open>The step of one attempt: nothing but the clock of interactions and the server moves.\<close>

definition attempt_frame :: "('d, 'k) world \<Rightarrow> ('d, 'k) world \<Rightarrow> bool" where
  "attempt_frame w w' \<longleftrightarrow> w_db w' = w_db w \<and> w_limiter w' = w_limiter w \<and> w_snapshot w' = w_snapshot w \<and>
     w_events w' = w_events w \<and> w_tick w < w_tick w'"

lemma eval_script_step:
  assumes "\<And>k. script_result (fst (script k))"
  shows "attempt_frame w (snd (eval_script I script w))"
    and "(\<exists>e. fst (eval_script I script w) = Inl (RedisError e)) \<or>
      (\<exists>d. fst (eval_script I script w) = Inr d \<and> \<not> dc_degraded d \<and> \<not> dc_local_fallback d)"
    and "env_fault (i_env I) (w_tick w) \<noteq> Delivered \<Longrightarrow> fst (eval_script I script w) = Inl (RedisError ConnectionLost)"
proof -
  show "attempt_frame w (snd (eval_script I script w))"
    by (simp add: eval_script_def attempt_frame_def case_prod_beta)
  show "(\<exists>e. fst (eval_script I script w) = Inl (RedisError e)) \<or>
      (\<exists>d. fst (eval_script I script w) = Inr d \<and> \<not> dc_degraded d \<and> \<not> dc_local_fallback d)"
    using parse_reply_cases [OF assms, of "env_server (i_env I) (w_tick w) (w_redis w)"]
    by (simp add: eval_script_def redis_call_def Let_def case_prod_beta split: fault.split)
  show "env_fault (i_env I) (w_tick w) \<noteq> Delivered \<Longrightarrow> fst (eval_script I script w) = Inl (RedisError ConnectionLost)"
    by (simp add: eval_script_def redis_call_def Let_def case_prod_beta split: fault.split)
qed

lemma bucket_parameters:
  assumes "policy_ok p"
  shows "\<exists>r ttl. py_div (of_int (pol_rate p)) (of_int (pol_window_seconds p * 1000)) = Inr r \<and> 0 < r \<and>
    bucket_ttl_ms (header_limit p) (pol_window_seconds p * 1000) r = Inr ttl \<and> 0 < ttl"
proof -
  note p = policy_okD(1,2) [OF assms]
  have r: "0 < fl (of_int (pol_rate p) / of_int (pol_window_seconds p * 1000))" using p by simp
  then have ne: "fl (of_int (pol_rate p) / of_int (pol_window_seconds p * 1000)) \<noteq> 0" by (metis less_irrefl)
  have "py_div (of_int (pol_rate p)) (of_int (pol_window_seconds p * 1000)) =
      Inr (fl (of_int (pol_rate p) / of_int (pol_window_seconds p * 1000)))" using p by (simp add: py_div_def)
  with r p show ?thesis
    unfolding bucket_ttl_ms_def py_div_def [of "float_of_int (header_limit p)"] using ne by auto
qed

lemma run_policy_step:
  assumes "policy_ok p"
  shows "attempt_frame w (snd (run_policy I p i w))"
    and "(\<exists>e. fst (run_policy I p i w) = Inl (RedisError e)) \<or>
      (\<exists>d. fst (run_policy I p i w) = Inr d \<and> \<not> dc_degraded d \<and> \<not> dc_local_fallback d)"
    and "\<forall>m\<ge>w_tick w. env_fault (i_env I) m \<noteq> Delivered \<Longrightarrow> fst (run_policy I p i w) = Inl (RedisError ConnectionLost)"
proof -
  obtain r ttl where bucket: "py_div (of_int (pol_rate p)) (of_int (pol_window_seconds p * 1000)) = Inr r"
    "bucket_ttl_ms (header_limit p) (pol_window_seconds p * 1000) r = Inr ttl"
    using bucket_parameters [OF assms] by blast
  let ?key = "build_rate_limit_key p i" and ?w1 = "w\<lparr>w_tick := w_tick w + 1\<rparr>"
  have run: "run_policy I p i w =
      (if pol_algorithm p = FIXED_WINDOW then
         eval_script I (fixed_window_lua (i_redis I) ?key (pol_rate p) (pol_window_seconds p * 1000)) w
       else if pol_algorithm p = SLIDING_WINDOW_LOG then
         eval_script I (sliding_window_log_lua (i_redis I) ?key (pol_rate p) (pol_window_seconds p * 1000)
           (env_uuid_hex (i_env I) (w_tick w))) ?w1
       else eval_script I (token_bucket_lua (i_redis I) ?key (header_limit p) r 1 ttl) w)"
    unfolding run_policy_def Let_def fresh_hex_def header_limit_def [symmetric] bucket
    by (simp add: bucket)
  have frame1: "attempt_frame w w'" if "attempt_frame ?w1 w'" for w'
    using that by (simp add: attempt_frame_def)
  show "attempt_frame w (snd (run_policy I p i w))"
    unfolding run by (simp add: eval_script_step(1) frame1)
  show "(\<exists>e. fst (run_policy I p i w) = Inl (RedisError e)) \<or>
      (\<exists>d. fst (run_policy I p i w) = Inr d \<and> \<not> dc_degraded d \<and> \<not> dc_local_fallback d)"
    unfolding run by (simp only: eval_script_step(2) script_results simp_thms split: if_split)
  show "\<forall>m\<ge>w_tick w. env_fault (i_env I) m \<noteq> Delivered \<Longrightarrow> fst (run_policy I p i w) = Inl (RedisError ConnectionLost)"
    unfolding run by (simp add: eval_script_step(3))
qed

text \<open>Recovery under a valid policy always decides.\<close>

lemma recover_step:
  assumes "policy_ok p" "header_limit p \<le> 2 ^ 53" "limiter_ok (w_limiter w)"
  shows "\<exists>d w' es. recover_after_redis_failure I p i w = (Inr d, w') \<and> dc_degraded d \<and>
    limiter_ok (w_limiter w') \<and> w_db w' = w_db w \<and> w_events w' = w_events w @ es \<and>
    (if set_enable_local_fallback_limiter (i_settings I)
     then dc_local_fallback d \<and> dc_limit d = header_limit p \<and> 0 \<le> dc_remaining d \<and> dc_remaining d \<le> header_limit p \<and>
       es = [mark_local_failover (algorithm_str (pol_algorithm p)) (selector_kind p), Log WARNING ''failover_local_limiter'']
     else \<not> dc_local_fallback d \<and> dc_limit d = header_limit p \<and>
       (dc_allowed d \<longleftrightarrow> pol_failure_mode p = FAIL_OPEN) \<and> w_limiter w' = w_limiter w \<and>
       dc_remaining d = (if pol_failure_mode p = FAIL_OPEN then header_limit p else 0) \<and>
       dc_retry_after_seconds d = (if pol_failure_mode p = FAIL_OPEN then 0 else 1) \<and> es = [Log WARNING ''redis_fallback''])"
proof (cases "set_enable_local_fallback_limiter (i_settings I)")
  case True
  let ?t = "clock_ms (env_time (i_env I) (w_tick w))"
  obtain r L where run: "local_apply ?t p i None (w_limiter w) = (r, L)" by (rule prod.exhaust)
  note sound = local_apply_sound [OF assms run]
  then obtain l where "r = Inr l" "decision_sound (header_limit p) l" by (cases r) (auto simp: result_sound_def)
  with True run sound show ?thesis
    by (simp add: recover_after_redis_failure_def read_time_def fallback_decision_def decision_sound_def)
next
  case False
  with assms(3) show ?thesis
    by (simp add: recover_after_redis_failure_def build_degraded_decision_def read_time_def Let_def)
qed

section \<open>Accounting of the retries\<close>

definition counted :: "string \<Rightarrow> event list \<Rightarrow> nat" where
  "counted c es = length (filter (\<lambda>e. case e of Counter d _ \<Rightarrow> d = c | _ \<Rightarrow> False) es)"

lemma counted_simps [simp]:
  "counted c [] = 0"
  "counted c (Counter d ls # es) = (if d = c then 1 else 0) + counted c es"
  "counted c (Log l n # es) = counted c es"
  "counted c (Observed h ls x # es) = counted c es"
  "counted c (Slept x # es) = counted c es"
  "counted c (Published a b # es) = counted c es"
  "counted c (es @ es') = counted c es + counted c es'"
  by (simp_all add: counted_def)

lemma counted_retry [simp]:
  "counted ''redis_retries_total'' (retry_events S) = 1" "counted ''redis_errors_total'' (retry_events S) = 0"
  "counted ''allowed_requests_total'' (retry_events S) = 0" "counted ''blocked_requests_total'' (retry_events S) = 0"
  by (simp_all add: retry_events_def mark_defs)

text \<open>What an attempt loop of \<open>n\<close> retries leaves: a decision, and the counters that explain it.\<close>

definition loop_outcome :: "('d, 'k) inst \<Rightarrow> policy \<Rightarrow> nat \<Rightarrow> ('d, 'k) world \<Rightarrow> rate_limit_decision \<Rightarrow> ('d, 'k) world \<Rightarrow> event list \<Rightarrow> bool" where
  "loop_outcome I p n w d w' es \<longleftrightarrow>
     w_events w' = w_events w @ es \<and> w_db w' = w_db w \<and> limiter_ok (w_limiter w') \<and>
     counted ''allowed_requests_total'' es = 0 \<and> counted ''blocked_requests_total'' es = 0 \<and>
     (if dc_degraded d
      then counted ''redis_errors_total'' es = n + 1 \<and> counted ''redis_retries_total'' es = n \<and>
        (dc_local_fallback d \<longleftrightarrow> set_enable_local_fallback_limiter (i_settings I)) \<and>
        dc_limit d = header_limit p \<and> 0 \<le> dc_remaining d \<and> dc_remaining d \<le> header_limit p \<and>
        (\<not> dc_local_fallback d \<longrightarrow> (dc_allowed d \<longleftrightarrow> pol_failure_mode p = FAIL_OPEN))
      else \<not> dc_local_fallback d \<and> w_limiter w' = w_limiter w \<and> counted ''redis_errors_total'' es \<le> n \<and>
        counted ''redis_retries_total'' es = counted ''redis_errors_total'' es)"

lemma attempt_loop_unfold:
  assumes "policy_ok p" "run_policy I p i w = (r, w1)"
  shows "attempt_frame w w1"
    and "(\<exists>d. r = Inr d \<and> \<not> dc_degraded d \<and> \<not> dc_local_fallback d \<and> attempt_loop I p i n w = (Inr d, w1)) \<or>
     (\<exists>e. r = Inl (RedisError e) \<and> attempt_loop I p i n w =
       (let w2 = emit [mark_redis_error ''rate_limit_apply''] w1
        in case n of 0 \<Rightarrow> recover_after_redis_failure I p i w2
           | Suc m \<Rightarrow> attempt_loop I p i m (emit (retry_events (i_settings I)) w2)))"
proof -
  show "attempt_frame w w1" using run_policy_step(1) [OF assms(1), of w I i] assms(2) by simp
  from run_policy_step(2) [OF assms(1), of I i w] assms(2)
  show "(\<exists>d. r = Inr d \<and> \<not> dc_degraded d \<and> \<not> dc_local_fallback d \<and> attempt_loop I p i n w = (Inr d, w1)) \<or>
     (\<exists>e. r = Inl (RedisError e) \<and> attempt_loop I p i n w =
       (let w2 = emit [mark_redis_error ''rate_limit_apply''] w1
        in case n of 0 \<Rightarrow> recover_after_redis_failure I p i w2
           | Suc m \<Rightarrow> attempt_loop I p i m (emit (retry_events (i_settings I)) w2)))"
    by (subst (1 2) attempt_loop.simps) auto
qed

text \<open>An attempt that answered, the recovery after the last attempt, and a retry before the next one.\<close>

lemma answered_outcome:
  assumes "attempt_frame w w1" "\<not> dc_degraded d" "\<not> dc_local_fallback d" "limiter_ok (w_limiter w)"
  shows "loop_outcome I p n w d w1 []"
  using assms by (simp add: loop_outcome_def attempt_frame_def)

lemma recovered_outcome:
  assumes "policy_ok p" "header_limit p \<le> 2 ^ 53" "attempt_frame w w1" "limiter_ok (w_limiter w)"
  shows "\<exists>d w' es. recover_after_redis_failure I p i (emit [mark_redis_error ''rate_limit_apply''] w1) = (Inr d, w') \<and>
    loop_outcome I p 0 w d w' ([mark_redis_error ''rate_limit_apply''] @ es)"
proof -
  let ?w2 = "emit [mark_redis_error ''rate_limit_apply''] w1"
  have lim: "limiter_ok (w_limiter ?w2)" using assms(3,4) by (simp add: attempt_frame_def)
  obtain d w' es where rec: "recover_after_redis_failure I p i ?w2 = (Inr d, w')" "dc_degraded d"
      "limiter_ok (w_limiter w')" "w_db w' = w_db ?w2" "w_events w' = w_events ?w2 @ es"
      "if set_enable_local_fallback_limiter (i_settings I)
       then dc_local_fallback d \<and> dc_limit d = header_limit p \<and> 0 \<le> dc_remaining d \<and> dc_remaining d \<le> header_limit p \<and>
         es = [mark_local_failover (algorithm_str (pol_algorithm p)) (selector_kind p), Log WARNING ''failover_local_limiter'']
       else \<not> dc_local_fallback d \<and> dc_limit d = header_limit p \<and>
         (dc_allowed d \<longleftrightarrow> pol_failure_mode p = FAIL_OPEN) \<and> w_limiter w' = w_limiter ?w2 \<and>
         dc_remaining d = (if pol_failure_mode p = FAIL_OPEN then header_limit p else 0) \<and>
         dc_retry_after_seconds d = (if pol_failure_mode p = FAIL_OPEN then 0 else 1) \<and> es = [Log WARNING ''redis_fallback'']"
    using recover_step [OF assms(1,2) lim, of I i] by blast
  have "loop_outcome I p 0 w d w' ([mark_redis_error ''rate_limit_apply''] @ es)"
    using rec(2-6) assms(3) header_limit_pos [OF assms(1)]
    by (auto simp: loop_outcome_def attempt_frame_def mark_defs split: if_splits)
  with rec(1) show ?thesis by blast
qed

lemma retried_outcome:
  assumes "attempt_frame w w1"
    and "loop_outcome I p n (emit (retry_events (i_settings I)) (emit [mark_redis_error ''rate_limit_apply''] w1)) d w' es"
  shows "loop_outcome I p (Suc n) w d w' ([mark_redis_error ''rate_limit_apply''] @ retry_events (i_settings I) @ es)"
  using assms by (auto simp: loop_outcome_def attempt_frame_def mark_defs split: if_splits)

lemma attempt_loop_decides:
  assumes "policy_ok p" "header_limit p \<le> 2 ^ 53"
  shows "limiter_ok (w_limiter w) \<Longrightarrow>
    \<exists>d w' es. attempt_loop I p i n w = (Inr d, w') \<and> loop_outcome I p n w d w' es"
proof (induction n arbitrary: w)
  case 0
  obtain r w1 where run: "run_policy I p i w = (r, w1)" by (rule prod.exhaust)
  note step = attempt_loop_unfold(1) [OF assms(1) run] attempt_loop_unfold(2) [OF assms(1) run, where n = 0]
  from step(2) show ?case
  proof (elim disjE exE conjE)
    fix e assume "attempt_loop I p i 0 w = (let w2 = emit [mark_redis_error ''rate_limit_apply''] w1 in
        case 0 of 0 \<Rightarrow> recover_after_redis_failure I p i w2
        | Suc m \<Rightarrow> attempt_loop I p i m (emit (retry_events (i_settings I)) w2))"
    with recovered_outcome [OF assms step(1) 0] show ?thesis by simp blast
  qed (use answered_outcome [OF step(1) _ _ 0] in blast)
next
  case (Suc n)
  obtain r w1 where run: "run_policy I p i w = (r, w1)" by (rule prod.exhaust)
  note step = attempt_loop_unfold(1) [OF assms(1) run] attempt_loop_unfold(2) [OF assms(1) run, where n = "Suc n"]
  let ?w3 = "emit (retry_events (i_settings I)) (emit [mark_redis_error ''rate_limit_apply''] w1)"
  from step(2) show ?case
  proof (elim disjE exE conjE)
    fix e assume loop: "attempt_loop I p i (Suc n) w = (let w2 = emit [mark_redis_error ''rate_limit_apply''] w1
        in case Suc n of 0 \<Rightarrow> recover_after_redis_failure I p i w2
        | Suc m \<Rightarrow> attempt_loop I p i m (emit (retry_events (i_settings I)) w2))"
    have "limiter_ok (w_limiter ?w3)" using Suc.prems step(1) by (simp add: attempt_frame_def)
    from Suc.IH [OF this] loop retried_outcome [OF step(1)] show ?thesis by auto blast
  qed (use answered_outcome [OF step(1) _ _ Suc.prems] in blast)
qed

section \<open>From the lookup to the verdict\<close>

text \<open>A lookup of the policy leaves the limiter and the rows alone and gives no verdict.\<close>

definition no_verdict :: "event list \<Rightarrow> bool" where
  "no_verdict es \<longleftrightarrow> counted ''allowed_requests_total'' es = 0 \<and> counted ''blocked_requests_total'' es = 0"

definition lookup_frame :: "('d, 'k) world \<Rightarrow> ('d, 'k) world \<Rightarrow> bool" where
  "lookup_frame w w' \<longleftrightarrow> w_db w' = w_db w \<and> w_limiter w' = w_limiter w \<and>
     (\<exists>es. w_events w' = w_events w @ es \<and> no_verdict es)"

lemma no_verdict_simps [simp]:
  "no_verdict []" "no_verdict (Log l n # es) = no_verdict es"
  "no_verdict (mark_redis_error op # es) = no_verdict es" "no_verdict (mark_policy_cache_hit # es) = no_verdict es"
  "no_verdict (mark_policy_cache_miss # es) = no_verdict es" "no_verdict (es @ es') = (no_verdict es \<and> no_verdict es')"
  by (auto simp: no_verdict_def mark_defs)

lemma lookup_frame_refl [wf_intros]: "lookup_frame w w"
  by (simp add: lookup_frame_def)

lemma lookup_frame_emit: "lookup_frame w w' \<Longrightarrow> no_verdict es \<Longrightarrow> lookup_frame w (emit es w')"
  by (auto simp: lookup_frame_def)

lemma lookup_frame_call: "lookup_frame w w' \<Longrightarrow> lookup_frame w (snd (redis_call I op w'))"
  by (simp add: lookup_frame_def)

lemma lookup_frame_snapshot:
  "lookup_frame w w' \<Longrightarrow> lookup_frame w (snapshot_set I ps w')"
  "lookup_frame w w' \<Longrightarrow> lookup_frame w (snd (get_fresh I ttl w'))"
  by (simp_all add: lookup_frame_def)

lemma lookup_frame_load: "lookup_frame w w' \<Longrightarrow> lookup_frame w (snd (load_from_database I w'))"
  by (simp add: load_from_database_def lookup_frame_snapshot split: sum.split)

lemma lookup_frame_get: "lookup_frame w (snd (redis_get I key w))"
  unfolding redis_get_def by (intro lookup_frame_call lookup_frame_refl)

lemma lookup_frame_setex: "lookup_frame w w' \<Longrightarrow> lookup_frame w (snd (redis_setex I key n v w'))"
  unfolding redis_setex_def by (rule lookup_frame_call)

lemma list_cached_frame: "lookup_frame w (snd (list_active_policies_cached I w))"
proof -
  obtain r w1 where get: "redis_get I (policy_cache_key (i_settings I)) w = (r, w1)" by (rule prod.exhaust)
  have f1: "lookup_frame w w1"
    using lookup_frame_get [of w I "policy_cache_key (i_settings I)"] unfolding get by simp
  have miss: "lookup_frame w (snd (list_active_policies_cached I w))" if "r = Inr None \<or> r = Inr (Some [])"
  proof -
    let ?w2 = "emit [mark_policy_cache_miss] w1"
    have f2: "lookup_frame w ?w2" by (intro lookup_frame_emit f1) simp
    show ?thesis
    proof (cases "list_policies I True (w_db ?w2)")
      case (Inl e)
      with that f2 show ?thesis by (auto simp: list_active_policies_cached_def get Let_def)
    next
      case (Inr ps)
      obtain s w3 where set: "redis_setex I (policy_cache_key (i_settings I)) (set_policy_cache_ttl_seconds (i_settings I)) (i_dump I ps) ?w2 = (s, w3)"
        by (rule prod.exhaust)
      have f3: "lookup_frame w w3"
        using lookup_frame_setex [OF f2, of I "policy_cache_key (i_settings I)" "set_policy_cache_ttl_seconds (i_settings I)" "i_dump I ps"]
        unfolding set by simp
      from that Inr f3 show ?thesis
        by (cases s) (auto simp: list_active_policies_cached_def get Let_def set intro!: lookup_frame_emit lookup_frame_snapshot)
    qed
  qed
  show ?thesis
  proof (cases r)
    case (Inl e)
    let ?w2 = "emit [mark_redis_error ''policy_cache_get'', Log WARNING ''redis_fallback''] w1"
    have f2: "lookup_frame w ?w2" by (intro lookup_frame_emit f1) simp
    obtain c w3 where fresh: "get_fresh I (set_local_policy_cache_ttl_seconds (i_settings I)) ?w2 = (c, w3)" by (rule prod.exhaust)
    have "lookup_frame w w3"
      using lookup_frame_snapshot(2) [OF f2, of I "set_local_policy_cache_ttl_seconds (i_settings I)"] unfolding fresh by simp
    then show ?thesis
      by (simp add: list_active_policies_cached_def get Inl fresh lookup_frame_load split: option.split)
  next
    case (Inr v)
    show ?thesis
    proof (cases "v = None \<or> v = Some []")
      case False
      then obtain c cs where v: "v = Some (c # cs)" by (metis list.exhaust option.exhaust)
      have "lookup_frame w (emit [mark_policy_cache_hit] w1)" by (intro lookup_frame_emit f1) simp
      with v show ?thesis
        by (simp add: list_active_policies_cached_def get Inr Let_def lookup_frame_emit lookup_frame_snapshot split: sum.split)
    qed (use Inr miss in blast)
  qed
qed

lemma resolve_frame: "resolve_policy I i w = (r, w1) \<Longrightarrow> lookup_frame w w1"
  using list_cached_frame [of w I] by (auto simp: resolve_policy_def split: prod.splits sum.splits)

section \<open>Without Redis, and with it\<close>

definition outage :: "('d, 'k) inst \<Rightarrow> bool" where
  "outage I \<longleftrightarrow> (\<forall>m. env_fault (i_env I) m \<noteq> Delivered)"

lemma outage_run: "policy_ok p \<Longrightarrow> outage I \<Longrightarrow> fst (run_policy I p i w) = Inl (RedisError ConnectionLost)"
  by (rule run_policy_step(3)) (simp_all add: outage_def)

text \<open>In an outage the loop uses up its attempts and recovers, with the limiter it started with.\<close>

lemma outage_loop:
  assumes "policy_ok p" "outage I"
  shows "\<exists>w1. attempt_loop I p i n w = recover_after_redis_failure I p i w1 \<and> w_limiter w1 = w_limiter w \<and> w_db w1 = w_db w"
proof (induction n arbitrary: w)
  case 0
  obtain r w1 where run: "run_policy I p i w = (r, w1)" by (rule prod.exhaust)
  with outage_run [OF assms, of i w] attempt_loop_unfold(1) [OF assms(1) run] show ?case
    by (intro exI [of _ "emit [mark_redis_error ''rate_limit_apply''] w1"])
      (simp add: attempt_loop.simps [of I p i 0 w] attempt_frame_def Let_def)
next
  case (Suc n)
  obtain r w1 where run: "run_policy I p i w = (r, w1)" by (rule prod.exhaust)
  let ?w3 = "emit (retry_events (i_settings I)) (emit [mark_redis_error ''rate_limit_apply''] w1)"
  have "attempt_loop I p i (Suc n) w = attempt_loop I p i n ?w3" "w_limiter ?w3 = w_limiter w" "w_db ?w3 = w_db w"
    using outage_run [OF assms, of i w] attempt_loop_unfold(1) [OF assms(1) run] run
    by (simp_all add: attempt_loop.simps [of I p i "Suc n" w] attempt_frame_def Let_def)
  with Suc.IH [of ?w3] show ?case by auto
qed

lemma run_policy_fixed:
  "pol_algorithm p = FIXED_WINDOW \<Longrightarrow> run_policy I p i w =
     eval_script I (fixed_window_lua (i_redis I) (build_rate_limit_key p i) (pol_rate p) (pol_window_seconds p * 1000)) w"
  by (simp add: run_policy_def Let_def)

lemma run_policy_sliding:
  "pol_algorithm p = SLIDING_WINDOW_LOG \<Longrightarrow> run_policy I p i w =
     eval_script I (sliding_window_log_lua (i_redis I) (build_rate_limit_key p i) (pol_rate p) (pol_window_seconds p * 1000)
       (env_uuid_hex (i_env I) (w_tick w))) (w\<lparr>w_tick := w_tick w + 1\<rparr>)"
  by (simp add: run_policy_def Let_def fresh_hex_def)

lemma eval_delivered:
  "env_fault (i_env I) (w_tick w) = Delivered \<Longrightarrow> eval_script I script w =
     (let k = env_server (i_env I) (w_tick w) (w_redis w)
      in (parse_reply (fst (script k)), w\<lparr>w_tick := w_tick w + 1, w_redis := snd (script k)\<rparr>))"
  by (simp add: eval_script_def redis_call_def Let_def)

lemma eval_reply_lost:
  "env_fault (i_env I) (w_tick w) = ReplyLost \<Longrightarrow> eval_script I script w =
     (Inl (RedisError ConnectionLost), w\<lparr>w_tick := w_tick w + 1, w_redis := snd (script (env_server (i_env I) (w_tick w) (w_redis w)))\<rparr>)"
  by (simp add: eval_script_def redis_call_def Let_def)

text \<open>The decision of the local limiter with the flags of a decision from Redis.\<close>

definition redis_decision :: "local_decision \<Rightarrow> rate_limit_decision" where
  "redis_decision l = (fallback_decision l)\<lparr>dc_degraded := False, dc_local_fallback := False\<rparr>"

lemma parse_computation:
  assumes "\<bar>limit\<bar> \<le> 2 ^ 53" "\<bar>rc_remaining c\<bar> \<le> 2 ^ 53" "\<bar>rc_reset_at_ms c\<bar> \<le> 2 ^ 53" "\<bar>rc_retry_after_ms c\<bar> \<le> 2 ^ 53"
    and "header_limit p = limit"
  shows "parse_reply (Inr (lua_reply (rc_allowed c) limit (rc_remaining c) (rc_reset_at_ms c) (rc_retry_after_ms c) n)) =
    Inr (redis_decision (to_decision p c))"
  using assms by (simp add: redis_decision_def fallback_decision_def to_decision_def)

lemma counted_verdict [simp]:
  "counted ''allowed_requests_total'' (verdict_events p d) = (if dc_allowed d then 1 else 0)"
  "counted ''blocked_requests_total'' (verdict_events p d) = (if dc_allowed d then 0 else 1)"
  "counted ''redis_errors_total'' (verdict_events p d) = 0" "counted ''redis_retries_total'' (verdict_events p d) = 0"
  by (simp_all add: verdict_events_def mark_defs)

text \<open>An evaluation whose policy is found is its attempt loop and the verdict.\<close>

lemma evaluate_loop:
  assumes "resolve_policy I i w = (Inr (Some p), w1)" "policy_ok p" "header_limit p \<le> 2 ^ 53" "limiter_ok (w_limiter w)"
  shows "\<exists>d w2 es. attempt_loop I p i (nat (max_attempts (i_settings I) - 1)) w1 = (Inr d, w2) \<and>
    loop_outcome I p (nat (max_attempts (i_settings I) - 1)) w1 d w2 es \<and>
    evaluate I i w = (Inr (Some (d, p)), emit (verdict_events p d) w2)"
proof -
  have "limiter_ok (w_limiter w1)" using resolve_frame [OF assms(1)] assms(4) by (simp add: lookup_frame_def)
  from attempt_loop_decides [OF assms(2,3) this] obtain d w2 es where
    "attempt_loop I p i (nat (max_attempts (i_settings I) - 1)) w1 = (Inr d, w2)"
    "loop_outcome I p (nat (max_attempts (i_settings I) - 1)) w1 d w2 es" by blast
  with assms(1) show ?thesis by (auto simp: evaluate_def)
qed

section \<open>Concrete instances\<close>

lemma demo_selected: "select_best_policy [example_policy] example_identity = Some example_policy"
  by code_simp

lemma resolve_selected:
  "fst (list_active_policies_cached I w) = Inr [example_policy] \<Longrightarrow>
     \<exists>w1. resolve_policy I example_identity w = (Inr (Some example_policy), w1)"
  by (auto simp: resolve_policy_def demo_selected split: prod.split sum.split)

lemma demo_resolve: "\<exists>w1. resolve_policy demo_inst example_identity demo_world = (Inr (Some example_policy), w1)"
  by (rule resolve_selected) (simp add: cache_miss)

text \<open>The demo instance while Redis is unreachable, with and without the local limiter.\<close>

definition outage_inst :: "bool \<Rightarrow> (memory_db, keyspace) inst" where
  "outage_inst local = demo_inst\<lparr>i_env := demo_env\<lparr>env_fault := \<lambda>_. RequestLost\<rparr>,
     i_settings := default_settings\<lparr>set_enable_local_fallback_limiter := local\<rparr>\<rparr>"

lemma outage_db: "i_db (outage_inst b) = memory_database"
  by (simp add: outage_inst_def)

lemma outage_inst_simps [simp]: "outage (outage_inst b)" "set_enable_local_fallback_limiter (i_settings (outage_inst b)) = b"
  by (simp_all add: outage_inst_def outage_def)

lemma outage_resolve: "\<exists>w1. resolve_policy (outage_inst b) example_identity demo_world = (Inr (Some example_policy), w1)"
proof (rule resolve_selected)
  have "list_policies (outage_inst b) True d = list_policies demo_inst True d" for d
    unfolding list_policies_def by (simp only: outage_db demo_simps)
  moreover have "env_fault (i_env (outage_inst b)) (w_tick demo_world) \<noteq> Delivered" by (simp add: outage_inst_def)
  moreover have "w_snapshot demo_world = None" by (simp add: demo_world_def)
  ultimately show "fst (list_active_policies_cached (outage_inst b) demo_world) = Inr [example_policy]"
    by (simp add: unreachable_list)
qed

lemma windowed_policy_ok: "alg \<noteq> TOKEN_BUCKET \<Longrightarrow> 0 < limit \<Longrightarrow> 0 < w \<Longrightarrow> policy_ok (windowed_policy alg limit w)"
  by (simp add: windowed_policy_def example_policy_def policy_ok_def validate_policy_def to_policy_payload_def
      field_checks_def failed_checks_def gt_zero_def length_at_most_def validate_algorithm_specifics_def)

lemma demo_limits [simp]: "header_limit example_policy = 15" "limiter_ok (w_limiter demo_world)"
  by (simp_all add: example_policy_def header_limit_def or_int_def demo_world_def limiter_ok_new)

section \<open>Properties\<close>

text \<open>
  C4. Every evaluation that finds a policy ends in a decision under that policy, whatever
  the clock, the network and the server do: no exception escapes, the attempts end, the
  database is not written, and exactly one of the two verdict counters grows, by one, the
  one the decision says.
\<close>

theorem evaluate_decides:
  assumes "resolve_policy I i w = (Inr (Some p), w1)" "policy_ok p" "header_limit p \<le> 2 ^ 53" "limiter_ok (w_limiter w)"
  shows "\<exists>d w' es. evaluate I i w = (Inr (Some (d, p)), w') \<and> w_events w' = w_events w @ es \<and> w_db w' = w_db w \<and>
    limiter_ok (w_limiter w') \<and>
    counted ''allowed_requests_total'' es = (if dc_allowed d then 1 else 0) \<and>
    counted ''blocked_requests_total'' es = (if dc_allowed d then 0 else 1)"
proof -
  obtain d w2 es where run: "loop_outcome I p (nat (max_attempts (i_settings I) - 1)) w1 d w2 es"
    "evaluate I i w = (Inr (Some (d, p)), emit (verdict_events p d) w2)"
    using evaluate_loop [OF assms] by blast
  from resolve_frame [OF assms(1)] obtain es0 where es0: "w_events w1 = w_events w @ es0" "no_verdict es0" "w_db w1 = w_db w"
    by (auto simp: lookup_frame_def)
  with run show ?thesis
    by (intro exI [of _ d] exI [of _ "emit (verdict_events p d) w2"] exI [of _ "es0 @ es @ verdict_events p d"])
      (simp add: loop_outcome_def no_verdict_def)
qed

theorem evaluate_decides_witness:
  "\<exists>d w'. evaluate demo_inst example_identity demo_world = (Inr (Some (d, example_policy)), w')"
  using demo_resolve evaluate_decides [of demo_inst example_identity demo_world example_policy] by auto

text \<open>
  C15. The retries are bounded and accounted for. After the policy is resolved there are at
  most \<open>max_attempts\<close> script calls that fail; the decision is degraded exactly when that many
  failed, then one retry less was counted than errors, and otherwise each error was followed
  by a retry and the last call answered. The local limiter decides a degraded request exactly
  when it is enabled.
\<close>

theorem retries_accounted:
  assumes "resolve_policy I i w = (Inr (Some p), w1)" "policy_ok p" "header_limit p \<le> 2 ^ 53" "limiter_ok (w_limiter w)"
    and "n = nat (max_attempts (i_settings I))"
  shows "\<exists>d w' es. evaluate I i w = (Inr (Some (d, p)), w') \<and> w_events w' = w_events w1 @ es \<and>
    counted ''redis_errors_total'' es \<le> n \<and>
    (dc_degraded d \<longleftrightarrow> counted ''redis_errors_total'' es = n) \<and>
    counted ''redis_retries_total'' es = (if dc_degraded d then n - 1 else counted ''redis_errors_total'' es) \<and>
    (dc_local_fallback d \<longleftrightarrow> dc_degraded d \<and> set_enable_local_fallback_limiter (i_settings I))"
proof -
  let ?r = "nat (max_attempts (i_settings I) - 1)"
  have n: "n = Suc ?r" unfolding assms(5) by (simp add: max_attempts_def)
  obtain d w2 es where run: "loop_outcome I p ?r w1 d w2 es"
    "evaluate I i w = (Inr (Some (d, p)), emit (verdict_events p d) w2)"
    using evaluate_loop [OF assms(1-4)] by blast
  then show ?thesis unfolding n
    by (intro exI [of _ d] exI [of _ "emit (verdict_events p d) w2"] exI [of _ "es @ verdict_events p d"])
      (auto simp: loop_outcome_def split: if_splits)
qed

theorem retries_accounted_witness:
  "\<exists>d w' pre es. evaluate (outage_inst True) example_identity demo_world = (Inr (Some (d, example_policy)), w') \<and>
     w_events w' = pre @ es \<and> counted ''redis_errors_total'' es \<le> 2 \<and> (dc_degraded d \<longleftrightarrow> counted ''redis_errors_total'' es = 2)"
proof -
  obtain w1 where res: "resolve_policy (outage_inst True) example_identity demo_world = (Inr (Some example_policy), w1)"
    using outage_resolve by blast
  have "2 = nat (max_attempts (i_settings (outage_inst True)))"
    by (simp add: max_attempts_def outage_inst_def default_settings_def)
  from retries_accounted [OF res _ _ _ this] obtain d w' es
    where "evaluate (outage_inst True) example_identity demo_world = (Inr (Some (d, example_policy)), w')"
      "w_events w' = w_events w1 @ es" "counted ''redis_errors_total'' es \<le> 2"
      "dc_degraded d \<longleftrightarrow> counted ''redis_errors_total'' es = 2" by auto
  then show ?thesis by (intro exI conjI)
qed

text \<open>
  C10. In an outage the request is still decided, by the rule the operator chose: with the
  local limiter enabled the decision is the local limiter's on its own state, flagged as a
  fallback, and without it a policy that fails open admits with its full limit and one that
  fails closed refuses with a retry after one second and touches no limiter state.
\<close>

theorem outage_decision:
  assumes "outage I" "resolve_policy I i w = (Inr (Some p), w1)" "policy_ok p" "header_limit p \<le> 2 ^ 53" "limiter_ok (w_limiter w)"
  shows "\<exists>d w'. evaluate I i w = (Inr (Some (d, p)), w') \<and> dc_degraded d \<and>
    (if set_enable_local_fallback_limiter (i_settings I)
     then \<exists>t l. local_apply (clock_ms t) p i None (w_limiter w) = (Inr l, w_limiter w') \<and> d = fallback_decision l
     else w_limiter w' = w_limiter w \<and> dc_limit d = header_limit p \<and>
       (if pol_failure_mode p = FAIL_OPEN
        then dc_allowed d \<and> dc_remaining d = header_limit p \<and> dc_retry_after_seconds d = 0
        else \<not> dc_allowed d \<and> dc_remaining d = 0 \<and> dc_retry_after_seconds d = 1))"
proof -
  obtain d w2 where run: "attempt_loop I p i (nat (max_attempts (i_settings I) - 1)) w1 = (Inr d, w2)"
    "evaluate I i w = (Inr (Some (d, p)), emit (verdict_events p d) w2)"
    using evaluate_loop [OF assms(2-5)] by blast
  obtain v where v: "recover_after_redis_failure I p i v = (Inr d, w2)" "w_limiter v = w_limiter w1"
    using outage_loop [OF assms(3,1), of i "nat (max_attempts (i_settings I) - 1)" w1] run(1) by auto
  have lim: "w_limiter v = w_limiter w" using v(2) resolve_frame [OF assms(2)] by (simp add: lookup_frame_def)
  show ?thesis
  proof (cases "set_enable_local_fallback_limiter (i_settings I)")
    case True
    let ?t = "env_time (i_env I) (w_tick v)"
    obtain r L where loc: "local_apply (clock_ms ?t) p i None (w_limiter w) = (r, L)" by (rule prod.exhaust)
    with v(1) True lim obtain l where "r = Inr l" "d = fallback_decision l" "w_limiter w2 = L"
      by (cases r) (auto simp: recover_after_redis_failure_def read_time_def)
    with loc True run(2) show ?thesis by (auto simp: fallback_decision_def)
  next
    case False
    with v lim run(2) show ?thesis
      by (auto simp: recover_after_redis_failure_def build_degraded_decision_def read_time_def Let_def split: if_splits)
  qed
qed

theorem outage_decision_witness:
  "\<exists>d w'. evaluate (outage_inst False) example_identity demo_world = (Inr (Some (d, example_policy)), w') \<and>
     \<not> dc_allowed d \<and> dc_degraded d \<and> dc_retry_after_seconds d = 1"
proof -
  obtain w1 where res: "resolve_policy (outage_inst False) example_identity demo_world = (Inr (Some example_policy), w1)"
    using outage_resolve by blast
  have "pol_failure_mode example_policy = FAIL_CLOSED" by (simp add: example_policy_def)
  with outage_decision [OF _ res] show ?thesis by auto
qed

text \<open>
  C8. Failing over to the local limiter changes nothing but where the state is, for a
  fixed-window policy: when the local entry of the quota is the state of the counter in
  Redis and the clocks agree, the script's decision, parsed from its reply, and the local
  limiter's decision are the same but for the flags, and the two states are again the same.
\<close>

theorem failover_equivalence_fixed_window:
  assumes "redis_server (i_redis I) view" "env_fault (i_env I) (w_tick w) = Delivered" "policy_ok p" "pol_algorithm p = FIXED_WINDOW"
    and "k = env_server (i_env I) (w_tick w) (w_redis w)" "now = server_now_ms (i_redis I) k" "0 \<le> now"
      "now + pol_window_seconds p * 1000 \<le> 2 ^ 53" "pol_rate p \<le> 2 ^ 53"
    and "key = build_rate_limit_key p i" "ws = window_start (pol_window_seconds p) now" "ckey = window_key key ws"
    and "counter_ok (view k ckey)" "kinds_ok L"
    and "map_option fst (evict_entry now (fixed_entry L key)) = fw_abs (pol_rate p) ws ckey (view k)"
  shows "\<exists>l w' L'. run_policy I p i w = (Inr (redis_decision l), w') \<and> local_apply now p i None L = (Inr l, L') \<and>
    map_option fst (fixed_entry L' key) = fw_abs (pol_rate p) ws ckey (view (w_redis w'))"
proof -
  note p = policy_okD(1,2) [OF assms(3)]
  let ?w = "pol_window_seconds p"
  obtain s' c where alg: "apply_fixed_window now (fw_abs (pol_rate p) ws ckey (view k)) (pol_rate p) ?w = Inr (s', c)"
    and c: "0 \<le> rc_remaining c" "rc_remaining c \<le> pol_rate p" "rc_reset_at_ms c = ws + ?w * 1000"
      "rc_retry_after_ms c = max 0 (ws + ?w * 1000 - now)"
  proof -
    have w0: "?w \<noteq> 0" using p by simp
    have "0 \<le> fw_base ?w (fw_abs (pol_rate p) ws ckey (view k)) now"
      using assms(13) p by (auto simp: fw_base_def fw_abs_def counter_ok_def split: option.splits redis_value.splits)
    then show ?thesis
      using that apply_fixed_window_eq [OF w0, of now "fw_abs (pol_rate p) ws ckey (view k)" "pol_rate p"] p assms(11)
      by (auto simp: Let_def)
  qed
  have ws: "0 \<le> ws" "ws \<le> now" unfolding assms(11) window_start_def using assms(7) p
    by (simp_all add: pos_mod_sign) (metis add.commute div_mult_mod_eq le_add_same_cancel2 minus_mod_eq_div_mult mult_nonneg_nonneg pos_imp_zdiv_nonneg_iff zero_less_mult_iff order_less_imp_le zero_less_numeral)
  have "\<exists>d L'. local_apply now p i None L = (Inr d, L') \<and> d = to_decision p c \<and> ld_allowed d = rc_allowed c \<and>
      fixed_entry L' key = Some (s', window_expiry (pol_rate p, ?w, ll_state_ttl_ms L) now c)"
    by (rule local_apply_fixed [OF assms(4,14) assms(10) [symmetric]]) (simp add: fixed_step_def assms(15) alg)
  then obtain L' where L': "local_apply now p i None L = (Inr (to_decision p c), L')" "map_option fst (fixed_entry L' key) = Some s'"
    by auto
  obtain count k' where lua: "fixed_window_lua (i_redis I) key (pol_rate p) (?w * 1000) k =
      (Inr (lua_reply (rc_allowed c) (pol_rate p) (rc_remaining c) (rc_reset_at_ms c) (rc_retry_after_ms c) count), k')"
    "fw_abs (pol_rate p) ws ckey (view k') = Some s'"
  proof -
    have wpos: "0 < ?w * 1000" "0 < ?w" "0 \<le> pol_rate p" using p by simp_all
    obtain r k' where run: "fixed_window_lua (i_redis I) key (pol_rate p) (?w * 1000) k = (r, k')" by (rule prod.exhaust)
    have sim: "fixed_window_view now key (pol_rate p) (?w * 1000) (view k) = (r, view k')"
      using redis_server.fixed_window_lua_view(1) [OF assms(1) wpos(1), of k key "pol_rate p"] unfolding run assms(6) by simp
    from fixed_window_view_refines [OF wpos(2,3) assms(13) [unfolded assms(11,12)] alg [unfolded assms(11,12)]] run sim that
    show ?thesis unfolding assms(11,12) by auto
  qed
  have "parse_reply (Inr (lua_reply (rc_allowed c) (pol_rate p) (rc_remaining c) (rc_reset_at_ms c) (rc_retry_after_ms c) count)) =
      Inr (redis_decision (to_decision p c))"
    using c p ws assms(7-9) header_limit_rate [OF assms(3)] assms(4) by (intro parse_computation) auto
  then have "run_policy I p i w = (Inr (redis_decision (to_decision p c)), w\<lparr>w_tick := w_tick w + 1, w_redis := k'\<rparr>)"
    by (simp add: run_policy_fixed [OF assms(4)] eval_delivered [OF assms(2)] assms(5) [symmetric] assms(10) [symmetric] lua)
  with L' lua(2) show ?thesis by simp
qed

theorem failover_equivalence_fixed_window_witness:
  "\<exists>l w' L'. run_policy demo_inst (windowed_policy FIXED_WINDOW 2 60) example_identity demo_world = (Inr (redis_decision l), w') \<and>
     local_apply 100000 (windowed_policy FIXED_WINDOW 2 60) example_identity None (new_limiter 120) = (Inr l, L')"
proof -
  have now: "100000 = server_now_ms ks_commands (w_redis demo_world)" by (simp add: ks_now_def demo_world_def)
  have none: "ks_view (w_redis demo_world) key = None" for key by (simp add: ks_view_def live_at_def demo_world_def)
  have env: "w_redis demo_world = env_server (i_env demo_inst) (w_tick demo_world) (w_redis demo_world)"
    "env_fault (i_env demo_inst) (w_tick demo_world) = Delivered" by (simp_all add: demo_env_def)
  have lim: "kinds_ok (new_limiter 120)" "fixed_entry (new_limiter 120) key = None" for key
    by (rule kinds_ok_new) (simp add: fixed_entry_def new_limiter_def)
  from failover_equivalence_fixed_window [where view = ks_view and I = demo_inst, OF _ env(2) _ _ env(1) _ _ _ _ refl refl refl _ lim(1),
      of "windowed_policy FIXED_WINDOW 2 60" 100000 example_identity] now
  show ?thesis
    by (simp add: ks.redis_server_axioms none lim(2) counter_ok_def fw_abs_def evict_entry_def windowed_policy_ok) blast
qed

text \<open>
  C9. The same for a sliding-window policy: when the local log of the quota holds the scores
  of its sorted set in Redis, script and local limiter decide alike and leave equal logs.
\<close>

theorem failover_equivalence_sliding_window:
  assumes "redis_server (i_redis I) view" "env_fault (i_env I) (w_tick w + 1) = Delivered" "policy_ok p" "pol_algorithm p = SLIDING_WINDOW_LOG"
    and "k = env_server (i_env I) (w_tick w + 1) (w_redis w)" "now = server_now_ms (i_redis I) k" "0 \<le> now"
      "now + pol_window_seconds p * 1000 \<le> 2 ^ 53" "pol_rate p \<le> 2 ^ 53"
    and "key = build_rate_limit_key p i" "zset_ok now (env_uuid_hex (i_env I) (w_tick w)) (view k key)" "kinds_ok L"
    and "(case evict_entry now (events_entry L key) of None \<Rightarrow> [] | Some e \<Rightarrow> fst e) = sw_abs key (view k)"
  shows "\<exists>l w' L'. run_policy I p i w = (Inr (redis_decision l), w') \<and> local_apply now p i None L = (Inr l, L') \<and>
    map_option fst (events_entry L' key) = Some (sw_abs key (view (w_redis w')))"
proof -
  note p = policy_okD(1,2) [OF assms(3)]
  let ?w = "pol_window_seconds p" and ?m = "env_uuid_hex (i_env I) (w_tick w)"
  obtain ev c where alg: "apply_sliding_window_log now (sw_abs key (view k)) (pol_rate p) ?w = (ev, c)" by (rule prod.exhaust)
  have "0 \<le> e \<and> e \<le> now" if "e \<in> set (sw_abs key (view k))" for e
    using assms(11) that by (force simp: zset_ok_def sw_abs_def split: option.splits redis_value.splits)
  then have rec: "0 \<le> e \<and> e \<le> now" if "e \<in> set (recent ?w now (sw_abs key (view k)))" for e
    using that by (auto simp: recent_def)
  have ev: "ev = recent ?w now (sw_abs key (view k)) \<or> ev = recent ?w now (sw_abs key (view k)) @ [now]"
    using alg by (auto simp: apply_sliding_window_log_eq Let_def split: if_splits)
  then have "set ev \<subseteq> insert now (set (recent ?w now (sw_abs key (view k))))" by auto
  moreover have "(case ev of [] \<Rightarrow> now | e # _ \<Rightarrow> e) \<in> insert now (set ev)" by (cases ev) simp_all
  ultimately have mem: "(case ev of [] \<Rightarrow> now | e # _ \<Rightarrow> e) \<in> insert now (set (recent ?w now (sw_abs key (view k))))" by blast
  have "0 \<le> e \<and> e \<le> now" if "e \<in> insert now (set (recent ?w now (sw_abs key (view k))))" for e
    using that rec [of e] assms(7) by auto
  note this [OF mem]
  then have c: "0 \<le> rc_remaining c" "rc_remaining c \<le> pol_rate p"
      "0 \<le> rc_reset_at_ms c" "rc_reset_at_ms c \<le> now + ?w * 1000" "rc_retry_after_ms c = max 0 (rc_reset_at_ms c - now)"
    using alg p by (auto simp: apply_sliding_window_log_eq Let_def)
  have "\<exists>d L'. local_apply now p i None L = (Inr d, L') \<and> d = to_decision p c \<and> ld_allowed d = rc_allowed c \<and>
      events_entry L' key = Some (ev, window_expiry (pol_rate p, ?w, ll_state_ttl_ms L) now c)"
    by (rule local_apply_sliding [OF assms(4,12) assms(10) [symmetric]])
      (use assms(13) alg in \<open>auto simp: sliding_step_def split: option.splits\<close>)
  then obtain L' where L': "local_apply now p i None L = (Inr (to_decision p c), L')" "map_option fst (events_entry L' key) = Some ev"
    by auto
  have wpos: "0 < ?w * 1000" "0 < ?w" using p by simp_all
  obtain r k' where run: "sliding_window_log_lua (i_redis I) key (pol_rate p) (?w * 1000) ?m k = (r, k')" by (rule prod.exhaust)
  have sim: "sliding_window_view now key (pol_rate p) (?w * 1000) ?m (view k) = (r, view k')"
    using redis_server.sliding_window_lua_view(1) [OF assms(1) wpos(1), of k key "pol_rate p" ?m] unfolding run assms(6) by simp
  from sliding_window_view_refines [OF wpos(2) assms(11) alg] sim
  have r: "r = Inr (lua_reply (rc_allowed c) (pol_rate p) (rc_remaining c) (rc_reset_at_ms c) (rc_retry_after_ms c) (int (length ev)))"
    "sw_abs key (view k') = ev" by auto
  have "parse_reply r = Inr (redis_decision (to_decision p c))"
    using c p assms(7-9) header_limit_rate [OF assms(3)] assms(4) unfolding r(1) by (intro parse_computation) auto
  moreover have "run_policy I p i w = (parse_reply r, w\<lparr>w_tick := w_tick w + 2, w_redis := k'\<rparr>)"
    using assms(2,5) run by (simp add: run_policy_sliding [OF assms(4)] eval_delivered assms(10) [symmetric])
  ultimately show ?thesis using L' r(2) by simp
qed

theorem failover_equivalence_sliding_window_witness:
  "\<exists>l w' L'. run_policy demo_inst (windowed_policy SLIDING_WINDOW_LOG 2 60) example_identity demo_world = (Inr (redis_decision l), w') \<and>
     local_apply 100000 (windowed_policy SLIDING_WINDOW_LOG 2 60) example_identity None (new_limiter 120) = (Inr l, L')"
proof -
  have now: "100000 = server_now_ms ks_commands (w_redis demo_world)" by (simp add: ks_now_def demo_world_def)
  have none: "ks_view (w_redis demo_world) key = None" for key by (simp add: ks_view_def live_at_def demo_world_def)
  have env: "w_redis demo_world = env_server (i_env demo_inst) (w_tick demo_world + 1) (w_redis demo_world)"
    "env_fault (i_env demo_inst) (w_tick demo_world + 1) = Delivered" by (simp_all add: demo_env_def)
  have lim: "kinds_ok (new_limiter 120)" "events_entry (new_limiter 120) key = None" for key
    by (rule kinds_ok_new) (simp add: events_entry_def new_limiter_def)
  from failover_equivalence_sliding_window [where view = ks_view and I = demo_inst, OF _ env(2) _ _ env(1) _ _ _ _ refl _ lim(1),
      of "windowed_policy SLIDING_WINDOW_LOG 2 60" 100000 example_identity] now
  show ?thesis
    by (simp add: ks.redis_server_axioms none lim(2) zset_ok_def sw_abs_def evict_entry_def windowed_policy_ok) blast
qed

text \<open>
  A lost reply charges the client twice. When the first script call of an evaluation in a
  fresh fixed window is executed but its reply is lost, and the retry is answered in the same
  window, the one request has used two of the limit: it is refused under a limit of one.
\<close>

theorem lost_reply_charges_twice:
  assumes "redis_server (i_redis I) view" "policy_ok p" "pol_algorithm p = FIXED_WINDOW" "pol_rate p \<le> 2 ^ 53"
    and "env_fault (i_env I) (w_tick w) = ReplyLost" "env_fault (i_env I) (w_tick w + 1) = Delivered"
    and "\<forall>k. env_server (i_env I) (w_tick w + 1) k = k" "k = env_server (i_env I) (w_tick w) (w_redis w)"
    and "now = server_now_ms (i_redis I) k"
    and "view k (window_key (build_rate_limit_key p i) (window_start (pol_window_seconds p) now)) = None"
  shows "\<exists>d w'. attempt_loop I p i (Suc n) w = (Inr d, w') \<and> \<not> dc_degraded d \<and>
    (dc_allowed d \<longleftrightarrow> 2 \<le> pol_rate p) \<and> dc_remaining d = max 0 (pol_rate p - 2)"
proof -
  note p = policy_okD(1,2) [OF assms(2)]
  let ?C = "i_redis I" and ?key = "build_rate_limit_key p i" and ?ms = "pol_window_seconds p * 1000"
  have wpos: "0 < ?ms" using p by simp
  let ?ck = "window_key ?key (now - now mod ?ms)"
  obtain r1 k1 where run1: "fixed_window_lua ?C ?key (pol_rate p) ?ms k = (r1, k1)" by (rule prod.exhaust)
  obtain r2 k2 where run2: "fixed_window_lua ?C ?key (pol_rate p) ?ms k1 = (r2, k2)" by (rule prod.exhaust)
  note sim = redis_server.fixed_window_lua_view [OF assms(1) wpos]
  have now1: "server_now_ms ?C k1 = now"
    using sim(2) [of ?key "pol_rate p" k] unfolding run1 assms(9) by (simp add: server_now_ms_def)
  have s1: "fixed_window_view now ?key (pol_rate p) ?ms (view k) = (r1, view k1)"
    using sim(1) [of k ?key "pol_rate p"] unfolding run1 assms(9) by simp
  have s2: "fixed_window_view now ?key (pol_rate p) ?ms (view k1) = (r2, view k2)"
    using sim(1) [of k1 ?key "pol_rate p"] unfolding run2 now1 by simp
  have fresh: "view k ?ck = None" using assms(10) unfolding window_start_def by simp
  have "view k1 ?ck = Some (RInt 1, Some (now + (?ms + 1000)))"
    using arg_cong [OF s1, of "\<lambda>x. snd x ?ck"] fresh wpos
    by (simp add: fixed_window_view_def Let_def view_incr_def view_pexpire_def)
  with arg_cong [OF s2, of fst] have "r2 = Inr (lua_reply (2 \<le> pol_rate p) (pol_rate p) (max 0 (pol_rate p - 2))
      (now - now mod ?ms + ?ms) (max 0 (now - now mod ?ms + ?ms - now)) 2)"
    by (auto simp: fixed_window_view_def Let_def view_incr_def)
  then obtain reset retry where r2: "r2 = Inr (lua_reply (2 \<le> pol_rate p) (pol_rate p) (max 0 (pol_rate p - 2)) reset retry 2)" by blast
  obtain d where d: "parse_reply r2 = Inr d" "\<not> dc_degraded d" "dc_allowed d \<longleftrightarrow> 2 \<le> pol_rate p" "dc_remaining d = max 0 (pol_rate p - 2)"
    using r2 p assms(4) by simp
  let ?w1 = "w\<lparr>w_tick := w_tick w + 1, w_redis := k1\<rparr>"
  let ?w2 = "emit (retry_events (i_settings I)) (emit [mark_redis_error ''rate_limit_apply''] ?w1)"
  have first: "run_policy I p i w = (Inl (RedisError ConnectionLost), ?w1)"
    by (simp add: run_policy_fixed [OF assms(3)] eval_reply_lost [OF assms(5)] assms(8) [symmetric] run1)
  have second: "run_policy I p i ?w2 = (Inr d, ?w2\<lparr>w_tick := w_tick ?w2 + 1, w_redis := k2\<rparr>)"
    using assms(6,7) run2 d(1) by (simp add: run_policy_fixed [OF assms(3)] eval_delivered)
  have "attempt_loop I p i (Suc n) w = attempt_loop I p i n ?w2"
    by (simp add: attempt_loop.simps [of I p i "Suc n" w] first Let_def)
  moreover have "attempt_loop I p i n ?w2 = (Inr d, ?w2\<lparr>w_tick := w_tick ?w2 + 1, w_redis := k2\<rparr>)"
    by (simp only: attempt_loop.simps [of I p i n ?w2] second prod.case sum.case)
  ultimately show ?thesis using d by auto
qed

theorem lost_reply_charges_twice_witness:
  "\<exists>d w'. attempt_loop (demo_inst\<lparr>i_env := demo_env\<lparr>env_fault := \<lambda>n. if n = 0 then ReplyLost else Delivered\<rparr>\<rparr>)
      (windowed_policy FIXED_WINDOW 1 60) example_identity 1 demo_world = (Inr d, w') \<and> \<not> dc_degraded d \<and> \<not> dc_allowed d"
proof -
  let ?I = "demo_inst\<lparr>i_env := demo_env\<lparr>env_fault := \<lambda>n. if n = 0 then ReplyLost else Delivered\<rparr>\<rparr>"
  have none: "ks_view (w_redis demo_world) key = None" for key by (simp add: ks_view_def live_at_def demo_world_def)
  have env: "env_fault (i_env ?I) (w_tick demo_world) = ReplyLost" "env_fault (i_env ?I) (w_tick demo_world + 1) = Delivered"
    "\<forall>k. env_server (i_env ?I) (w_tick demo_world + 1) k = k"
    "w_redis demo_world = env_server (i_env ?I) (w_tick demo_world) (w_redis demo_world)"
    by (simp_all add: demo_env_def demo_world_def)
  from lost_reply_charges_twice [where view = ks_view and I = ?I, OF _ _ _ _ env refl none, where p = "windowed_policy FIXED_WINDOW 1 60" and i = example_identity and n = 0]
  show ?thesis by (simp add: ks.redis_server_axioms windowed_policy_ok) blast
qed

end
