(* ===== verification/Global_Quota.thy ===== *)
theory Global_Quota
  imports Cluster Rate_Limiter
begin

text \<open>
  The quota of a policy as the callers of \<open>RateLimiterService.evaluate\<close> see it. Gateway
  instances evaluate requests one after the other on the same server, each with its own
  clock, network, snapshot and local limiter; between any two Redis commands of an evaluation
  the server may be moved by other gateways and other traffic. What the instances do to the
  server is a run of the cluster, and a request they let through is one that the run granted.
\<close>

section \<open>Histories of evaluations\<close>

text \<open>Each entry of the result has the policy that the lookup found and the outcome.\<close>

fun evaluations ::
  "(nat \<Rightarrow> ('d, 'k) inst) \<Rightarrow> (nat \<times> request_identity) list \<Rightarrow> (nat \<Rightarrow> ('d, 'k) world) \<Rightarrow> 'k \<Rightarrow>
   ((app_error + policy option) \<times> (app_error + (rate_limit_decision \<times> policy) option)) list \<times> (nat \<Rightarrow> ('d, 'k) world) \<times> 'k" where
  "evaluations I [] W k = ([], W, k)"
| "evaluations I ((n, i) # xs) W k =
     (let w = (W n)\<lparr>w_redis := k\<rparr>; found = fst (resolve_policy (I n) i w)
      in case evaluate (I n) i w of
           (r, w1) \<Rightarrow>
             (case evaluations I xs (W(n := w1)) (w_redis w1) of
                (rs, W', k') \<Rightarrow> ((found, r) # rs, W', k')))"

text \<open>A decision of the server that lets a request through in the window that ends at \<open>end_s\<close>.\<close>

definition admitted_until :: "int \<Rightarrow> (app_error + (rate_limit_decision \<times> policy) option) \<Rightarrow> bool" where
  "admitted_until end_s r =
     (case r of
        Inr (Some (d, _)) \<Rightarrow> dc_allowed d \<and> \<not> dc_degraded d \<and> dc_reset_at_epoch_seconds d = end_s
      | _ \<Rightarrow> False)"

section \<open>Runs of the quota\<close>

text \<open>A run of the cluster from one state of the server to another, with what it granted.\<close>

definition quota_run ::
  "'k redis_commands \<Rightarrow> ('k \<Rightarrow> keyview) \<Rightarrow> string \<Rightarrow> int \<Rightarrow> int \<Rightarrow> 'k \<Rightarrow> 'k \<Rightarrow> millis list \<Rightarrow> bool" where
  "quota_run C view key limit w k k' gs \<longleftrightarrow>
     (\<forall>h ms. \<exists>ms'. (fw_step C view key limit w)\<^sup>*\<^sup>* \<lparr>cl_server = k, cl_granted = h, cl_members = ms\<rparr>
        \<lparr>cl_server = k', cl_granted = h @ gs, cl_members = ms'\<rparr>)"

lemma quota_run_refl: "quota_run C view key limit w k k []"
  by (auto simp: quota_run_def)

lemma quota_run_trans:
  assumes "quota_run C view key limit w k k1 gs" "quota_run C view key limit w k1 k2 hs"
  shows "quota_run C view key limit w k k2 (gs @ hs)"
  unfolding quota_run_def
proof (intro allI)
  fix h ms
  obtain ms1 where 1: "(fw_step C view key limit w)\<^sup>*\<^sup>* \<lparr>cl_server = k, cl_granted = h, cl_members = ms\<rparr>
      \<lparr>cl_server = k1, cl_granted = h @ gs, cl_members = ms1\<rparr>" using assms(1) unfolding quota_run_def by blast
  obtain ms2 where 2: "(fw_step C view key limit w)\<^sup>*\<^sup>* \<lparr>cl_server = k1, cl_granted = h @ gs, cl_members = ms1\<rparr>
      \<lparr>cl_server = k2, cl_granted = (h @ gs) @ hs, cl_members = ms2\<rparr>" using assms(2) unfolding quota_run_def by blast
  from rtranclp_trans [OF 1 2] show "\<exists>ms'. (fw_step C view key limit w)\<^sup>*\<^sup>* \<lparr>cl_server = k, cl_granted = h, cl_members = ms\<rparr>
      \<lparr>cl_server = k2, cl_granted = h @ gs @ hs, cl_members = ms'\<rparr>" by auto
qed

lemma fresh_member: "\<exists>m :: string. m \<notin> set ms"
  by (rule ex_new_if_finite [OF infinite_UNIV_listI finite_set])

lemma grant_append: "grant now r h = h @ grant now r []"
  by (auto simp: grant_def split: sum.split list.split)

lemma quota_run_call:
  assumes "fixed_window_lua C key limit (w * 1000) k = (r, k')"
  shows "quota_run C view key limit w k k' (grant (server_now_ms C k) r [])" "quota_run C view key limit w k k' []"
proof -
  have "\<exists>ms'. fw_step C view key limit w \<lparr>cl_server = k, cl_granted = h, cl_members = ms\<rparr>
      \<lparr>cl_server = k', cl_granted = h @ grant (server_now_ms C k) r [], cl_members = ms'\<rparr>" for h ms
  proof -
    obtain m :: string where "m \<notin> set ms" using fresh_member by blast
    with cluster_step.request [of m "\<lparr>cl_server = k, cl_granted = h, cl_members = ms\<rparr>" "\<lambda>_. fixed_window_lua C key limit (w * 1000)"
        r k' C view "is_window_key key"] assms
    have "fw_step C view key limit w \<lparr>cl_server = k, cl_granted = h, cl_members = ms\<rparr>
        \<lparr>cl_server = k', cl_granted = grant (server_now_ms C k) r h, cl_members = m # ms\<rparr>" by simp
    then show ?thesis unfolding grant_append [of _ r h] by blast
  qed
  then show "quota_run C view key limit w k k' (grant (server_now_ms C k) r [])" unfolding quota_run_def by blast
  have "\<exists>ms'. fw_step C view key limit w \<lparr>cl_server = k, cl_granted = h, cl_members = ms\<rparr>
      \<lparr>cl_server = k', cl_granted = h @ [], cl_members = ms'\<rparr>" for h ms
  proof -
    obtain m :: string where "m \<notin> set ms" using fresh_member by blast
    with cluster_step.lost_reply [of m "\<lparr>cl_server = k, cl_granted = h, cl_members = ms\<rparr>" "\<lambda>_. fixed_window_lua C key limit (w * 1000)" r k']
      assms
    show ?thesis by (intro exI [of _ "m # ms"]) simp
  qed
  then show "quota_run C view key limit w k k' []" unfolding quota_run_def by blast
qed

lemma quota_run_other:
  assumes "cmd_time C k' = cmd_time C k" "\<And>x. is_window_key key x \<Longrightarrow> view k' x = view k x"
  shows "quota_run C view key limit w k k' []"
  unfolding quota_run_def
proof (intro allI)
  fix h ms
  have "fw_step C view key limit w \<lparr>cl_server = k, cl_granted = h, cl_members = ms\<rparr>
      (\<lparr>cl_server = k, cl_granted = h, cl_members = ms\<rparr>\<lparr>cl_server := k'\<rparr>)"
    by (rule cluster_step.other_traffic) (use assms in auto)
  then show "\<exists>ms'. (fw_step C view key limit w)\<^sup>*\<^sup>* \<lparr>cl_server = k, cl_granted = h, cl_members = ms\<rparr>
      \<lparr>cl_server = k', cl_granted = h @ [], cl_members = ms'\<rparr>" by (intro exI [of _ ms]) auto
qed

text \<open>The key of the cached list is no counter of a window: it does not end in a digit.\<close>

lemma last_nat_str: "is_digit (last (nat_str n))"
  using nat_str_digits [of n] by (simp add: list_all_iff)

lemma last_int_str: "int_str n \<noteq> [] \<and> is_digit (last (int_str n))"
  by (simp add: int_str_def last_nat_str)

lemma last_exponent_form: "exponent_form n \<noteq> [] \<and> is_digit (last (exponent_form n))"
  unfolding exponent_form_def Let_def by (simp add: last_nat_str split: prod.split)

lemma last_lua_num: "lua_num n \<noteq> [] \<and> is_digit (last (lua_num n))"
  unfolding lua_num_def using last_int_str [of n] last_exponent_form [of "nat \<bar>n\<bar>"] by (auto split: if_split)

lemma cache_key_no_window: "\<not> is_window_key key (policy_cache_key S)"
proof
  assume "is_window_key key (policy_cache_key S)"
  then obtain e where e: "policy_cache_key S = window_key key e" by (auto simp: is_window_key_def)
  have "last (policy_cache_key S) = CHR ''e''" by (simp add: policy_cache_key_def)
  moreover have "is_digit (last (window_key key e))" using last_lua_num [of e] by (simp add: window_key_def)
  moreover have "\<not> is_digit CHR ''e''" by code_simp
  ultimately show False by (simp add: e)
qed

section \<open>An instance on the server\<close>

text \<open>
  An instance that uses the server, whose neighbours move it by runs of the quota: calls of
  the script for the same key, time, and traffic that leaves its counters alone.
\<close>

definition gateway_on ::
  "'k redis_commands \<Rightarrow> ('k \<Rightarrow> keyview) \<Rightarrow> 'k cache_commands \<Rightarrow> string \<Rightarrow> int \<Rightarrow> int \<Rightarrow> ('d, 'k) inst \<Rightarrow> bool" where
  "gateway_on C view K key limit w I \<longleftrightarrow>
     i_redis I = C \<and> i_cache I = K \<and> (\<forall>n k. \<exists>gs. quota_run C view key limit w k (env_server (i_env I) n k) gs)"

definition moves ::
  "'k redis_commands \<Rightarrow> ('k \<Rightarrow> keyview) \<Rightarrow> string \<Rightarrow> int \<Rightarrow> int \<Rightarrow> ('d, 'k) world \<Rightarrow> ('d, 'k) world \<Rightarrow> bool" where
  "moves C view key limit w u u' \<longleftrightarrow> (\<exists>gs. quota_run C view key limit w (w_redis u) (w_redis u') gs)"

lemma moves_refl: "moves C view key limit w u u"
  by (auto simp: moves_def intro: quota_run_refl)

lemma moves_trans: "moves C view key limit w u u1 \<Longrightarrow> moves C view key limit w u1 u2 \<Longrightarrow> moves C view key limit w u u2"
  unfolding moves_def by (blast intro: quota_run_trans)

lemma moves_same: "moves C view key limit w u u1 \<Longrightarrow> w_redis u2 = w_redis u1 \<Longrightarrow> moves C view key limit w u u2"
  by (simp add: moves_def)

lemma moves_call:
  assumes "gateway_on C view K key limit w I" "\<And>k. quota_run C view key limit w k (snd (op k)) []"
  shows "moves C view key limit w u (snd (redis_call I op u))"
proof -
  let ?k = "env_server (i_env I) (w_tick u) (w_redis u)"
  obtain gs where gs: "quota_run C view key limit w (w_redis u) ?k gs" using assms(1) unfolding gateway_on_def by blast
  with quota_run_trans [OF this assms(2)] show ?thesis
    by (cases "env_fault (i_env I) (w_tick u)") (auto simp: moves_def redis_call_def Let_def)
qed

lemma moves_get: "gateway_on C view K key limit w I \<Longrightarrow> moves C view key limit w u (snd (redis_get I x u))"
  unfolding redis_get_def by (rule moves_call) (simp_all add: quota_run_refl)

lemma moves_setex:
  assumes "redis_cache_server C view K" "gateway_on C view K key limit w I"
  shows "moves C view key limit w u (snd (redis_setex I (policy_cache_key S) ttl v u))"
  unfolding redis_setex_def
proof (rule moves_call [OF assms(2)])
  fix k
  have K: "i_cache I = K" using assms(2) by (simp add: gateway_on_def)
  show "quota_run C view key limit w k (snd (case cc_setex (i_cache I) (policy_cache_key S) ttl v k of
      None \<Rightarrow> (Inl ScriptError, k) | Some k' \<Rightarrow> (Inr (), k'))) []"
  proof (cases "0 < ttl")
    case True
    obtain k' where k': "cc_setex K (policy_cache_key S) ttl v k = Some k'" "cmd_time C k' = cmd_time C k"
      "view k' = (view k)(policy_cache_key S \<mapsto> (RStr v, Some (server_now_ms C k + ttl * 1000)))"
      using redis_cache_server.setex_cases(1) [OF assms(1) True] by blast
    have "quota_run C view key limit w k k' []"
      by (rule quota_run_other) (use k'(2,3) cache_key_no_window in auto)
    then show ?thesis by (simp add: K k'(1))
  next
    case False
    then show ?thesis using redis_cache_server.setex_cases(2) [OF assms(1) False] by (simp add: K quota_run_refl)
  qed
qed

lemma moves_lookup:
  assumes "redis_cache_server C view K" "gateway_on C view K key limit w I"
  shows "moves C view key limit w u (snd (list_active_policies_cached I u))"
proof -
  let ?S = "i_settings I"
  obtain r u1 where get: "redis_get I (policy_cache_key ?S) u = (r, u1)" by (rule prod.exhaust)
  then have 1: "moves C view key limit w u u1" using moves_get [OF assms(2), of u "policy_cache_key ?S"] by simp
  have frame: "w_redis (snd (get_fresh I ttl x)) = w_redis x" "w_redis (snd (load_from_database I x)) = w_redis x" for ttl x
    by (simp_all add: load_from_database_def split: sum.split)
  show ?thesis
  proof (cases r)
    case (Inl e)
    let ?u2 = "emit [mark_redis_error ''policy_cache_get'', Log WARNING ''redis_fallback''] u1"
    obtain o' u3 where fresh: "get_fresh I (set_local_policy_cache_ttl_seconds ?S) ?u2 = (o', u3)" by (rule prod.exhaust)
    then have "w_redis u3 = w_redis u1" using frame(1) [of "set_local_policy_cache_ttl_seconds ?S" ?u2] by simp
    with 1 show ?thesis
      by (intro moves_same [OF 1]) (simp add: list_active_policies_cached_def get Inl fresh frame split: option.split)
  next
    case (Inr o')
    show ?thesis
    proof (cases "o' = None \<or> o' = Some []")
      case True
      let ?u2 = "emit [mark_policy_cache_miss] u1"
      have 2: "moves C view key limit w u ?u2" by (rule moves_same [OF 1]) simp
      have 3: "moves C view key limit w u (emit [Log INFO ''policy_load''] (snapshot_set I ps
          (case redis_setex I (policy_cache_key ?S) n v ?u2 of
             (Inl _, u3) \<Rightarrow> emit [mark_redis_error ''policy_cache_set'', Log WARNING ''redis_fallback''] u3
           | (Inr _, u3) \<Rightarrow> u3)))" for ps n v
      proof -
        obtain r3 u3 where call: "redis_setex I (policy_cache_key ?S) n v ?u2 = (r3, u3)" by (rule prod.exhaust)
        have "moves C view key limit w u u3" using moves_trans [OF 2 moves_setex [OF assms]] call by (metis snd_conv)
        then show ?thesis by (rule moves_same) (cases r3; simp add: call)
      qed
      from 2 3 True show ?thesis
        by (elim disjE) (simp_all add: list_active_policies_cached_def get Inr Let_def split: sum.split)
    next
      case False
      then obtain c cs where "o' = Some (c # cs)" by (cases o'; cases "the o'") auto
      then show ?thesis
        by (intro moves_same [OF 1]) (simp add: list_active_policies_cached_def get Inr Let_def split: sum.split)
    qed
  qed
qed

lemma moves_resolve:
  assumes "redis_cache_server C view K" "gateway_on C view K key limit w I" "resolve_policy I i u = (r, u1)"
  shows "moves C view key limit w u u1"
proof -
  have "u1 = snd (list_active_policies_cached I u)"
    using assms(3) by (cases "list_active_policies_cached I u") (auto simp: resolve_policy_def split: sum.splits)
  then show ?thesis using moves_lookup [OF assms(1,2)] by simp
qed

section \<open>Granted requests\<close>

lemma quota_run_clock:
  assumes "redis_server C view" "0 < w" "quota_run C view key limit w k k' gs"
  shows "server_now_ms C k \<le> server_now_ms C k'"
proof -
  obtain ms where "(fw_step C view key limit w)\<^sup>*\<^sup>* \<lparr>cl_server = k, cl_granted = [], cl_members = []\<rparr>
      \<lparr>cl_server = k', cl_granted = [] @ gs, cl_members = ms\<rparr>" using assms(3) unfolding quota_run_def by blast
  moreover have "server_now_ms C (cl_server c) \<le> server_now_ms C (cl_server c')" if "(fw_step C view key limit w)\<^sup>*\<^sup>* c c'" for c c'
    using that
  proof induction
    case (step c1 c2)
    have "server_now_ms C (cl_server c1) \<le> server_now_ms C (cl_server c2)"
      by (rule cluster_clock_mono [OF step(2)]) (use redis_server.fixed_window_lua_view(2) [OF assms(1)] assms(2) in simp)
    with step.IH show ?case by simp
  qed simp
  ultimately show ?thesis by fastforce
qed

lemma moves_clock:
  "redis_server C view \<Longrightarrow> 0 < w \<Longrightarrow> moves C view key limit w u u' \<Longrightarrow>
   server_now_ms C (w_redis u) \<le> server_now_ms C (w_redis u')"
  unfolding moves_def by (blast dest: quota_run_clock)

lemma ceil_whole_seconds: "0 \<le> s \<Longrightarrow> s * 1000 < 2 ^ 53 \<Longrightarrow> ceil_seconds (via_float (s * 1000)) = s"
  by (simp add: ceil_seconds_exact)

lemma window_start_seconds: "0 < w \<Longrightarrow> \<exists>s. window_start w t = s * 1000"
  by (intro exI [of _ "w * (t div (w * 1000))"]) (simp add: window_start_def minus_mod_eq_mult_div mult_ac)

text \<open>A reply that lets a request through names the window in which the server granted it.\<close>

lemma granted_reply:
  assumes "fixed_window_lua C key limit (w * 1000) k = (x, k')" "parse_reply x = Inr d" "dc_allowed d"
    and "0 < w" "w \<le> 2 ^ 31" "0 \<le> server_now_ms C k" "server_now_ms C k < 10 ^ 14"
  shows "0 < in_window w (dc_reset_at_epoch_seconds d * 1000 - w * 1000) (grant (server_now_ms C k) x [])"
proof -
  let ?now = "server_now_ms C k"
  let ?ws = "window_start w ?now"
  have ws: "?now - ?now mod (w * 1000) = ?ws" by (simp add: window_start_def)
  obtain s where s: "?ws = s * 1000" using window_start_seconds [OF assms(4)] by blast
  have "0 \<le> ?ws" by (rule window_start_nonneg [OF assms(4,6)])
  moreover have "?ws \<le> ?now" by (rule window_start_bounds(1) [OF assms(4)])
  ultimately have bounds: "0 \<le> s + w" "(s + w) * 1000 < 2 ^ 53" using s assms(4,5,7) by simp_all
  obtain rem retry n where x: "x = Inr (lua_reply True limit rem (?ws + w * 1000) retry n)"
    using assms(1-3) unfolding fixed_window_lua_def Let_def ws
    by (auto split: option.splits if_splits)
  with assms(2) have "dc_reset_at_epoch_seconds d = ceil_seconds (via_float ((s + w) * 1000))" by (auto simp: s algebra_simps)
  also have "\<dots> = s + w" by (rule ceil_whole_seconds [OF bounds])
  finally have "dc_reset_at_epoch_seconds d * 1000 - w * 1000 = ?ws" by (simp add: s)
  then show ?thesis by (simp add: x in_window_def)
qed

text \<open>What an evaluation does to the quota, by the outcome it has.\<close>

definition accounted ::
  "'k redis_commands \<Rightarrow> ('k \<Rightarrow> keyview) \<Rightarrow> string \<Rightarrow> int \<Rightarrow> int \<Rightarrow> ('d, 'k) world \<Rightarrow> ('d, 'k) world \<Rightarrow> ('e + rate_limit_decision) \<Rightarrow> bool" where
  "accounted C view key limit w u u' r \<longleftrightarrow>
     moves C view key limit w u u' \<and>
     (0 \<le> server_now_ms C (w_redis u) \<longrightarrow> server_now_ms C (w_redis u') < 10 ^ 14 \<longrightarrow>
      (\<exists>gs. quota_run C view key limit w (w_redis u) (w_redis u') gs \<and>
        (\<forall>d. r = Inr d \<longrightarrow> dc_allowed d \<longrightarrow> \<not> dc_degraded d \<longrightarrow>
          0 < in_window w (dc_reset_at_epoch_seconds d * 1000 - w * 1000) gs)))"

lemma in_window_append [simp]: "in_window w e (gs @ hs) = in_window w e gs + in_window w e hs"
  by (simp add: in_window_def)

lemma accounted_after:
  assumes "redis_server C view" "0 < w" "moves C view key limit w u u1" "accounted C view key limit w u1 u2 r"
  shows "accounted C view key limit w u u2 r"
proof -
  have clock: "server_now_ms C (w_redis u) \<le> server_now_ms C (w_redis u1)" by (rule moves_clock [OF assms(1-3)])
  obtain gs where gs: "quota_run C view key limit w (w_redis u) (w_redis u1) gs" using assms(3) unfolding moves_def by blast
  show ?thesis
    unfolding accounted_def
  proof (intro conjI impI)
    show "moves C view key limit w u u2" using assms(3,4) unfolding accounted_def by (blast intro: moves_trans)
    assume "0 \<le> server_now_ms C (w_redis u)" "server_now_ms C (w_redis u2) < 10 ^ 14"
    with clock assms(4) obtain hs where hs: "quota_run C view key limit w (w_redis u1) (w_redis u2) hs"
      "\<forall>d. r = Inr d \<longrightarrow> dc_allowed d \<longrightarrow> \<not> dc_degraded d \<longrightarrow> 0 < in_window w (dc_reset_at_epoch_seconds d * 1000 - w * 1000) hs"
      unfolding accounted_def by force
    from quota_run_trans [OF gs hs(1)] hs(2)
    show "\<exists>gs. quota_run C view key limit w (w_redis u) (w_redis u2) gs \<and>
        (\<forall>d. r = Inr d \<longrightarrow> dc_allowed d \<longrightarrow> \<not> dc_degraded d \<longrightarrow> 0 < in_window w (dc_reset_at_epoch_seconds d * 1000 - w * 1000) gs)"
      by (intro exI [of _ "gs @ hs"]) auto
  qed
qed

lemma accounted_moves:
  assumes "moves C view key limit w u u'" "\<And>d. r = Inr d \<Longrightarrow> dc_degraded d"
  shows "accounted C view key limit w u u' r"
  using assms unfolding accounted_def moves_def by blast

lemma run_policy_accounted:
  assumes "redis_server C view" "gateway_on C view K key (pol_rate p) (pol_window_seconds p) I"
    and "pol_algorithm p = FIXED_WINDOW" "0 < pol_window_seconds p" "pol_window_seconds p \<le> 2 ^ 31" "build_rate_limit_key p i = key"
    and "run_policy I p i u = (r, u1)"
  shows "moves C view key (pol_rate p) (pol_window_seconds p) u u1"
    and "accounted C view key (pol_rate p) (pol_window_seconds p) u u1 r"
proof -
  let ?limit = "pol_rate p" and ?w = "pol_window_seconds p"
  let ?script = "fixed_window_lua C key ?limit (?w * 1000)" and ?k = "env_server (i_env I) (w_tick u) (w_redis u)"
  have C: "i_redis I = C" using assms(2) by (simp add: gateway_on_def)
  obtain x where call: "redis_call I ?script u = (x, u1)" and r: "r = parse_reply x"
    using assms(3,6,7) C by (auto simp: run_policy_fixed eval_script_def split: prod.splits)
  show m: "moves C view key ?limit ?w u u1"
    using moves_call [OF assms(2), of ?script u] quota_run_call(2) call by (metis prod.collapse snd_conv)
  obtain gs where gs: "quota_run C view key ?limit ?w (w_redis u) ?k gs" using assms(2) unfolding gateway_on_def by blast
  show "accounted C view key ?limit ?w u u1 r"
  proof (cases "env_fault (i_env I) (w_tick u)")
    case Delivered
    obtain k' where s: "?script ?k = (x, k')" and u1: "w_redis u1 = k'"
      using call by (cases "?script ?k") (auto simp: redis_call_def Let_def Delivered)
    show ?thesis
      unfolding accounted_def u1
    proof (intro conjI impI m)
      assume now: "0 \<le> server_now_ms C (w_redis u)" "server_now_ms C k' < 10 ^ 14"
      have "server_now_ms C (w_redis u) \<le> server_now_ms C ?k" "server_now_ms C ?k \<le> server_now_ms C k'"
        using quota_run_clock [OF assms(1,4)] gs quota_run_call(2) [OF s] by blast+
      with now have k: "0 \<le> server_now_ms C ?k" "server_now_ms C ?k < 10 ^ 14" by simp_all
      have "0 < in_window ?w (dc_reset_at_epoch_seconds d * 1000 - ?w * 1000) (grant (server_now_ms C ?k) x [])"
        if "r = Inr d" "dc_allowed d" for d
        by (rule granted_reply [OF s _ that(2) assms(4,5) k]) (use r that in simp)
      with quota_run_trans [OF gs quota_run_call(1) [OF s]]
      show "\<exists>gs. quota_run C view key ?limit ?w (w_redis u) k' gs \<and>
          (\<forall>d. r = Inr d \<longrightarrow> dc_allowed d \<longrightarrow> \<not> dc_degraded d \<longrightarrow> 0 < in_window ?w (dc_reset_at_epoch_seconds d * 1000 - ?w * 1000) gs)"
        by (intro exI [of _ "gs @ grant (server_now_ms C ?k) x []"]) auto
    qed
  qed (use call r in \<open>intro accounted_moves [OF m]; auto simp: redis_call_def Let_def\<close>)+
qed

lemma recover_server: "w_redis (snd (recover_after_redis_failure I p i u)) = w_redis u"
  by (simp add: recover_after_redis_failure_def build_degraded_decision_def read_time_def Let_def split: sum.split prod.split)

lemma recover_degraded: "fst (recover_after_redis_failure I p i u) = Inr d \<Longrightarrow> dc_degraded d"
  by (auto simp: recover_after_redis_failure_def build_degraded_decision_def fallback_decision_def read_time_def Let_def
      split: sum.splits prod.splits if_splits)

lemma attempts_accounted:
  assumes "redis_server C view" "gateway_on C view K key (pol_rate p) (pol_window_seconds p) I"
    and "pol_algorithm p = FIXED_WINDOW" "0 < pol_window_seconds p" "pol_window_seconds p \<le> 2 ^ 31" "build_rate_limit_key p i = key"
  shows "attempt_loop I p i n u = (r, u') \<Longrightarrow> accounted C view key (pol_rate p) (pol_window_seconds p) u u' r"
proof (induction n arbitrary: u)
  case (0 u)
  obtain x u1 where run: "run_policy I p i u = (x, u1)" by (rule prod.exhaust)
  note acc = run_policy_accounted [OF assms run]
  show ?case
  proof (cases x)
    case (Inl e)
    let ?u2 = "emit [mark_redis_error ''rate_limit_apply''] u1"
    show ?thesis
    proof (cases e)
      case (RedisError m)
      then have "recover_after_redis_failure I p i ?u2 = (r, u')" using 0 by (simp add: attempt_loop.simps [of I p i 0] run Inl Let_def)
      then have "w_redis u' = w_redis u1" "\<And>d. r = Inr d \<Longrightarrow> dc_degraded d"
        using recover_server [of I p i ?u2] recover_degraded [of I p i ?u2] by auto
      then show ?thesis by (intro accounted_moves moves_same [OF acc(1)])
    qed (use 0 run Inl acc(1) in \<open>auto simp: attempt_loop.simps [of I p i 0] intro: accounted_moves\<close>)
  qed (use 0 run acc(2) in \<open>auto simp: attempt_loop.simps [of I p i 0] accounted_def\<close>)
next
  case (Suc n u)
  obtain x u1 where run: "run_policy I p i u = (x, u1)" by (rule prod.exhaust)
  note acc = run_policy_accounted [OF assms run]
  show ?case
  proof (cases x)
    case (Inl e)
    let ?u3 = "emit (retry_events (i_settings I)) (emit [mark_redis_error ''rate_limit_apply''] u1)"
    show ?thesis
    proof (cases e)
      case (RedisError m)
      then have "attempt_loop I p i n ?u3 = (r, u')" using Suc.prems by (simp add: attempt_loop.simps [of I p i "Suc n"] run Inl Let_def)
      from Suc.IH [OF this] show ?thesis by (intro accounted_after [OF assms(1,4) moves_same [OF acc(1)]]) simp_all
    qed (use Suc.prems run Inl acc(1) in \<open>auto simp: attempt_loop.simps [of I p i "Suc n"] intro: accounted_moves\<close>)
  qed (use Suc.prems run acc(2) in \<open>auto simp: attempt_loop.simps [of I p i "Suc n"] accounted_def\<close>)
qed

lemma evaluate_accounted:
  assumes "redis_cache_server C view K" "gateway_on C view K key (pol_rate p) (pol_window_seconds p) I"
    and "pol_algorithm p = FIXED_WINDOW" "0 < pol_window_seconds p" "pol_window_seconds p \<le> 2 ^ 31"
    and "policy_matches p j" "build_rate_limit_key p j = key"
    and "\<And>q. fst (resolve_policy I i u) = Inr (Some q) \<Longrightarrow> q = p" "evaluate I i u = (r, u')"
  shows "accounted C view key (pol_rate p) (pol_window_seconds p) u u'
    (case r of Inr (Some (d, _)) \<Rightarrow> Inr d | Inr None \<Rightarrow> Inl (Inr ()) | Inl e \<Rightarrow> Inl (Inl e))"
proof -
  have server: "redis_server C view" using assms(1) by (simp add: redis_cache_server_def)
  obtain x u1 where resolve: "resolve_policy I i u = (x, u1)" by (rule prod.exhaust)
  have m: "moves C view key (pol_rate p) (pol_window_seconds p) u u1" by (rule moves_resolve [OF assms(1,2) resolve])
  show ?thesis
  proof (cases "\<exists>q. x = Inr (Some q)")
    case True
    then have x: "x = Inr (Some p)" using assms(8) resolve by auto
    then have "policy_matches p i"
      using resolve select_best_SomeD(3) by (auto simp: resolve_policy_def split: prod.splits sum.splits)
    then have key: "build_rate_limit_key p i = key"
      unfolding assms(7) [symmetric] build_rate_limit_key_def
      by (simp only: key_segments_matching [OF assms(6)] key_segments_matching)
    obtain y u2 where loop: "attempt_loop I p i (nat (max_attempts (i_settings I) - 1)) u1 = (y, u2)" by (rule prod.exhaust)
    have acc: "accounted C view key (pol_rate p) (pol_window_seconds p) u u2 y"
      by (rule accounted_after [OF server assms(4) m attempts_accounted [OF server assms(2-5) key loop]])
    show ?thesis
      using assms(9) acc by (cases y) (auto simp: evaluate_def resolve x loop accounted_def moves_def)
  next
    case False
    then have "u' = u1" "\<forall>d q. r \<noteq> Inr (Some (d, q))"
      using assms(9) by (auto simp: evaluate_def resolve split: sum.splits option.splits)
    with m show ?thesis by (intro accounted_moves) (auto split: sum.splits option.splits)
  qed
qed

text \<open>A whole history: the grants of the run cover the admitted requests of every window.\<close>

lemma evaluations_accounted:
  assumes "redis_cache_server C view K" "\<And>n. gateway_on C view K key (pol_rate p) (pol_window_seconds p) (I n)"
    and "pol_algorithm p = FIXED_WINDOW" "0 < pol_window_seconds p" "pol_window_seconds p \<le> 2 ^ 31"
    and "policy_matches p j" "build_rate_limit_key p j = key"
  shows "evaluations I xs W k = (rs, W', k') \<Longrightarrow> (\<And>q r. (Inr (Some q), r) \<in> set rs \<Longrightarrow> q = p) \<Longrightarrow> 0 \<le> server_now_ms C k \<Longrightarrow>
    server_now_ms C k' < 10 ^ 14 \<Longrightarrow>
    \<exists>gs. quota_run C view key (pol_rate p) (pol_window_seconds p) k k' gs \<and>
      (\<forall>s. length (filter (\<lambda>(_, r). admitted_until s r) rs) \<le> in_window (pol_window_seconds p) (s * 1000 - pol_window_seconds p * 1000) gs)"
proof (induction xs arbitrary: W k rs)
  case Nil
  then show ?case by (auto intro: exI [of _ "[]"] quota_run_refl)
next
  case (Cons x xs)
  let ?w = "pol_window_seconds p" and ?limit = "pol_rate p"
  have server: "redis_server C view" using assms(1) by (simp add: redis_cache_server_def)
  obtain n i where x: "x = (n, i)" by (rule prod.exhaust)
  let ?u = "(W n)\<lparr>w_redis := k\<rparr>"
  obtain r u1 where ev: "evaluate (I n) i ?u = (r, u1)" by (rule prod.exhaust)
  obtain rs' where rest: "evaluations I xs (W(n := u1)) (w_redis u1) = (rs', W', k')" "rs = (fst (resolve_policy (I n) i ?u), r) # rs'"
    using Cons.prems(1) by (auto simp: x Let_def ev split: prod.splits)
  have acc: "accounted C view key ?limit ?w ?u u1
      (case r of Inr (Some (d, _)) \<Rightarrow> Inr d | Inr None \<Rightarrow> Inl (Inr ()) | Inl e \<Rightarrow> Inl (Inl e))"
    by (rule evaluate_accounted [OF assms(1,2,3,4,5,6,7) _ ev]) (use Cons.prems(2) rest(2) in force)
  have only: "\<And>q r. (Inr (Some q), r) \<in> set rs' \<Longrightarrow> q = p" using Cons.prems(2) rest(2) by (metis list.set_intros(2))
  have m: "moves C view key ?limit ?w ?u u1" using acc by (simp add: accounted_def)
  have clock: "server_now_ms C k \<le> server_now_ms C (w_redis u1)" using moves_clock [OF server assms(4) m] by simp
  from Cons.IH [OF rest(1) only] clock Cons.prems(3,4) obtain hs where
    hs: "quota_run C view key ?limit ?w (w_redis u1) k' hs"
      "\<And>s. length (filter (\<lambda>(_, r). admitted_until s r) rs') \<le> in_window ?w (s * 1000 - ?w * 1000) hs" by force
  have "server_now_ms C (w_redis u1) \<le> server_now_ms C k'" by (rule quota_run_clock [OF server assms(4) hs(1)])
  with acc Cons.prems(3,4) obtain gs where gs: "quota_run C view key ?limit ?w k (w_redis u1) gs"
    "\<And>d q. r = Inr (Some (d, q)) \<Longrightarrow> dc_allowed d \<Longrightarrow> \<not> dc_degraded d \<Longrightarrow>
       0 < in_window ?w (dc_reset_at_epoch_seconds d * 1000 - ?w * 1000) gs"
    unfolding accounted_def by force
  have first: "(if admitted_until s r then 1 else 0) \<le> in_window ?w (s * 1000 - ?w * 1000) gs" for s
    using gs(2) by (fastforce simp: admitted_until_def split: sum.splits option.splits)
  have "length (filter (\<lambda>(_, r). admitted_until s r) rs) \<le> in_window ?w (s * 1000 - ?w * 1000) (gs @ hs)" for s
    using first [of s] hs(2) [of s] by (cases "admitted_until s r") (simp_all add: rest(2))
  with quota_run_trans [OF gs(1) hs(1)] show ?case by blast
qed

section \<open>Properties\<close>

text \<open>
  C1. The quota holds at the boundary of the service: over any history of evaluations by any
  number of gateway instances, with their retries, outages, caches and failovers, and with
  any calls of other gateways, time and other traffic between any two Redis commands, the
  decisions of the server that let a request through and name the same end of the window are
  at most the rate of the policy. The policy has a fixed window, the lookups find it whenever
  they find one, and the server starts without counters of its key; decisions made without
  the server are marked as degraded and are not counted.
\<close>

theorem admitted_within_rate:
  assumes "redis_cache_server C view K" "\<And>n. gateway_on C view K key (pol_rate p) (pol_window_seconds p) (I n)"
    and "policy_ok p" "pol_algorithm p = FIXED_WINDOW" "pol_window_seconds p \<le> 2 ^ 31"
    and "policy_matches p j" "build_rate_limit_key p j = key"
    and "evaluations I xs W k = (rs, W', k')" "\<And>q r. (Inr (Some q), r) \<in> set rs \<Longrightarrow> q = p"
    and "\<And>e. view k (window_key key e) = None" "0 \<le> server_now_ms C k" "server_now_ms C k' < 10 ^ 14"
  shows "int (length (filter (\<lambda>(_, r). admitted_until end_s r) rs)) \<le> pol_rate p"
proof -
  have pos: "0 < pol_window_seconds p" "0 \<le> pol_rate p" using policy_okD [OF assms(3)] by auto
  obtain gs where gs: "quota_run C view key (pol_rate p) (pol_window_seconds p) k k' gs"
    "length (filter (\<lambda>(_, r). admitted_until end_s r) rs) \<le>
       in_window (pol_window_seconds p) (end_s * 1000 - pol_window_seconds p * 1000) gs"
    using evaluations_accounted [OF assms(1,2,4) pos(1) assms(5,6,7,8) _ assms(11,12)] assms(9) by blast
  obtain ms where run: "(fw_step C view key (pol_rate p) (pol_window_seconds p))\<^sup>*\<^sup>*
      \<lparr>cl_server = k, cl_granted = [], cl_members = []\<rparr> \<lparr>cl_server = k', cl_granted = [] @ gs, cl_members = ms\<rparr>"
    using gs(1) unfolding quota_run_def by blast
  have "redis_server C view" using assms(1) by (simp add: redis_cache_server_def)
  moreover have "fw_inv (pol_window_seconds p) key (pol_rate p) (server_now_ms C k) (view k) []"
    using assms(10,11) pos(2) by (simp add: fw_inv_def counter_covers_def)
  ultimately have "fw_inv (pol_window_seconds p) key (pol_rate p) (server_now_ms C k') (view k') gs"
    using redis_server.fw_inv_reachable [OF _ run pos] assms(12) by simp
  then have "int (in_window (pol_window_seconds p) (end_s * 1000 - pol_window_seconds p * 1000) gs) \<le> pol_rate p"
    by (simp add: fw_inv_def)
  with gs(2) show ?thesis by linarith
qed

definition quota_policy :: policy where
  "quota_policy = windowed_policy FIXED_WINDOW 1 60"

definition quota_inst :: "(memory_db, keyspace) inst" where
  "quota_inst = demo_inst\<lparr>i_load := (\<lambda>_. Inr [quota_policy])\<rparr>"

definition quota_world :: "(memory_db, keyspace) world" where
  "quota_world = demo_world\<lparr>w_db := \<lparr>md_rows = [quota_policy], md_ids = [], md_now = 7\<rparr>\<rparr>"

lemma quota_policy_simps [simp]:
  "policy_ok quota_policy" "pol_algorithm quota_policy = FIXED_WINDOW" "pol_rate quota_policy = 1" "pol_window_seconds quota_policy = 60"
  by (simp_all add: quota_policy_def windowed_policy_ok)

lemma quota_selected: "select_best_policy [quota_policy] example_identity = Some quota_policy" "policy_matches quota_policy example_identity"
  by code_simp+

lemma quota_call:
  "redis_call quota_inst op u = (fst (op (w_redis u)), u\<lparr>w_tick := w_tick u + 1, w_redis := snd (op (w_redis u))\<rparr>)"
  by (simp add: redis_call_def Let_def quota_inst_def demo_env_def)

lemma quota_inst_simps [simp]:
  "i_redis quota_inst = ks_commands" "i_cache quota_inst = ks_cache" "i_settings quota_inst = default_settings"
  "i_db quota_inst = memory_database"
  by (simp_all add: quota_inst_def)

lemma quota_resolve:
  "\<exists>k1 u1. resolve_policy quota_inst example_identity (quota_world\<lparr>w_redis := quiet_server\<rparr>) = (Inr (Some quota_policy), u1) \<and>
     w_redis u1 = k1 \<and> cmd_time ks_commands k1 = (1, 0) \<and> (\<forall>e. ks_view k1 (window_key key e) = None)"
proof -
  let ?c = "policy_cache_key default_settings"
  obtain k1 where k1: "cc_setex ks_cache ?c 30 ''[p]'' quiet_server = Some k1" "cmd_time ks_commands k1 = (1, 0)"
    "ks_view k1 = (ks_view quiet_server)(?c \<mapsto> (RStr ''[p]'', Some (server_now_ms ks_commands quiet_server + 30 * 1000)))"
    using redis_cache_server.setex_cases(1) [OF ks_cache.redis_cache_server_axioms, of 30 ?c "''[p]''" quiet_server]
    by (auto simp: ks_commands_def quiet_server_def)
  have get: "cc_get ks_cache ?c quiet_server = Some None" by (simp add: ks_cache.get_law view_get_def)
  have list: "list_policies quota_inst True (w_db quota_world) = Inr [quota_policy]"
    using read_policy_ok [of quota_policy]
    by (simp add: list_policies_def quota_world_def memory_database_def) (simp add: quota_policy_def windowed_policy_def example_policy_def)
  have dump: "i_dump quota_inst ps = ''[p]''" "set_policy_cache_ttl_seconds default_settings = 30" for ps
    by (simp_all add: quota_inst_def default_settings_def)
  have "ks_view k1 (window_key key e) = None" for e
  proof -
    have "window_key key e \<noteq> ?c" using cache_key_no_window [of key default_settings] unfolding is_window_key_def by metis
    then show ?thesis by (simp add: k1(3))
  qed
  then show ?thesis
    using k1(2) list
    by (simp add: resolve_policy_def list_active_policies_cached_def redis_get_def redis_setex_def quota_call get dump k1(1) Let_def
        quota_selected snapshot_set_def read_monotonic_def)
qed

lemma quota_admits:
  assumes "w_redis u1 = k1" "cmd_time ks_commands k1 = (1, 0)" "\<forall>e. ks_view k1 (window_key (build_rate_limit_key quota_policy example_identity) e) = None"
  shows "\<exists>d k2. eval_script quota_inst (fixed_window_lua ks_commands (build_rate_limit_key quota_policy example_identity) 1 60000) u1 = (Inr d, u1\<lparr>w_tick := w_tick u1 + 1, w_redis := k2\<rparr>) \<and>
    dc_allowed d \<and> \<not> dc_degraded d \<and> dc_reset_at_epoch_seconds d = 60 \<and> cmd_time ks_commands k2 = (1, 0)"
proof -
  let ?key = "build_rate_limit_key quota_policy example_identity"
  let ?run = "fixed_window_lua ks_commands ?key 1 60000 k1"
  have now: "server_now_ms ks_commands k1 = 1000" using assms(2) by (simp add: server_now_ms_def)
  have "fst ?run = Inr (lua_reply True 1 0 60000 59000 1)"
    using ks.fixed_window_lua_view(1) [of 60000 k1 ?key 1] assms(3) now
    by (simp add: fixed_window_view_def view_incr_def Let_def)
  moreover have "cmd_time ks_commands (snd ?run) = (1, 0)" using ks.fixed_window_lua_view(2) [of 60000 ?key 1 k1] assms(2) by simp
  moreover have "ceil_seconds (via_float 60000) = 60" using ceil_whole_seconds [of 60] by simp
  ultimately show ?thesis
    using assms(1) by (intro exI conjI) (simp add: eval_script_def quota_call case_prod_beta, simp_all)
qed

theorem admitted_within_rate_witness:
  "\<exists>rs W' k'. evaluations (\<lambda>_. quota_inst) [(0, example_identity)] (\<lambda>_. quota_world) quiet_server = (rs, W', k') \<and>
     length (filter (\<lambda>(_, r). admitted_until 60 r) rs) = 1 \<and> int (length (filter (\<lambda>(_, r). admitted_until 60 r) rs)) \<le> 1"
proof -
  let ?key = "build_rate_limit_key quota_policy example_identity" and ?u = "quota_world\<lparr>w_redis := quiet_server\<rparr>"
  obtain k1 u1 where 1: "resolve_policy quota_inst example_identity ?u = (Inr (Some quota_policy), u1)" "w_redis u1 = k1"
    "cmd_time ks_commands k1 = (1, 0)" "\<forall>e. ks_view k1 (window_key ?key e) = None"
    using quota_resolve [of ?key] by blast
  obtain d k2 where 2: "eval_script quota_inst (fixed_window_lua ks_commands ?key 1 60000) u1 = (Inr d, u1\<lparr>w_tick := w_tick u1 + 1, w_redis := k2\<rparr>)"
    "dc_allowed d" "\<not> dc_degraded d" "dc_reset_at_epoch_seconds d = 60" "cmd_time ks_commands k2 = (1, 0)"
    using quota_admits [OF 1(2,3,4)] by blast
  have loop: "attempt_loop quota_inst quota_policy example_identity n u1 = (Inr d, u1\<lparr>w_tick := w_tick u1 + 1, w_redis := k2\<rparr>)" for n
    by (simp add: attempt_loop.simps run_policy_fixed 2(1))
  have run: "evaluations (\<lambda>_. quota_inst) [(0, example_identity)] (\<lambda>_. quota_world) quiet_server =
      ([(Inr (Some quota_policy), Inr (Some (d, quota_policy)))],
       (\<lambda>_. quota_world)(0 := emit (verdict_events quota_policy d) (u1\<lparr>w_tick := w_tick u1 + 1, w_redis := k2\<rparr>)), k2)"
    by (simp add: Let_def evaluate_def 1(1) loop)
  have now: "server_now_ms ks_commands k2 = 1000" "server_now_ms ks_commands quiet_server = 1000"
    using 2(5) by (simp add: server_now_ms_def, subst server_now_ks, simp)
  have gateway: "gateway_on ks_commands ks_view ks_cache ?key (pol_rate quota_policy) (pol_window_seconds quota_policy) quota_inst"
    unfolding gateway_on_def by (auto simp: quota_inst_def demo_env_def intro: quota_run_refl)
  have "int (length (filter (\<lambda>(_, r). admitted_until 60 r)
      [(Inr (Some quota_policy) :: app_error + policy option, Inr (Some (d, quota_policy)))])) \<le> pol_rate quota_policy"
    by (rule admitted_within_rate [OF ks_cache.redis_cache_server_axioms gateway _ _ _ quota_selected(2) refl run])
      (use now in auto)
  with run 2(2-4) show ?thesis by (simp add: admitted_until_def)
qed

end
