(* ===== verification/Json.thy ===== *)
theory Json
  imports Py_Text
begin

text \<open>
  JSON as Python's \<open>json\<close> module has it: the values, the text \<open>json.dumps\<close> writes (on one line, or
  with \<open>indent=2\<close>), and the value \<open>json.loads\<close> reads. What is written is read back, whichever
  layout was used. Texts have code points below 256; an escape of a larger one is not
  represented, nor are infinity and NaN.
\<close>

section \<open>Values\<close>

text \<open>An object is the list of its members; \<open>json.loads\<close> keeps one member per name.\<close>

datatype json = JNull | JBool bool | JInt int | JFloat rat | JStr string | JArr "json list" | JObj "(string \<times> json) list"

section \<open>Writing\<close>

definition quote_char :: char where
  "quote_char = CHR 0x22"

definition backslash :: char where
  "backslash = CHR 0x5C"

text \<open>\<open>ensure_ascii\<close>: quotes, backslashes, controls and everything beyond ASCII are escaped.\<close>

definition escape_char :: "char \<Rightarrow> string" where
  "escape_char c =
     (let n = of_char c :: nat in
      if c = quote_char then [backslash, quote_char]
      else if c = backslash then [backslash, backslash]
      else if n = 10 then [backslash, CHR ''n'']
      else if n = 13 then [backslash, CHR ''r'']
      else if n = 9 then [backslash, CHR ''t'']
      else if n = 12 then [backslash, CHR ''f'']
      else if n = 8 then [backslash, CHR ''b'']
      else if 32 \<le> n \<and> n \<le> 126 then [c]
      else backslash # CHR ''u'' # hex_digits 4 n)"

definition json_string :: "string \<Rightarrow> string" where
  "json_string s = quote_char # concat (map escape_char s) @ [quote_char]"

text \<open>
  A layout says what stands after an opening bracket and before the closing one, and after a
  comma, at a nesting level.
\<close>

record layout =
  ly_pad :: "nat \<Rightarrow> string"
  ly_gap :: "nat \<Rightarrow> string"

definition one_line :: layout where
  "one_line = \<lparr>ly_pad = (\<lambda>_. []), ly_gap = (\<lambda>_. '' '')\<rparr>"

definition indented :: layout where
  "indented =
     (let pad = (\<lambda>level. newline @ replicate (2 * level) CHR '' '') in \<lparr>ly_pad = pad, ly_gap = pad\<rparr>)"

definition bracketed :: "layout \<Rightarrow> nat \<Rightarrow> char \<Rightarrow> char \<Rightarrow> string list \<Rightarrow> string" where
  "bracketed L level opening closing items =
     (if items = [] then [opening, closing]
      else opening # ly_pad L (level + 1) @ join (CHR '','' # ly_gap L (level + 1)) items @ ly_pad L level @ [closing])"

fun json_text :: "layout \<Rightarrow> nat \<Rightarrow> json \<Rightarrow> string" where
  "json_text L level JNull = ''null''"
| "json_text L level (JBool b) = (if b then ''true'' else ''false'')"
| "json_text L level (JInt n) = int_str n"
| "json_text L level (JFloat x) = py_repr_float x"
| "json_text L level (JStr s) = json_string s"
| "json_text L level (JArr xs) = bracketed L level CHR ''['' CHR '']'' (map (json_text L (level + 1)) xs)"
| "json_text L level (JObj ms) =
     bracketed L level CHR ''{'' CHR ''}'' (map (\<lambda>(n, j). json_string n @ '': '' @ json_text L (level + 1) j) ms)"

definition json_dumps :: "json \<Rightarrow> string" where
  "json_dumps j = json_text one_line 0 j"

definition json_dumps_indent :: "json \<Rightarrow> string" where
  "json_dumps_indent j = json_text indented 0 j"

section \<open>Reading\<close>

definition is_json_space :: "char \<Rightarrow> bool" where
  "is_json_space c = (let n = of_char c :: nat in n = 32 \<or> n = 9 \<or> n = 10 \<or> n = 13)"

definition skip :: "string \<Rightarrow> string" where
  "skip s = dropWhile is_json_space s"

definition hex_value :: "char \<Rightarrow> nat option" where
  "hex_value c =
     (let n = of_char c :: nat in
      if 48 \<le> n \<and> n \<le> 57 then Some (n - 48)
      else if 97 \<le> n \<and> n \<le> 102 then Some (n - 87)
      else if 65 \<le> n \<and> n \<le> 70 then Some (n - 55)
      else None)"

definition simple_escape :: "char \<Rightarrow> char option" where
  "simple_escape c =
     (if c = quote_char \<or> c = backslash \<or> c = CHR ''/'' then Some c
      else if c = CHR ''n'' then Some (char_of (10 :: nat))
      else if c = CHR ''r'' then Some (char_of (13 :: nat))
      else if c = CHR ''t'' then Some (char_of (9 :: nat))
      else if c = CHR ''f'' then Some (char_of (12 :: nat))
      else if c = CHR ''b'' then Some (char_of (8 :: nat))
      else None)"

definition code_point :: "char \<Rightarrow> char \<Rightarrow> char \<Rightarrow> char \<Rightarrow> char option" where
  "code_point a b c d =
     (case (hex_value a, hex_value b, hex_value c, hex_value d) of
        (Some x, Some y, Some z, Some w) \<Rightarrow>
          let n = ((x * 16 + y) * 16 + z) * 16 + w in if n < 256 then Some (char_of n) else None
      | _ \<Rightarrow> None)"

text \<open>The text after the opening quote, up to the closing one; controls must be escaped.\<close>

fun read_chars :: "string \<Rightarrow> (string \<times> string) option" where
  "read_chars [] = None"
| "read_chars (c # s) =
     (if c = quote_char then Some ([], s)
      else if c = backslash then
        (case s of
           e # s1 \<Rightarrow>
             if e = CHR ''u'' then
               (case s1 of
                  h1 # h2 # h3 # h4 # s2 \<Rightarrow>
                    (case code_point h1 h2 h3 h4 of
                       None \<Rightarrow> None
                     | Some d \<Rightarrow> map_option (\<lambda>(t, r). (d # t, r)) (read_chars s2))
                | _ \<Rightarrow> None)
             else
               (case simple_escape e of
                  None \<Rightarrow> None
                | Some d \<Rightarrow> map_option (\<lambda>(t, r). (d # t, r)) (read_chars s1))
         | [] \<Rightarrow> None)
      else if (of_char c :: nat) < 32 then None
      else map_option (\<lambda>(t, r). (c # t, r)) (read_chars s))"

text \<open>A number: an integer, and a double when a fraction or an exponent follows.\<close>

definition read_exponent :: "string \<Rightarrow> string \<times> string" where
  "read_exponent s =
     (case s of
        c # t \<Rightarrow>
          let (sgn, u) = (case t of d # v \<Rightarrow> if d = CHR ''+'' \<or> d = CHR ''-'' then ([d], v) else ([], t) | [] \<Rightarrow> ([], t))
          in if (c = CHR ''e'' \<or> c = CHR ''E'') \<and> takeWhile is_digit u \<noteq> []
             then (c # sgn @ takeWhile is_digit u, dropWhile is_digit u) else ([], s)
      | [] \<Rightarrow> ([], s))"

definition read_integer_part :: "string \<Rightarrow> string \<times> string" where
  "read_integer_part s =
     (case s of
        [] \<Rightarrow> ([], [])
      | c # t \<Rightarrow> if c = CHR ''0'' then ([c], t) else (takeWhile is_digit s, dropWhile is_digit s))"

definition read_fraction :: "string \<Rightarrow> string \<times> string" where
  "read_fraction s =
     (case s of
        [] \<Rightarrow> ([], [])
      | c # t \<Rightarrow> if c = CHR ''.'' \<and> takeWhile is_digit t \<noteq> []
                then (takeWhile is_digit t, dropWhile is_digit t) else ([], s))"

definition read_unsigned :: "string \<Rightarrow> (string \<times> string \<times> string \<times> string) option" where
  "read_unsigned s =
     (let (ip, r) = read_integer_part s; (fp, r1) = read_fraction r; (e, r2) = read_exponent r1
      in if ip = [] then None else Some (ip, fp, e, r2))"

definition read_number :: "string \<Rightarrow> (json \<times> string) option" where
  "read_number s =
     (let (neg, t) = (case s of c # t \<Rightarrow> if c = CHR ''-'' then (True, t) else (False, s) | [] \<Rightarrow> (False, s))
      in (case read_unsigned t of
            None \<Rightarrow> None
          | Some (ip, fp, e, r) \<Rightarrow>
              if fp = [] \<and> e = []
              then Some (JInt (if neg then - digits_value ip else digits_value ip), r)
              else (case parse_unsigned (ip @ pointed fp @ e) of
                      None \<Rightarrow> None
                    | Some x \<Rightarrow> Some (JFloat (fl (if neg then - x else x)), r))))"

text \<open>A dictionary of members: a later one of the same name takes the place of the first.\<close>

definition put_member :: "string \<times> json \<Rightarrow> (string \<times> json) list \<Rightarrow> (string \<times> json) list" where
  "put_member m ms =
     (if fst m \<in> fst ` set ms then map (\<lambda>x. if fst x = fst m then m else x) ms else ms @ [m])"

definition dict_of :: "(string \<times> json) list \<Rightarrow> (string \<times> json) list" where
  "dict_of ms = fold put_member ms []"

text \<open>
  The three readers call each other on shorter texts or with the same text from one to the
  next; twice the length of the text is enough fuel for what they read.
\<close>

fun read_value :: "nat \<Rightarrow> string \<Rightarrow> (json \<times> string) option"
  and read_items :: "nat \<Rightarrow> string \<Rightarrow> (json list \<times> string) option"
  and read_members :: "nat \<Rightarrow> string \<Rightarrow> ((string \<times> json) list \<times> string) option" where
  "read_value 0 s = None"
| "read_value (Suc f) s =
     (case s of
        [] \<Rightarrow> None
      | c # t \<Rightarrow>
          if c = quote_char then map_option (\<lambda>(x, r). (JStr x, r)) (read_chars t)
          else if c = CHR ''{'' then
            (case skip t of
               [] \<Rightarrow> None
             | d # v \<Rightarrow> if d = CHR ''}'' then Some (JObj [], v)
                       else map_option (\<lambda>(ms, r). (JObj (dict_of ms), r)) (read_members f (d # v)))
          else if c = CHR ''['' then
            (case skip t of
               [] \<Rightarrow> None
             | d # v \<Rightarrow> if d = CHR '']'' then Some (JArr [], v)
                       else map_option (\<lambda>(js, r). (JArr js, r)) (read_items f (d # v)))
          else if starts_with ''null'' s then Some (JNull, drop 4 s)
          else if starts_with ''true'' s then Some (JBool True, drop 4 s)
          else if starts_with ''false'' s then Some (JBool False, drop 5 s)
          else read_number s)"
| "read_items 0 s = None"
| "read_items (Suc f) s =
     (case read_value f s of
        None \<Rightarrow> None
      | Some (j, r) \<Rightarrow>
          (case skip r of
             [] \<Rightarrow> None
           | c # t \<Rightarrow>
               if c = CHR '']'' then Some ([j], t)
               else if c = CHR '','' then map_option (\<lambda>(js, r). (j # js, r)) (read_items f (skip t))
               else None))"
| "read_members 0 s = None"
| "read_members (Suc f) s =
     (case s of
        [] \<Rightarrow> None
      | q # s0 \<Rightarrow>
          if q \<noteq> quote_char then None
          else
            (case read_chars s0 of
               None \<Rightarrow> None
             | Some (n, s1) \<Rightarrow>
                 (case skip s1 of
                    [] \<Rightarrow> None
                  | d # s2 \<Rightarrow>
                      if d \<noteq> CHR '':'' then None
                      else
                        (case read_value f (skip s2) of
                           None \<Rightarrow> None
                         | Some (j, r) \<Rightarrow>
                             (case skip r of
                                [] \<Rightarrow> None
                              | c # t \<Rightarrow>
                                  if c = CHR ''}'' then Some ([(n, j)], t)
                                  else if c = CHR '','' then map_option (\<lambda>(ms, r). ((n, j) # ms, r)) (read_members f (skip t))
                                  else None)))))"

text \<open>\<open>None\<close> is a \<open>JSONDecodeError\<close>.\<close>

definition json_loads :: "string \<Rightarrow> json option" where
  "json_loads s =
     (case read_value (2 * length s) (skip s) of
        None \<Rightarrow> None
      | Some (j, r) \<Rightarrow> if skip r = [] then Some j else None)"

section \<open>Lemmas: texts\<close>

lemma char_below: "(of_char c :: nat) < 256"
  by (rule nat_of_char_less_256)

lemma hex_value_digit: "d < 16 \<Longrightarrow> hex_value (digit_char d) = Some d"
  by (simp add: hex_value_def of_char_digit)

lemma hex_digits_4:
  "hex_digits 4 n = [digit_char (n div 4096 mod 16), digit_char (n div 256 mod 16), digit_char (n div 16 mod 16), digit_char (n mod 16)]"
proof -
  have four: "4 = Suc (Suc (Suc (Suc 0)))" by simp
  have div: "n div 16 div 16 = n div 256" "n div 256 div 16 = n div 4096" by (simp_all only: div_mult2_eq [symmetric]) simp_all
  show ?thesis unfolding four hex_digits.simps div append.simps by (rule refl)
qed

lemma code_point_hex:
  assumes "n < 256"
  shows "code_point (digit_char (n div 4096 mod 16)) (digit_char (n div 256 mod 16)) (digit_char (n div 16 mod 16)) (digit_char (n mod 16)) =
    Some (char_of n)"
proof -
  have "n div 16 mod 16 = n div 16" "n div 256 = 0" "n div 4096 = 0" using assms by auto
  then show ?thesis using assms by (simp add: code_point_def hex_value_digit)
qed

lemma special_chars [simp]:
  "quote_char \<noteq> backslash" "backslash \<noteq> quote_char"
  "(of_char quote_char :: nat) = 34" "(of_char backslash :: nat) = 92"
  by (simp_all add: quote_char_def backslash_def)

lemma escaped_char: "read_chars (escape_char c @ s) = map_option (\<lambda>(t, r). (c # t, r)) (read_chars s)"
proof -
  let ?n = "of_char c :: nat"
  have c: "char_of ?n = c" by simp
  have small: "?n < 256" by (rule char_below)
  have char: "c = char_of k" if "?n = k" for k using that by auto
  consider "c = quote_char" | "c = backslash" | "?n = 10" | "?n = 13" | "?n = 9" | "?n = 12" | "?n = 8"
    | (plain) "c \<noteq> quote_char" "c \<noteq> backslash" "32 \<le> ?n" "?n \<le> 126"
    | (code) "c \<noteq> quote_char" "c \<noteq> backslash" "?n \<notin> {10, 13, 9, 12, 8}" "\<not> (32 \<le> ?n \<and> ?n \<le> 126)" by blast
  then show ?thesis
  proof cases
    case plain
    then show ?thesis by (simp add: escape_char_def Let_def)
  next
    case code
    then have "escape_char c = backslash # CHR ''u'' # hex_digits 4 ?n" by (auto simp: escape_char_def Let_def)
    moreover have "read_chars (backslash # CHR ''u'' # h1 # h2 # h3 # h4 # s) =
        (case code_point h1 h2 h3 h4 of None \<Rightarrow> None | Some d \<Rightarrow> map_option (\<lambda>(t, r). (d # t, r)) (read_chars s))" for h1 h2 h3 h4
      by simp
    ultimately show ?thesis by (simp only: hex_digits_4 append.simps code_point_hex [OF small] option.case c)
  qed (auto simp: escape_char_def simple_escape_def quote_char_def backslash_def Let_def dest!: char)
qed

lemma read_chars_escaped [simp]: "read_chars (concat (map escape_char s) @ quote_char # r) = Some (s, r)"
  by (induction s) (simp_all add: escaped_char)

lemma skip_spaces: "list_all is_json_space p \<Longrightarrow> skip (p @ t) = skip t"
  by (auto simp: skip_def list_all_iff dropWhile_append2)

lemma skip_id: "s = [] \<or> \<not> is_json_space (hd s) \<Longrightarrow> skip s = s"
  by (cases s) (auto simp: skip_def)

text \<open>What may follow a value.\<close>

definition stops :: "string \<Rightarrow> bool" where
  "stops r \<longleftrightarrow> r = [] \<or> is_json_space (hd r) \<or> hd r \<in> {CHR '','', CHR '']'', CHR ''}''}"

lemma stops_not_number: "stops r \<Longrightarrow> r = [] \<or> \<not> is_digit (hd r) \<and> hd r \<noteq> CHR ''.'' \<and> hd r \<noteq> CHR ''e'' \<and> hd r \<noteq> CHR ''E''"
  by (auto simp: stops_def is_json_space_def is_digit_def Let_def)

section \<open>Lemmas: numbers\<close>

definition plain_int :: "string \<Rightarrow> bool" where
  "plain_int ip \<longleftrightarrow> ip \<noteq> [] \<and> list_all is_digit ip \<and> (ip = ''0'' \<or> hd ip \<noteq> CHR ''0'')"

lemma read_exponent_part:
  assumes "exponent_part e n" "stops r"
  shows "read_exponent (e @ r) = (e, r)"
proof (cases e)
  case Nil
  then show ?thesis using stops_not_number [OF assms(2)] by (auto simp: read_exponent_def Let_def split: list.split)
next
  case (Cons c t)
  let ?ds = "(if \<bar>n\<bar> < 10 then ''0'' else []) @ nat_str (nat \<bar>n\<bar>)" and ?s = "if n < 0 then CHR ''-'' else CHR ''+''"
  have e: "e = CHR ''e'' # ?s # ?ds" using Cons assms(1) by (auto simp: exponent_part_def exponent_text_def)
  have "takeWhile is_digit (?ds @ r) = ?ds \<and> dropWhile is_digit (?ds @ r) = r"
    by (rule takeWhile_digits) (use stops_not_number [OF assms(2)] in auto)
  then show ?thesis unfolding e read_exponent_def by (simp add: Let_def)
qed

lemma read_unsigned_parts:
  assumes "plain_int ip" "list_all is_digit fp" "exponent_part e n" "stops r"
  shows "read_unsigned (ip @ pointed fp @ e @ r) = Some (ip, fp, e, r)"
proof -
  have "e @ r = [] \<or> \<not> is_digit (hd (e @ r)) \<and> hd (e @ r) \<noteq> CHR ''.''"
    using exponent_part_head [OF assms(3)] stops_not_number [OF assms(4)] by (cases e) auto
  then have er: "e @ r = [] \<or> (\<exists>c t. e @ r = c # t \<and> \<not> is_digit c \<and> c \<noteq> CHR ''.'')" by (cases "e @ r") auto
  have int: "takeWhile is_digit (ip @ pointed fp @ e @ r) = ip \<and> dropWhile is_digit (ip @ pointed fp @ e @ r) = pointed fp @ e @ r"
    by (rule takeWhile_digits) (use assms(1) er in \<open>auto simp: plain_int_def pointed_def\<close>)
  have frac: "takeWhile is_digit (fp @ e @ r) = fp \<and> dropWhile is_digit (fp @ e @ r) = e @ r"
    by (rule takeWhile_digits [OF assms(2)]) (use er in auto)
  have "read_integer_part (ip @ pointed fp @ e @ r) = (ip, pointed fp @ e @ r)"
    using assms(1) int by (cases ip) (auto simp: read_integer_part_def plain_int_def)
  moreover have "read_fraction (pointed fp @ e @ r) = (fp, e @ r)"
    using er frac by (auto simp: read_fraction_def pointed_def)
  ultimately show ?thesis
    using assms(1) by (simp add: read_unsigned_def read_exponent_part [OF assms(3,4)] plain_int_def)
qed

lemma plain_nat_str: "plain_int (nat_str n)"
proof -
  have "nat_str 0 = ''0''" by (simp add: nat_str_small digit_char_numerals)
  then show ?thesis using nat_str_head [of n] by (auto simp: plain_int_def)
qed

lemma plain_int_not_minus: "plain_int ip \<Longrightarrow> \<exists>c t. ip @ s = c # t \<and> c \<noteq> CHR ''-''"
  by (cases ip) (auto simp: plain_int_def)

lemma read_int [simp]:
  assumes "stops r"
  shows "read_number (int_str n @ r) = Some (JInt n, r)"
proof -
  have "read_unsigned (nat_str k @ r) = Some (nat_str k, [], [], r)" for k
    using read_unsigned_parts [OF plain_nat_str, of "[]" "[]" 0 r k] assms by (simp add: pointed_def exponent_part_def)
  note read = this
  obtain c t where ct: "nat_str (nat n) @ r = c # t" "c \<noteq> CHR ''-''"
    using plain_int_not_minus [OF plain_nat_str] by blast
  have "read_number (nat_str (nat n) @ r) = Some (JInt (int (nat n)), r)"
    unfolding read_number_def ct(1) using read [of "nat n"] ct by simp
  then show ?thesis using read [of "nat (- n)"] by (auto simp: read_number_def int_str_def)
qed

lemma read_float [simp]:
  assumes "fl x = x" "stops r"
  shows "read_number (py_repr_float x @ r) = Some (JFloat x, r)"
proof -
  have pos: "\<exists>ip fp e n y. repr_pos z = ip @ pointed fp @ e \<and> plain_int ip \<and> list_all is_digit fp \<and> exponent_part e n \<and>
      (fp \<noteq> [] \<or> e \<noteq> []) \<and> parse_unsigned (ip @ pointed fp @ e) = Some y \<and> fl y = z" if z: "fl z = z" "0 < z" for z
  proof -
    obtain ds k where ds: "repr_pos z = float_text ds k" "ds \<noteq> []" "list_all is_digit ds" "hd ds \<noteq> CHR ''0''"
      using repr_pos_parts [OF z] by blast
    obtain ip fp e n where parts: "float_text ds k = ip @ pointed fp @ e" "ip \<noteq> []" "list_all is_digit ip" "list_all is_digit fp"
      "exponent_part e n" "fp \<noteq> [] \<or> e \<noteq> []" "ip = ''0'' \<or> hd ip = hd ds" using float_text_parts [OF ds(2,3)] by blast
    obtain y where y: "parse_unsigned (repr_pos z) = Some y" "fl y = z" using parse_repr_pos [OF z] by blast
    have "plain_int ip" using parts(2,3,7) ds(4) by (auto simp: plain_int_def)
    with parts y ds(1) show ?thesis by metis
  qed
  consider "x = 0" | "0 < x" | "x < 0" by linarith
  then show ?thesis
  proof cases
    case 1
    have "read_unsigned (''0'' @ pointed ''0'' @ [] @ r) = Some (''0'', ''0'', [], r)"
      by (rule read_unsigned_parts [OF _ _ _ assms(2)]) (simp_all add: plain_int_def exponent_part_def)
    moreover have "parse_unsigned (''0'' @ pointed ''0'' @ []) = Some 0" by code_simp
    ultimately show ?thesis using 1 by (simp add: py_repr_float_def read_number_def pointed_def)
  next
    case 2
    from pos [OF assms(1) 2] obtain ip fp e n y where p: "repr_pos x = ip @ pointed fp @ e" "plain_int ip" "list_all is_digit fp"
      "exponent_part e n" "fp \<noteq> [] \<or> e \<noteq> []" "parse_unsigned (ip @ pointed fp @ e) = Some y" "fl y = x" by blast
    obtain c t where c: "ip @ pointed fp @ e @ r = c # t" "c \<noteq> CHR ''-''" using plain_int_not_minus [OF p(2)] by blast
    with 2 p read_unsigned_parts [OF p(2-4) assms(2)] show ?thesis
      by (auto simp: py_repr_float_def read_number_def)
  next
    case 3
    then have "fl (- x) = - x" "0 < - x" using assms(1) by (simp_all add: fl_uminus)
    from pos [OF this] obtain ip fp e n y where p: "repr_pos (- x) = ip @ pointed fp @ e" "plain_int ip" "list_all is_digit fp"
      "exponent_part e n" "fp \<noteq> [] \<or> e \<noteq> []" "parse_unsigned (ip @ pointed fp @ e) = Some y" "fl y = - x" by blast
    with 3 read_unsigned_parts [OF p(2-4) assms(2)] show ?thesis
      by (auto simp: py_repr_float_def read_number_def fl_uminus)
  qed
qed

section \<open>What is written is read back\<close>

text \<open>Values that Python has: floats are doubles, and a dictionary has each key once.\<close>

fun json_ok :: "json \<Rightarrow> bool" where
  "json_ok (JFloat x) \<longleftrightarrow> fl x = x"
| "json_ok (JArr xs) \<longleftrightarrow> (\<forall>x\<in>set xs. json_ok x)"
| "json_ok (JObj ms) \<longleftrightarrow> distinct (map fst ms) \<and> (\<forall>m\<in>set ms. json_ok (snd m))"
| "json_ok _ \<longleftrightarrow> True"

definition layout_ok :: "layout \<Rightarrow> bool" where
  "layout_ok L \<longleftrightarrow> (\<forall>n. list_all is_json_space (ly_pad L n) \<and> list_all is_json_space (ly_gap L n))"

lemma layouts_ok: "layout_ok one_line" "layout_ok indented"
  by (auto simp: layout_ok_def one_line_def indented_def newline_def is_json_space_def Let_def)

lemma dict_of_distinct: "distinct (map fst ms) \<Longrightarrow> dict_of ms = ms"
proof -
  have "fold put_member ms acc = acc @ ms" if "distinct (map fst (acc @ ms))" for acc
    using that
  proof (induction ms arbitrary: acc)
    case (Cons m ms)
    then have "put_member m acc = acc @ [m]" by (auto simp: put_member_def)
    with Cons.IH [of "acc @ [m]"] Cons.prems show ?case by simp
  qed simp
  then show "distinct (map fst ms) \<Longrightarrow> dict_of ms = ms" by (simp add: dict_of_def)
qed

text \<open>The first character of a value.\<close>

definition value_head :: "char \<Rightarrow> bool" where
  "value_head c \<longleftrightarrow> c \<in> {CHR ''n'', CHR ''t'', CHR ''f'', CHR ''-'', quote_char, CHR ''['', CHR ''{''} \<or> is_digit c"

lemma value_head_not: "value_head c \<Longrightarrow> \<not> is_json_space c \<and> c \<noteq> CHR '']'' \<and> c \<noteq> CHR ''}''"
  by (auto simp: value_head_def is_json_space_def is_digit_def quote_char_def Let_def)

lemma plain_head: "plain_int ip \<Longrightarrow> \<exists>c t. ip @ s = c # t \<and> is_digit c"
  by (cases ip) (auto simp: plain_int_def)

lemma repr_head:
  assumes "fl x = x"
  shows "\<exists>c t. py_repr_float x = c # t \<and> (c = CHR ''-'' \<or> is_digit c)"
proof -
  have "\<exists>c t. repr_pos z = c # t \<and> is_digit c" if z: "fl z = z" "0 < z" for z
  proof -
    obtain ds k where ds: "repr_pos z = float_text ds k" "ds \<noteq> []" "list_all is_digit ds" using repr_pos_parts [OF z] by blast
    obtain ip fp e where "float_text ds k = ip @ pointed fp @ e" "ip \<noteq> []" "list_all is_digit ip"
      using float_text_parts [OF ds(2,3)] by blast
    with ds(1) show ?thesis by (cases ip) auto
  qed
  from this [of x] assms show ?thesis by (auto simp: py_repr_float_def is_digit_def Let_def)
qed

lemma json_text_head:
  assumes "json_ok j"
  shows "\<exists>c t. json_text L level j = c # t \<and> value_head c"
proof (cases j)
  case (JInt n)
  show ?thesis
    using plain_head [OF plain_nat_str, of "nat n" "[]"] by (auto simp: JInt int_str_def value_head_def)
next
  case (JFloat x)
  with assms repr_head [of x] show ?thesis by (auto simp: value_head_def)
next
  case (JBool b)
  then show ?thesis by (simp add: value_head_def)
qed (auto simp: value_head_def json_string_def bracketed_def)

definition reads_back :: "layout \<Rightarrow> nat \<Rightarrow> json \<Rightarrow> bool" where
  "reads_back L level j \<longleftrightarrow>
     (\<forall>f r. stops r \<longrightarrow> 2 * length (json_text L level j) \<le> f \<longrightarrow>
        read_value f (json_text L level j @ r) = Some (j, r))"

lemma stops_pad: "list_all is_json_space p \<Longrightarrow> stops (p @ CHR '']'' # r)" "list_all is_json_space p \<Longrightarrow> stops (p @ CHR ''}'' # r)"
  by (cases p; simp add: stops_def)+

lemma skip_pad:
  "list_all is_json_space p \<Longrightarrow> skip (p @ CHR '']'' # r) = CHR '']'' # r"
  "list_all is_json_space p \<Longrightarrow> skip (p @ CHR ''}'' # r) = CHR ''}'' # r"
  "list_all is_json_space p \<Longrightarrow> value_head c \<Longrightarrow> skip (p @ c # r) = c # r"
  using value_head_not by (auto simp: skip_spaces intro!: skip_id simp: is_json_space_def)

lemma read_joined_items:
  assumes "js \<noteq> []" "\<forall>j\<in>set js. json_ok j \<and> reads_back L level j" "list_all is_json_space gap" "list_all is_json_space p"
    and "2 * length (join (CHR '','' # gap) (map (json_text L level) js)) < f"
  shows "read_items f (join (CHR '','' # gap) (map (json_text L level) js) @ p @ CHR '']'' # r) = Some (js, r)"
  using assms(1,2,5)
proof (induction js arbitrary: f)
  case (Cons j js)
  then obtain g where f: "f = Suc g" by (cases f) auto
  show ?case
  proof (cases js)
    case Nil
    with Cons.prems have "read_value g (json_text L level j @ p @ CHR '']'' # r) = Some (j, p @ CHR '']'' # r)"
      using stops_pad(1) [OF assms(4)] by (simp add: reads_back_def f)
    with Nil show ?thesis by (simp add: f skip_pad(1) [OF assms(4)])
  next
    case (Cons j' js')
    let ?rest = "join (CHR '','' # gap) (map (json_text L level) js)"
    have join: "join (CHR '','' # gap) (map (json_text L level) (j # js)) = json_text L level j @ CHR '','' # gap @ ?rest"
      using Cons by simp
    obtain c t where c: "json_text L level j' = c # t" "value_head c" using json_text_head Cons.prems Cons by fastforce
    have skip: "skip (gap @ ?rest @ p @ CHR '']'' # r) = ?rest @ p @ CHR '']'' # r"
    proof -
      have "\<exists>u. ?rest = c # u" using c(1) Cons by (cases js') auto
      then obtain u where "?rest = c # u" ..
      then show ?thesis using skip_pad(3) [OF assms(3) c(2)] by simp
    qed
    have "read_value g (json_text L level j @ (CHR '','' # gap @ ?rest @ p @ CHR '']'' # r)) = Some (j, CHR '','' # gap @ ?rest @ p @ CHR '']'' # r)"
      using Cons.prems join by (simp add: reads_back_def f stops_def)
    moreover have "read_items g (?rest @ p @ CHR '']'' # r) = Some (js, r)"
      using Cons.IH [of g] Cons.prems join Cons by (simp add: f)
    ultimately show ?thesis unfolding join by (simp add: f skip skip_id is_json_space_def)
  qed
qed simp

definition member_text :: "layout \<Rightarrow> nat \<Rightarrow> string \<times> json \<Rightarrow> string" where
  "member_text L level m = json_string (fst m) @ '': '' @ json_text L level (snd m)"

lemma read_joined_members:
  assumes "ms \<noteq> []" "\<forall>m\<in>set ms. json_ok (snd m) \<and> reads_back L level (snd m)" "list_all is_json_space gap" "list_all is_json_space p"
    and "2 * length (join (CHR '','' # gap) (map (member_text L level) ms)) < f"
  shows "read_members f (join (CHR '','' # gap) (map (member_text L level) ms) @ p @ CHR ''}'' # r) = Some (ms, r)"
  using assms(1,2,5)
proof (induction ms arbitrary: f)
  case (Cons m ms)
  then obtain g where f: "f = Suc g" by (cases f) auto
  obtain n j where m: "m = (n, j)" by (cases m)
  obtain c t where c: "json_text L level j = c # t" "value_head c" using json_text_head Cons.prems m by fastforce
  have spelled: "member_text L level (n, j) @ s = quote_char # concat (map escape_char n) @ quote_char # CHR '':'' # CHR '' '' # json_text L level j @ s" for s
    by (simp add: member_text_def json_string_def)
  have skips: "skip (CHR '':'' # s) = CHR '':'' # s" "skip (CHR '' '' # json_text L level j @ s) = json_text L level j @ s" for s
    using skip_pad(3) [of "'' ''" c "t @ s"] c by (auto simp: is_json_space_def skip_def)
  have len: "2 * length (json_text L level j) \<le> 2 * length (member_text L level m)" by (simp add: member_text_def m)
  show ?case
  proof (cases ms)
    case Nil
    with Cons.prems len have "read_value g (json_text L level j @ p @ CHR ''}'' # r) = Some (j, p @ CHR ''}'' # r)"
      using stops_pad(2) [OF assms(4)] by (simp add: reads_back_def f m)
    with Nil show ?thesis by (simp add: f spelled skips skip_pad(2) [OF assms(4)] m)
  next
    case (Cons m' ms')
    let ?rest = "join (CHR '','' # gap) (map (member_text L level) ms)"
    have join: "join (CHR '','' # gap) (map (member_text L level) (m # ms)) = member_text L level m @ CHR '','' # gap @ ?rest"
      using Cons by simp
    have skip: "skip (gap @ ?rest @ p @ CHR ''}'' # r) = ?rest @ p @ CHR ''}'' # r"
    proof -
      have "\<exists>u. ?rest = quote_char # u" using Cons by (cases ms') (auto simp: member_text_def json_string_def)
      then obtain u where "?rest = quote_char # u" ..
      then show ?thesis using skip_pad(3) [OF assms(3), of quote_char] by (simp add: value_head_def)
    qed
    have "read_value g (json_text L level j @ (CHR '','' # gap @ ?rest @ p @ CHR ''}'' # r)) = Some (j, CHR '','' # gap @ ?rest @ p @ CHR ''}'' # r)"
      using Cons.prems join len by (simp add: reads_back_def f stops_def m)
    moreover have "read_members g (?rest @ p @ CHR ''}'' # r) = Some (ms, r)"
      using Cons.IH [of g] Cons.prems join Cons by (simp add: f)
    ultimately show ?thesis unfolding join unfolding append_assoc m spelled by (simp add: f skips skip skip_id is_json_space_def m)
  qed
qed simp

lemma read_value_number:
  assumes "c = CHR ''-'' \<or> is_digit c"
  shows "read_value (Suc f) (c # t) = read_number (c # t)"
proof -
  have "c \<notin> {quote_char, CHR ''{'', CHR ''['', CHR ''n'', CHR ''t'', CHR ''f''}"
    using assms by (auto simp: is_digit_def quote_char_def Let_def)
  then show ?thesis by (simp add: starts_with_def)
qed

lemma int_str_head: "\<exists>c t. int_str n = c # t \<and> (c = CHR ''-'' \<or> is_digit c)"
  using plain_head [OF plain_nat_str, of "nat n" "[]"] by (auto simp: int_str_def)

lemma bracketed_text:
  "items \<noteq> [] \<Longrightarrow> bracketed L level a b items @ r =
     a # ly_pad L (level + 1) @ join (CHR '','' # ly_gap L (level + 1)) items @ ly_pad L level @ b # r"
  by (simp add: bracketed_def)

lemma bracketed_nonempty [simp]: "bracketed L level a b items \<noteq> []"
  by (simp add: bracketed_def)

lemma reads_back_plain:
  assumes "json_text L level j = c # t" "c = CHR ''-'' \<or> is_digit c"
    and "\<And>r. stops r \<Longrightarrow> read_number (json_text L level j @ r) = Some (j, r)"
  shows "reads_back L level j"
  unfolding reads_back_def
proof (intro allI impI)
  fix f r assume *: "stops r" "2 * length (json_text L level j) \<le> f"
  then obtain g where f: "f = Suc g" using assms(1) by (cases f) auto
  have "read_value f (json_text L level j @ r) = read_number (json_text L level j @ r)"
    using read_value_number [OF assms(2)] by (simp add: assms(1) f)
  then show "read_value f (json_text L level j @ r) = Some (j, r)" using assms(3) [OF *(1)] by simp
qed

lemma reads_back_word:
  assumes "json_text L level j \<noteq> []" "\<And>g r. read_value (Suc g) (json_text L level j @ r) = Some (j, r)"
  shows "reads_back L level j"
  unfolding reads_back_def
proof (intro allI impI)
  fix f r assume "2 * length (json_text L level j) \<le> f"
  then obtain g where "f = Suc g" using assms(1) by (cases f) auto
  then show "read_value f (json_text L level j @ r) = Some (j, r)" using assms(2) by simp
qed

lemma reads_back_array:
  assumes "layout_ok L" "\<forall>j\<in>set js. json_ok j \<and> reads_back L (level + 1) j"
  shows "reads_back L level (JArr js)"
proof -
  let ?items = "map (json_text L (level + 1)) js"
  show ?thesis unfolding reads_back_def
  proof (intro allI impI)
    fix f r assume f: "2 * length (json_text L level (JArr js)) \<le> f"
    show "read_value f (json_text L level (JArr js) @ r) = Some (JArr js, r)"
    proof (cases js)
      case Nil
      with f obtain g where "f = Suc g" by (cases f) (auto simp: bracketed_def)
      with Nil show ?thesis by (simp add: bracketed_def quote_char_def skip_id is_json_space_def)
    next
      case (Cons j js')
      obtain g where g: "f = Suc g" using f by (cases f) auto
      obtain c t where c: "json_text L (level + 1) j = c # t" "value_head c" using json_text_head assms(2) Cons by fastforce
      obtain u where u: "join (CHR '','' # ly_gap L (level + 1)) ?items = c # u" using c(1) Cons by (cases js') auto
      have ne: "?items \<noteq> []" using Cons by simp
      have pads: "list_all is_json_space (ly_pad L n)" "list_all is_json_space (ly_gap L n)" for n
        using assms(1) by (simp_all add: layout_ok_def)
      have "read_items g ((c # u) @ ly_pad L level @ CHR '']'' # r) = Some (js, r)"
        unfolding u [symmetric] by (rule read_joined_items) (use assms(2) Cons pads f g in \<open>auto simp: bracketed_def\<close>)
      moreover have "json_text L level (JArr js) @ r = CHR ''['' # ly_pad L (level + 1) @ (c # u) @ ly_pad L level @ CHR '']'' # r"
        unfolding json_text.simps bracketed_text [OF ne] u by (rule refl)
      ultimately show ?thesis
        using value_head_not [OF c(2)] skip_pad(3) [OF pads(1) c(2)] by (simp add: g u quote_char_def)
    qed
  qed
qed

lemma reads_back_object:
  assumes "layout_ok L" "\<forall>m\<in>set ms. json_ok (snd m) \<and> reads_back L (level + 1) (snd m)" "distinct (map fst ms)"
  shows "reads_back L level (JObj ms)"
proof -
  let ?items = "map (member_text L (level + 1)) ms"
  have members: "map (\<lambda>(n, j). json_string n @ '': '' @ json_text L (level + 1) j) ms = ?items"
    by (simp add: member_text_def case_prod_beta)
  show ?thesis unfolding reads_back_def
  proof (intro allI impI)
    fix f r assume f: "2 * length (json_text L level (JObj ms)) \<le> f"
    show "read_value f (json_text L level (JObj ms) @ r) = Some (JObj ms, r)"
    proof (cases ms)
      case Nil
      with f obtain g where "f = Suc g" by (cases f) (auto simp: bracketed_def)
      with Nil show ?thesis by (simp add: bracketed_def quote_char_def skip_id is_json_space_def)
    next
      case (Cons m ms')
      obtain g where g: "f = Suc g" using f by (cases f) auto
      obtain u where u: "join (CHR '','' # ly_gap L (level + 1)) ?items = quote_char # u"
        using Cons by (cases ms') (auto simp: member_text_def json_string_def)
      have ne: "?items \<noteq> []" using Cons by simp
      have pads: "list_all is_json_space (ly_pad L n)" "list_all is_json_space (ly_gap L n)" for n
        using assms(1) by (simp_all add: layout_ok_def)
      have text_f: "2 * length (bracketed L level CHR ''{'' CHR ''}'' ?items) \<le> f" using f unfolding json_text.simps members .
      have "read_members g ((quote_char # u) @ ly_pad L level @ CHR ''}'' # r) = Some (ms, r)"
        unfolding u [symmetric] by (rule read_joined_members) (use assms(2) Cons pads text_f g in \<open>auto simp: bracketed_def\<close>)
      moreover have "dict_of ms = ms" using assms(3) by (simp add: dict_of_distinct)
      moreover have "value_head quote_char" by (simp add: value_head_def)
      moreover have "json_text L level (JObj ms) @ r = CHR ''{'' # ly_pad L (level + 1) @ (quote_char # u) @ ly_pad L level @ CHR ''}'' # r"
        unfolding json_text.simps members bracketed_text [OF ne] u by (rule refl)
      ultimately show ?thesis
        using skip_pad(3) [OF pads(1), of quote_char] by (simp add: g u quote_char_def)
    qed
  qed
qed

lemma reads_back_all:
  assumes "layout_ok L"
  shows "json_ok j \<Longrightarrow> reads_back L level j"
proof (induction j arbitrary: level)
  case JNull
  show ?case by (rule reads_back_word) (simp_all add: starts_with_def quote_char_def)
next
  case (JBool b)
  show ?case by (rule reads_back_word) (simp_all add: starts_with_def quote_char_def)
next
  case (JInt n)
  obtain c t where c: "int_str n = c # t" "c = CHR ''-'' \<or> is_digit c" using int_str_head by blast
  show ?case by (rule reads_back_plain [where c = c and t = t]) (simp add: c(1), rule c(2), simp)
next
  case (JFloat x)
  obtain c t where c: "py_repr_float x = c # t" "c = CHR ''-'' \<or> is_digit c" using repr_head [of x] JFloat by auto
  show ?case by (rule reads_back_plain [where c = c and t = t]) (simp add: c(1), rule c(2), use JFloat in simp)
next
  case (JStr s)
  show ?case by (rule reads_back_word) (simp_all add: json_string_def)
next
  case (JArr js)
  then show ?case by (intro reads_back_array [OF assms]) simp
next
  case (JObj ms)
  then show ?case by (intro reads_back_object [OF assms]) (auto simp: snds.simps)
qed

lemma json_loads_text:
  assumes "json_ok j" "layout_ok L" "list_all is_json_space r"
  shows "json_loads (json_text L 0 j @ r) = Some j"
proof -
  obtain c t where head: "json_text L 0 j = c # t" "value_head c" using json_text_head [OF assms(1)] by blast
  then have "skip (json_text L 0 j @ r) = json_text L 0 j @ r" using value_head_not by (simp add: skip_id)
  moreover have "stops r" using assms(3) by (cases r) (simp_all add: stops_def)
  then have "read_value (2 * length (json_text L 0 j @ r)) (json_text L 0 j @ r) = Some (j, r)"
    using reads_back_all [OF assms(2,1), of 0] unfolding reads_back_def by simp
  moreover have "skip r = []" using assms(3) unfolding skip_def by (induction r) simp_all
  ultimately show ?thesis by (simp add: json_loads_def)
qed

lemma json_loads_dumps:
  assumes "json_ok j"
  shows "json_loads (json_dumps j) = Some j" "json_loads (json_dumps_indent j) = Some j"
    "json_loads (json_dumps_indent j @ newline) = Some j"
  using json_loads_text [OF assms layouts_ok(1), of "[]"] json_loads_text [OF assms layouts_ok(2), of "[]"]
    json_loads_text [OF assms layouts_ok(2), of newline]
  by (simp_all add: json_dumps_def json_dumps_indent_def newline_def is_json_space_def)

text \<open>
  \<open>json.loads(json.dumps(x)) = x\<close> for every value that Python has, in either layout, also
  with a line end after it.
\<close>

theorem json_roundtrip:
  assumes "json_ok j"
  shows "json_loads (json_dumps j) = Some j \<and> json_loads (json_dumps_indent j) = Some j \<and>
    json_loads (json_dumps_indent j @ newline) = Some j"
  using json_loads_dumps [OF assms] by simp

theorem json_roundtrip_witness:
  "json_loads ''{\"a\": [1, 0.5, null], \"b\": \"x\"}'' = Some (JObj [(''a'', JArr [JInt 1, JFloat (1 / 2), JNull]), (''b'', JStr ''x'')])"
proof -
  let ?j = "JObj [(''a'', JArr [JInt 1, JFloat (1 / 2), JNull]), (''b'', JStr ''x'')]"
  have "fl (1 / 2) = 1 / 2" by code_simp
  then have "json_ok ?j" by simp
  moreover have "json_dumps ?j = ''{\"a\": [1, 0.5, null], \"b\": \"x\"}''" by code_simp
  ultimately show ?thesis using json_roundtrip [of ?j] by simp
qed

end
