(* ===== verification/Config_Sync.thy ===== *)
theory Config_Sync
  imports Policy_Service Json "HOL-Library.Monad_Syntax"
begin

text \<open>
  \<open>app/services/config_control_sync.py\<close>: one policy is fetched from the ConfigControl service
  and upserted by its name.

  The HTTP exchange and the pydantic decoding of the policy are parameters: \<open>fetch\<close> answers a
  request with the text of the exception it raises (connection, status code or body) or with
  the JSON value of the body, and \<open>decode\<close> is \<open>PolicyCreate.model_validate\<close> on a JSON object.
\<close>

record config_request =
  cr_base_url :: string
  cr_path :: string
  cr_timeout_seconds :: rat
  cr_headers :: "(string \<times> string) list"
  cr_params :: "(string \<times> string) list"

section \<open>The service\<close>

definition is_configured :: "settings \<Rightarrow> bool" where
  "is_configured S = (case set_config_control_base_url S of None \<Rightarrow> False | Some u \<Rightarrow> u \<noteq> [])"

definition or_text :: "string option \<Rightarrow> string \<Rightarrow> string" where
  "or_text a b = (case a of None \<Rightarrow> b | Some s \<Rightarrow> if s = [] then b else s)"

definition fetch_failed :: "string \<Rightarrow> string \<Rightarrow> app_error" where
  "fetch_failed config_name reason =
     ConfigControlSyncError (''Unable to fetch config '' @ single_quote config_name @ '' from ConfigControl: '' @ reason)"

text \<open>A base URL that is missing fails inside the \<open>try\<close>, on \<open>None.rstrip\<close>.\<close>

definition fetch_config ::
  "settings \<Rightarrow> (config_request \<Rightarrow> string + json) \<Rightarrow> string \<Rightarrow> string \<Rightarrow> string \<Rightarrow> app_error + (string \<times> json) list" where
  "fetch_config S fetch config_name environment target =
     (case set_config_control_base_url S of
        None \<Rightarrow> Inl (fetch_failed config_name (single_quote ''NoneType'' @ '' object has no attribute '' @ single_quote ''rstrip''))
      | Some url \<Rightarrow>
          (case fetch
             \<lparr>cr_base_url = rstrip_slash url, cr_path = ''/configs/'' @ config_name,
              cr_timeout_seconds = set_request_timeout_seconds S,
              cr_headers = [(''X-User-Id'', set_config_control_user_id S), (''X-Role'', set_config_control_role S)],
              cr_params = [(''version'', ''resolved''), (''environment'', environment), (''target'', target),
                           (''client_id'', set_config_control_client_id S)]\<rparr> of
             Inl reason \<Rightarrow> Inl (fetch_failed config_name reason)
           | Inr (JObj payload) \<Rightarrow> Inr payload
           | Inr _ \<Rightarrow> Inl (ConfigControlSyncError ''ConfigControl returned an invalid response body.'')))"

definition sync_policy ::
  "('d, 'k) inst \<Rightarrow> (config_request \<Rightarrow> string + json) \<Rightarrow> ((string \<times> json) list \<Rightarrow> string + policy_base) \<Rightarrow>
   string option \<Rightarrow> string option \<Rightarrow> string option \<Rightarrow> ('d, 'k) world \<Rightarrow>
   (app_error + policy \<times> string \<times> (string \<times> json) list) \<times> ('d, 'k) world" where
  "sync_policy I fetch decode config_name environment target w =
     (let S = i_settings I
      in if \<not> is_configured S
         then (Inl (ConfigControlSyncError ''ConfigControl integration is not configured.''), w)
         else
           (case fetch_config S fetch (or_text config_name (set_config_control_policy_name S))
                   (or_text environment (set_config_control_environment S))
                   (or_text target (set_config_control_target S)) of
              Inl e \<Rightarrow> (Inl e, w)
            | Inr payload \<Rightarrow>
                (case map_of payload ''value'' of
                   Some (JObj raw_policy) \<Rightarrow>
                     (case decode raw_policy of
                        Inl reason \<Rightarrow>
                          (Inl (ConfigControlSyncError (''ConfigControl policy payload is invalid: '' @ reason)), w)
                      | Inr b \<Rightarrow>
                          (case upsert_policy_by_name I b w of
                             (Inl e, w1) \<Rightarrow> (Inl e, w1)
                           | (Inr (p, action), w1) \<Rightarrow>
                               (Inr (p, action, payload), emit [Log INFO ''config_control_policy_synced''] w1)))
                 | _ \<Rightarrow> (Inl (ConfigControlSyncError ''ConfigControl returned a non-object policy payload.''), w))))"

section \<open>Decoders\<close>

text \<open>What the service relies on: a decoder lets only valid policies through.\<close>

locale policy_decoder =
  fixes decode :: "(string \<times> json) list \<Rightarrow> string + policy_base"
  assumes decode_law: "decode raw = Inr b \<Longrightarrow> policy_ok b"
begin

text \<open>How a sync that returned got there.\<close>

lemma sync_cases:
  assumes "sync_policy I fetch decode name env target w = (Inr (p, action, payload), w')"
  shows "\<exists>b raw w1. map_of payload ''value'' = Some (JObj raw) \<and> decode raw = Inr b \<and> policy_ok b \<and>
    upsert_policy_by_name I b w = (Inr (p, action), w1) \<and> w' = emit [Log INFO ''config_control_policy_synced''] w1"
  using assms
  by (auto simp: sync_policy_def Let_def dest: decode_law
      split: if_splits sum.splits option.splits json.splits prod.splits)

text \<open>The same answer of ConfigControl brings the service to the same upsert.\<close>

lemma sync_repeats:
  assumes "sync_policy I fetch decode name env target w = (Inr (p, action, payload), w')"
    and "map_of payload ''value'' = Some (JObj raw)" "decode raw = Inr b"
    and "upsert_policy_by_name I b v = (Inr (q, act), v')"
  shows "sync_policy I fetch decode name env target v =
    (Inr (q, act, payload), emit [Log INFO ''config_control_policy_synced''] v')"
  using assms
  by (auto simp: sync_policy_def Let_def split: if_splits sum.splits option.splits json.splits prod.splits)

end

text \<open>
  An upsert that raises has written nothing, and what it raises is an error of the database: the
  rows it reads back are valid, so no validation fails after a write.
\<close>

context policy_database
begin

lemma create_raises:
  assumes "i_db I = D" "ok (w_db w)" "policy_ok b" "create_policy I b w = (Inl e, w')"
  shows "w' = w \<and> (\<exists>x. e = DatabaseError x)"
proof (cases "db_insert D b (w_db w)")
  case (Inr r)
  obtain q d where r: "r = (q, d)" by (cases r)
  from insert_law [OF assms(2) Inr [unfolded r]] assms(3) have "policy_ok q" using policy_ok_truncate by metis
  with assms(4) show ?thesis by (simp add: create_policy_def assms(1) Inr r read_policy_ok)
qed (use assms(4) in \<open>auto simp: create_policy_def assms(1)\<close>)

lemma upsert_raises:
  assumes "i_db I = D" "ok (w_db w)" "table_ok (rows (w_db w))" "policy_ok b"
    and "upsert_policy_by_name I b w = (Inl e, w')"
  shows "w' = w \<and> (\<exists>x. e = DatabaseError x)"
proof (cases "db_select D (w_db w)")
  case (Inr ps)
  show ?thesis
  proof (cases "filter (\<lambda>p. pol_name p = pol_name b) ps")
    case Nil
    with assms(5) have "create_policy I b w = (Inl e, w')"
      by (auto simp: upsert_policy_by_name_def assms(1) Inr split: sum.splits prod.splits)
    then show ?thesis by (rule create_raises [OF assms(1,2,4)])
  next
    case (Cons r rest)
    then have "r \<in> set (filter (\<lambda>p. pol_name p = pol_name b) ps)" by simp
    then have mem: "r \<in> set ps" "pol_name r = pol_name b" by simp_all
    from mem(1) have row: "rows (w_db w) (pol_id r) = Some r" using selected_row [OF assms(2) Inr] by blast
    note single = filter_name [OF assms(2) Inr row mem(2)]
    have valid: "read_policy r = Inr r" using table_okD [OF assms(3) row] by (simp add: read_policy_ok)
    have "read_policy q = Inr q"
      if "db_update D (assign_payload b r\<lparr>pol_version := pol_version r + 1\<rparr>) (w_db w) = Inr (q, d)" for q d
      using written_row(2) [OF assms(2) row _ assms(4) _ _ that] by (simp add: read_policy_ok)
    with valid single assms(5) show ?thesis
      by (auto simp: upsert_policy_by_name_def assms(1) Inr Let_def map_sum_def split: sum.splits if_splits)
  qed
qed (use assms(5) in \<open>auto simp: upsert_policy_by_name_def assms(1)\<close>)

end

lemma sync_raises:
  assumes "policy_decoder decode" "policy_database (i_db I) rows ok" "ok (w_db w)" "table_ok (rows (w_db w))"
    and "sync_policy I fetch decode config_name environment target w = (Inl e, w')"
  shows "w' = w \<and> ((\<exists>msg. e = ConfigControlSyncError msg) \<or> (\<exists>x. e = DatabaseError x))"
proof -
  have fetch: "fetch_config S fetch nm env tgt = Inl x \<Longrightarrow> \<exists>msg. x = ConfigControlSyncError msg" for S nm env tgt x
    by (auto simp: fetch_config_def fetch_failed_def split: option.splits sum.splits json.splits)
  have upsert: "v = w \<and> (\<exists>x. y = DatabaseError x)"
    if "decode raw = Inr b" "upsert_policy_by_name I b w = (Inl y, v)" for raw b y v
    using policy_database.upsert_raises [OF assms(2) refl assms(3,4) policy_decoder.decode_law [OF assms(1) that(1)] that(2)] .
  show ?thesis
    using assms(5) unfolding sync_policy_def Let_def
    by (auto split: if_splits sum.splits option.splits json.splits prod.splits dest: fetch upsert)
qed

text \<open>
  A decoder that coerces nothing: the members of the schema by name, with its defaults, and
  then the constraints of the schema.
\<close>

definition member :: "(string \<times> json) list \<Rightarrow> string \<Rightarrow> 'a \<Rightarrow> (json \<Rightarrow> 'a option) \<Rightarrow> 'a option" where
  "member fs k dflt read = (case map_of fs k of None \<Rightarrow> Some dflt | Some v \<Rightarrow> read v)"

fun str_value :: "json \<Rightarrow> string option option" where
  "str_value JNull = Some None"
| "str_value (JStr s) = Some (Some s)"
| "str_value _ = None"

fun int_value :: "json \<Rightarrow> int option option" where
  "int_value JNull = Some None"
| "int_value (JInt n) = Some (Some n)"
| "int_value _ = None"

fun bool_value :: "json \<Rightarrow> bool option option" where
  "bool_value JNull = Some None"
| "bool_value (JBool b) = Some (Some b)"
| "bool_value _ = None"

definition algorithm_value :: "json \<Rightarrow> rate_limit_algorithm option option" where
  "algorithm_value v =
     map_option Some (find (\<lambda>a. v = JStr (algorithm_str a)) [FIXED_WINDOW, SLIDING_WINDOW_LOG, TOKEN_BUCKET])"

definition failure_mode_value :: "json \<Rightarrow> failure_mode option option" where
  "failure_mode_value v = map_option Some (find (\<lambda>a. v = JStr (failure_mode_str a)) [FAIL_OPEN, FAIL_CLOSED])"

definition decode_members :: "(string \<times> json) list \<Rightarrow> policy_dict option" where
  "decode_members fs = do {
     nm \<leftarrow> member fs ''name'' None str_value;
     desc \<leftarrow> member fs ''description'' None str_value;
     alg \<leftarrow> member fs ''algorithm'' (Some TOKEN_BUCKET) algorithm_value;
     rate \<leftarrow> member fs ''rate'' None int_value;
     window \<leftarrow> member fs ''window_seconds'' None int_value;
     burst \<leftarrow> member fs ''burst_capacity'' None int_value;
     act \<leftarrow> member fs ''active'' (Some True) bool_value;
     prio \<leftarrow> member fs ''priority'' (Some 0) int_value;
     route \<leftarrow> member fs ''route'' None str_value;
     user \<leftarrow> member fs ''user_id'' None str_value;
     ip \<leftarrow> member fs ''ip_address'' None str_value;
     tenant \<leftarrow> member fs ''tenant_id'' None str_value;
     api \<leftarrow> member fs ''api_key'' None str_value;
     mode \<leftarrow> member fs ''failure_mode'' (Some FAIL_CLOSED) failure_mode_value;
     Some \<lparr>d_name = nm, d_description = desc, d_algorithm = alg, d_rate = rate, d_window_seconds = window,
       d_burst_capacity = burst, d_active = act, d_priority = prio, d_route = route, d_user_id = user,
       d_ip_address = ip, d_tenant_id = tenant, d_api_key = api, d_failure_mode = mode\<rparr> }"

definition strict_decode :: "(string \<times> json) list \<Rightarrow> string + policy_base" where
  "strict_decode fs =
     (case decode_members fs of
        None \<Rightarrow> Inl ''wrong type''
      | Some d \<Rightarrow> (case policy_create d of Inl e \<Rightarrow> Inl ''invalid value'' | Inr b \<Rightarrow> Inr b))"

interpretation strict: policy_decoder strict_decode
  by unfold_locales (auto simp: strict_decode_def dest: policy_create_ok(1) split: option.splits sum.splits)

section \<open>A concrete sync\<close>

text \<open>An answer of ConfigControl with a policy for the stored name, without some other members.\<close>

definition example_config :: "(string \<times> json) list" where
  "example_config =
     [(''name'', JStr ''judge-vortex.submission-rate-limit-policy''), (''version'', JInt 4),
      (''value'', JObj [(''name'', JStr ''protected-route-default''), (''rate'', JInt 20), (''window_seconds'', JInt 60)])]"

definition synced_inst :: "(memory_db, keyspace) inst" where
  "synced_inst = demo_inst\<lparr>i_settings := default_settings\<lparr>set_config_control_base_url := Some ''http://config/''\<rparr>\<rparr>"

definition synced_policy :: policy where
  "synced_policy = example_policy\<lparr>pol_rate := 20, pol_burst_capacity := None, pol_route := None, pol_version := 2, pol_updated_at := 7\<rparr>"

lemma synced_example:
  "\<exists>w'. sync_policy synced_inst (\<lambda>_. Inr (JObj example_config)) strict_decode None None None demo_world =
       (Inr (synced_policy, ''updated'', example_config), w') \<and> w_db w' = \<lparr>md_rows = [synced_policy], md_ids = [2, 3], md_now = 7\<rparr>"
proof -
  let ?b = "policy_base.truncate (example_policy\<lparr>pol_rate := 20, pol_burst_capacity := None, pol_route := None\<rparr>)"
  have dec: "strict_decode [(''name'', JStr ''protected-route-default''), (''rate'', JInt 20), (''window_seconds'', JInt 60)] = Inr ?b"
    by code_simp
  have q: "read_policy synced_policy = Inr synced_policy"
    by (rule read_policy_ok) (simp add: synced_policy_def policy_ok_def validate_policy_def to_policy_payload_def field_checks_def
        failed_checks_def gt_zero_def length_at_most_def validate_algorithm_specifics_def example_policy_def)
  have inst: "i_db synced_inst = memory_database" "set_config_control_base_url (i_settings synced_inst) = Some ''http://config/''"
    by (simp_all add: synced_inst_def)
  obtain w1 where up: "upsert_policy_by_name synced_inst ?b demo_world = (Inr (synced_policy, ''updated''), w1)"
    and db: "w_db w1 = \<lparr>md_rows = [synced_policy], md_ids = [2, 3], md_now = 7\<rparr>"
    using q by (simp add: synced_policy_def upsert_policy_by_name_def inst policy_base.defs policy.defs example_policy_def to_policy_payload_def
        assign_payload_def memory_database_def demo_world_def md_update_def Let_def)
  have "sync_policy synced_inst (\<lambda>_. Inr (JObj example_config)) strict_decode None None None demo_world =
      (Inr (synced_policy, ''updated'', example_config), emit [Log INFO ''config_control_policy_synced''] w1)"
    by (simp add: sync_policy_def is_configured_def fetch_config_def inst Let_def dec up example_config_def)
  with db show ?thesis by simp
qed

section \<open>Properties\<close>

text \<open>
  C21. A sync is all or nothing and can be repeated. When it raises, nothing has changed, and what
  it raises is its own error (not configured, fetch failed, wrong shape, invalid policy) or an
  error of the database, whose write with its commit and refresh is one step here; when it
  returns, the row of the fetched name holds the fetched policy, and a second sync with the same
  answer reports ``unchanged'' and writes nothing.
\<close>

theorem config_sync_applies_once:
  assumes "policy_decoder decode" "policy_database (i_db I) rows ok" "ok (w_db w)" "table_ok (rows (w_db w))"
    and "sync_policy I fetch decode name env target w = (r, w')"
  shows "(case r of
      Inl e \<Rightarrow> w' = w \<and> ((\<exists>msg. e = ConfigControlSyncError msg) \<or> (\<exists>x. e = DatabaseError x))
    | Inr (p, action, payload) \<Rightarrow>
        (\<exists>raw. map_of payload ''value'' = Some (JObj raw) \<and> decode raw = Inr (policy_base.truncate p)) \<and>
        rows (w_db w') (pol_id p) = Some p \<and>
        (\<forall>rs. db_select (i_db I) (w_db w') = Inr rs \<longrightarrow>
          sync_policy I fetch decode name env target w' =
            (Inr (p, ''unchanged'', payload), emit [Log INFO ''config_control_policy_synced''] w')))"
proof (cases r)
  case (Inl e)
  with sync_raises [OF assms(1-4)] assms(5) show ?thesis by simp
next
  case (Inr x)
  obtain p action payload where x: "x = (p, action, payload)" by (cases x)
  with Inr assms(5) have run: "sync_policy I fetch decode name env target w = (Inr (p, action, payload), w')" by simp
  obtain b raw w1 where b: "map_of payload ''value'' = Some (JObj raw)" "decode raw = Inr b" "policy_ok b"
    "upsert_policy_by_name I b w = (Inr (p, action), w1)" "w' = emit [Log INFO ''config_control_policy_synced''] w1"
    using policy_decoder.sync_cases [OF assms(1) run] by blast
  have row: "policy_base.truncate p = b" "rows (w_db w') (pol_id p) = Some p" "ok (w_db w')" "policy_ok p"
    using policy_database.upsert_result [OF assms(2) refl assms(3,4) b(3,4)] b(5) by simp_all
  have "upsert_policy_by_name I b w' = (Inr (p, ''unchanged''), w')" if "db_select (i_db I) (w_db w') = Inr rs" for rs
    by (rule policy_database.upsert_again [OF assms(2) refl row(3,1,4,2) that])
  with policy_decoder.sync_repeats [OF assms(1) run b(1,2)] row b(1,2) show ?thesis by (simp add: Inr x)
qed

theorem config_sync_applies_once_witness:
  "\<exists>p w'. sync_policy synced_inst (\<lambda>_. Inr (JObj example_config)) strict_decode None None None demo_world =
       (Inr (p, ''updated'', example_config), w') \<and> pol_rate p = 20 \<and> md_row (w_db w') (pol_id p) = Some p \<and>
     sync_policy synced_inst (\<lambda>_. Inr (JObj example_config)) strict_decode None None None w' =
       (Inr (p, ''unchanged'', example_config), emit [Log INFO ''config_control_policy_synced''] w')"
proof -
  obtain w' where run: "sync_policy synced_inst (\<lambda>_. Inr (JObj example_config)) strict_decode None None None demo_world =
      (Inr (synced_policy, ''updated'', example_config), w')" and db: "w_db w' = \<lparr>md_rows = [synced_policy], md_ids = [2, 3], md_now = 7\<rparr>"
    using synced_example by blast
  have "db_select (i_db synced_inst) (w_db w') = Inr [synced_policy]"
    by (simp add: synced_inst_def db memory_database_def)
  with config_sync_applies_once [OF strict.policy_decoder_axioms _ _ _ run, of md_row md_ok]
    memory_database.policy_database_axioms run show ?thesis by (auto simp: synced_inst_def synced_policy_def)
qed

end
