(* ===== verification/Policy_Codec.thy ===== *)
theory Policy_Codec
  imports Config_Sync
begin

text \<open>
  The text under which the list of active policies is cached. What the service relies on is the
  locale \<open>policy_codec\<close>; it is met by the JSON text of dictionaries with the fields of
  \<open>PolicyRead\<close>, where ids and times are integers. Also the message of an invalidation as JSON.
\<close>

section \<open>The interface\<close>

text \<open>
  \<open>json.dumps\<close> of the dumped policies and the way back: pydantic reads valid policies back, and
  the text of a list is never empty.
\<close>

locale policy_codec =
  fixes dump :: "policy list \<Rightarrow> string" and load :: "string \<Rightarrow> app_error + policy list"
  assumes load_dump: "\<forall>p\<in>set ps. policy_ok p \<Longrightarrow> load (dump ps) = Inr ps"
    and dump_nonempty: "dump ps \<noteq> []"

section \<open>Policies as dictionaries\<close>

definition opt_json :: "('a \<Rightarrow> json) \<Rightarrow> 'a option \<Rightarrow> json" where
  "opt_json f x = (case x of None \<Rightarrow> JNull | Some v \<Rightarrow> f v)"

definition base_members :: "('a :: type) policy_base_scheme \<Rightarrow> (string \<times> json) list" where
  "base_members p =
     [(''name'', JStr (pol_name p)), (''description'', opt_json JStr (pol_description p)),
      (''algorithm'', JStr (algorithm_str (pol_algorithm p))), (''rate'', JInt (pol_rate p)),
      (''window_seconds'', JInt (pol_window_seconds p)), (''burst_capacity'', opt_json JInt (pol_burst_capacity p)),
      (''active'', JBool (pol_active p)), (''priority'', JInt (pol_priority p)),
      (''route'', opt_json JStr (pol_route p)), (''user_id'', opt_json JStr (pol_user_id p)),
      (''ip_address'', opt_json JStr (pol_ip_address p)), (''tenant_id'', opt_json JStr (pol_tenant_id p)),
      (''api_key'', opt_json JStr (pol_api_key p)), (''failure_mode'', JStr (failure_mode_str (pol_failure_mode p)))]"

text \<open>
  \<open>model_dump\<close> also writes the computed fields; they are not read back. The window of a valid
  policy is positive, so its refill rate is a number.
\<close>

definition policy_json :: "policy \<Rightarrow> json" where
  "policy_json p =
     JObj (base_members p @
       [(''id'', JInt (uint (pol_id p))), (''version'', JInt (pol_version p)),
        (''created_at'', JInt (pol_created_at p)), (''updated_at'', JInt (pol_updated_at p)),
        (''selector_kind'', JStr (selector_kind p)), (''refill_rate_per_second'', (case refill_rate_per_second p of Inl _ \<Rightarrow> JNull | Inr x \<Rightarrow> JFloat x)),
        (''header_limit'', JInt (header_limit p))])"

definition policy_of_json :: "json \<Rightarrow> policy option" where
  "policy_of_json j =
     (case j of
        JObj ms \<Rightarrow>
          (case (strict_decode ms, map_of ms ''id'', map_of ms ''version'', map_of ms ''created_at'', map_of ms ''updated_at'') of
             (Inr b, Some (JInt i), Some (JInt v), Some (JInt c), Some (JInt u)) \<Rightarrow>
               Some (policy_base.extend b (policy.fields (word_of_int i) v c u))
           | _ \<Rightarrow> None)
      | _ \<Rightarrow> None)"

definition dump_policies :: "policy list \<Rightarrow> string" where
  "dump_policies ps = json_dumps (JArr (map policy_json ps))"

definition load_policies :: "string \<Rightarrow> app_error + policy list" where
  "load_policies s =
     (case json_loads s of
        Some (JArr js) \<Rightarrow> (case those (map policy_of_json js) of None \<Rightarrow> Inl CacheDecodeError | Some ps \<Rightarrow> Inr ps)
      | _ \<Rightarrow> Inl CacheDecodeError)"

lemma opt_values [simp]:
  "str_value (opt_json JStr x) = Some x" "int_value (opt_json JInt y) = Some y"
  by (simp_all add: opt_json_def split: option.split)

lemma enum_values [simp]:
  "algorithm_value (JStr (algorithm_str a)) = Some (Some a)" "failure_mode_value (JStr (failure_mode_str m)) = Some (Some m)"
  by (cases a; cases m; simp add: algorithm_value_def failure_mode_value_def)+

lemma decode_base:
  "decode_members (base_members p @ ms) = Some (to_policy_payload p)"
  by (simp add: decode_members_def member_def base_members_def to_policy_payload_def)

lemma strict_decode_base:
  assumes "policy_ok p"
  shows "strict_decode (base_members p @ ms) = Inr (policy_base.truncate p)"
proof -
  have b: "policy_ok (policy_base.truncate p)" using assms by simp
  then have "policy_create (to_policy_payload (policy_base.truncate p)) = Inr (policy_base.truncate p)"
    by (simp add: policy_create_def to_policy_payload_def policy_ok_iff policy_base.defs)
  then show ?thesis by (simp add: strict_decode_def decode_base)
qed

lemma policy_json_back:
  assumes "policy_ok p"
  shows "policy_of_json (policy_json p) = Some p"
proof -
  have "policy_base.extend (policy_base.truncate p) (policy.fields (pol_id p) (pol_version p) (pol_created_at p) (pol_updated_at p)) = p"
    by (cases p) (simp add: policy_base.defs policy.defs)
  moreover have "map_of (base_members p @ ms) k = map_of ms k" if "k \<notin> set (map fst (base_members p))" for k ms
    using that by (simp add: map_add_def map_of_eq_None_iff [THEN iffD2])
  then have skip: "map_of (base_members p @ ms) ''id'' = map_of ms ''id''" "map_of (base_members p @ ms) ''version'' = map_of ms ''version''"
    "map_of (base_members p @ ms) ''created_at'' = map_of ms ''created_at''" "map_of (base_members p @ ms) ''updated_at'' = map_of ms ''updated_at''" for ms
    by (simp_all add: base_members_def del: map_of_append)
  ultimately show ?thesis
    unfolding policy_of_json_def policy_json_def json.case strict_decode_base [OF assms] skip by simp
qed

lemma policy_json_ok: "json_ok (policy_json p)"
proof -
  have "json_ok (opt_json JStr x)" "json_ok (opt_json JInt y)" for x y by (simp_all add: opt_json_def split: option.split)
  moreover have "json_ok (case refill_rate_per_second p of Inl _ \<Rightarrow> JNull | Inr x \<Rightarrow> JFloat x)"
    by (auto simp: refill_rate_per_second_def round6_def split: sum.split)
  ultimately show ?thesis by (simp add: policy_json_def base_members_def)
qed

interpretation json_codec: policy_codec dump_policies load_policies
proof unfold_locales
  show "load_policies (dump_policies ps) = Inr ps" if "\<forall>p\<in>set ps. policy_ok p" for ps
  proof -
    have "json_loads (dump_policies ps) = Some (JArr (map policy_json ps))"
      unfolding dump_policies_def using json_loads_dumps(1) [of "JArr (map policy_json ps)"] policy_json_ok by simp
    moreover have "those (map policy_of_json (map policy_json ps)) = Some ps"
      using that by (induction ps) (simp_all add: policy_json_back)
    ultimately show ?thesis by (simp add: load_policies_def)
  qed
  show "dump_policies ps \<noteq> []" for ps by (simp add: dump_policies_def json_dumps_def)
qed

section \<open>The message of an invalidation\<close>

definition plain_text :: "string \<Rightarrow> bool" where
  "plain_text s \<longleftrightarrow> list_all (\<lambda>c. c \<noteq> quote_char \<and> c \<noteq> backslash \<and> 32 \<le> (of_char c :: nat) \<and> of_char c \<le> (126 :: nat)) s"

lemma plain_json_string: "plain_text s \<Longrightarrow> json_string s = quote s"
proof -
  have "concat (map escape_char s) = s" if "plain_text s" for s
    using that by (induction s) (auto simp: plain_text_def escape_char_def Let_def)
  then show "plain_text s \<Longrightarrow> json_string s = quote s" by (simp add: json_string_def quote_def quote_char_def)
qed

lemma refresh_payload_json:
  assumes "plain_text reason" "plain_text pid"
  shows "refresh_payload reason pid = json_dumps (JObj [(''reason'', JStr reason), (''policy_id'', JStr pid)])"
proof -
  have "plain_text ''reason''" "plain_text ''policy_id''" by (simp_all add: plain_text_def quote_char_def backslash_def)
  then show ?thesis
    using assms by (simp add: refresh_payload_def json_dumps_def bracketed_def one_line_def plain_json_string)
qed

end
