(* ===== verification/Fleet.thy ===== *)
theory Fleet
  imports Policy_Codec
begin

text \<open>
  Several gateway instances over one database and one Redis server. The lookup of the active
  policies is cut at its awaits into atomic phases, so that lookups of any number of instances
  interleave with each other, with writes of the database, invalidations, refresh messages,
  restarts and the passing of time. What is shown is how old a list can be that a lookup
  answers with.
\<close>

section \<open>A lookup in phases\<close>

text \<open>
  \<open>list_active_policies_cached\<close> between its awaits: the read of the cache, of the snapshot, of
  the database, the write of the cache, and the write of the snapshot.
\<close>

datatype lookup_phase =
    GetCache
  | AskSnapshot
  | QueryAfterError
  | QueryAfterMiss
  | StoreCache "policy list"
  | KeepSnapshot bool "policy list"
  | Answered "policy list"

fun lookup_step ::
  "('d, 'k) inst \<Rightarrow> lookup_phase \<Rightarrow> ('d, 'k) world \<Rightarrow> (app_error + lookup_phase) \<times> ('d, 'k) world" where
  "lookup_step I GetCache w =
     (case redis_get I (policy_cache_key (i_settings I)) w of
        (Inl _, w1) \<Rightarrow> (Inr AskSnapshot, emit [mark_redis_error ''policy_cache_get'', Log WARNING ''redis_fallback''] w1)
      | (Inr (Some (c # cs)), w1) \<Rightarrow>
          (map_sum id (KeepSnapshot True) (i_load I (c # cs)), emit [mark_policy_cache_hit] w1)
      | (Inr _, w1) \<Rightarrow> (Inr QueryAfterMiss, emit [mark_policy_cache_miss] w1))"
| "lookup_step I AskSnapshot w =
     (case get_fresh I (set_local_policy_cache_ttl_seconds (i_settings I)) w of
        (Some ps, w1) \<Rightarrow> (Inr (Answered ps), w1)
      | (None, w1) \<Rightarrow> (Inr QueryAfterError, w1))"
| "lookup_step I QueryAfterError w = (map_sum id (KeepSnapshot False) (list_policies I True (w_db w)), w)"
| "lookup_step I QueryAfterMiss w = (map_sum id StoreCache (list_policies I True (w_db w)), w)"
| "lookup_step I (StoreCache ps) w =
     (let S = i_settings I
      in case redis_setex I (policy_cache_key S) (set_policy_cache_ttl_seconds S) (i_dump I ps) w of
           (Inl _, w1) \<Rightarrow>
             (Inr (KeepSnapshot True ps), emit [mark_redis_error ''policy_cache_set'', Log WARNING ''redis_fallback''] w1)
         | (Inr _, w1) \<Rightarrow> (Inr (KeepSnapshot True ps), w1))"
| "lookup_step I (KeepSnapshot logged ps) w =
     (Inr (Answered ps), (if logged then emit [Log INFO ''policy_load''] else id) (snapshot_set I ps w))"
| "lookup_step I (Answered ps) w = (Inr (Answered ps), w)"

definition next_phase ::
  "('d, 'k) inst \<Rightarrow> (app_error + lookup_phase) \<times> ('d, 'k) world \<Rightarrow> (app_error + lookup_phase) \<times> ('d, 'k) world" where
  "next_phase I x = (case x of (Inl e, w) \<Rightarrow> (Inl e, w) | (Inr p, w) \<Rightarrow> lookup_step I p w)"

section \<open>The fleet\<close>

text \<open>
  \<open>fl_private i\<close> is what instance \<open>i\<close> alone sees and changes; its database and server are those of
  the fleet. A task is a lookup in progress: its instance, the time it began, and its phase.
  \<open>fl_since\<close>, \<open>fl_history\<close> and \<open>fl_answers\<close> record what happened: since when the database has
  been what it is, what it was before with the time it became so and was replaced, and the
  answers given with their times. The time is the clock of the server.
\<close>

record ('d, 'k) fleet =
  fl_db :: 'd
  fl_server :: 'k
  fl_private :: "nat \<Rightarrow> ('d, 'k) world"
  fl_tasks :: "nat \<Rightarrow> (nat \<times> millis \<times> lookup_phase) option"
  fl_since :: millis
  fl_history :: "(millis \<times> millis \<times> 'd) list"
  fl_answers :: "(millis \<times> policy list) list"

definition seen_by :: "nat \<Rightarrow> ('d, 'k) fleet \<Rightarrow> ('d, 'k) world" where
  "seen_by i F = (fl_private F i)\<lparr>w_db := fl_db F, w_redis := fl_server F\<rparr>"

definition left_by :: "nat \<Rightarrow> ('d, 'k) world \<Rightarrow> ('d, 'k) fleet \<Rightarrow> ('d, 'k) fleet" where
  "left_by i w F = F\<lparr>fl_server := w_redis w, fl_private := (fl_private F)(i := w)\<rparr>"

definition fl_now :: "('d, 'k) inst \<Rightarrow> ('d, 'k) fleet \<Rightarrow> millis" where
  "fl_now I F = server_now_ms (i_redis I) (fl_server F)"

text \<open>
  The surroundings of an instance during a step: the monotonic clock reads the time of the
  fleet, from an origin of its own and within the millisecond; the network may do anything;
  the rest of the fleet moves in steps of its own.
\<close>

definition at_time :: "(nat \<Rightarrow> rat) \<Rightarrow> nat \<Rightarrow> millis \<Rightarrow> 'k environment \<Rightarrow> bool" where
  "at_time origin i now e \<longleftrightarrow>
     (\<forall>n k. env_server e n k = k) \<and>
     (\<forall>n. origin i + of_int now / 1000 \<le> env_monotonic e n \<and> env_monotonic e n < origin i + of_int (now + 1) / 1000)"

text \<open>
  A lookup takes at most \<open>D\<close> milliseconds. \<open>write\<close> is any change of the database, by an instance
  or by hand; what an admin operation does besides is an \<open>invalidate\<close>.
\<close>

inductive fleet_step ::
  "('d, 'k) inst \<Rightarrow> ('k \<Rightarrow> keyview) \<Rightarrow> (nat \<Rightarrow> rat) \<Rightarrow> int \<Rightarrow> ('d, 'k) fleet \<Rightarrow> ('d, 'k) fleet \<Rightarrow> bool"
  for I view origin D where
  begin_lookup:
    "fl_tasks F t = None \<Longrightarrow>
     fleet_step I view origin D F (F\<lparr>fl_tasks := (fl_tasks F)(t \<mapsto> (i, fl_now I F, GetCache))\<rparr>)"
| advance:
    "fl_tasks F t = Some (i, s, p) \<Longrightarrow> fl_now I F \<le> s + D \<Longrightarrow> at_time origin i (fl_now I F) e \<Longrightarrow>
     lookup_step (I\<lparr>i_env := e\<rparr>) p (seen_by i F) = (r, w) \<Longrightarrow>
     fleet_step I view origin D F
       ((left_by i w F)\<lparr>fl_tasks := (fl_tasks F)(t := (case r of Inl _ \<Rightarrow> None | Inr p' \<Rightarrow> Some (i, s, p')))\<rparr>)"
| answer:
    "fl_tasks F t = Some (i, s, Answered ps) \<Longrightarrow> fl_now I F \<le> s + D \<Longrightarrow>
     fleet_step I view origin D F
       (F\<lparr>fl_tasks := (fl_tasks F)(t := None), fl_answers := (fl_now I F, ps) # fl_answers F\<rparr>)"
| write_db:
    "fleet_step I view origin D F
       (F\<lparr>fl_db := d, fl_since := fl_now I F, fl_history := (fl_since F, fl_now I F, fl_db F) # fl_history F\<rparr>)"
| invalidate:
    "at_time origin i (fl_now I F) e \<Longrightarrow>
     fleet_step I view origin D F
       (left_by i (invalidate_policy_cache (I\<lparr>i_env := e\<rparr>) reason pid (seen_by i F)) F)"
| refresh:
    "fleet_step I view origin D F (left_by i (on_refresh_message is_message (seen_by i F)) F)"
| restart:
    "w_snapshot w = None \<Longrightarrow>
     fleet_step I view origin D F
       (F\<lparr>fl_private := (fl_private F)(i := w),
          fl_tasks := (\<lambda>t. case fl_tasks F t of None \<Rightarrow> None | Some (j, x) \<Rightarrow> if j = i then None else Some (j, x))\<rparr>)"
| elapse:
    "server_now_ms (i_redis I) (fl_server F) \<le> server_now_ms (i_redis I) k \<Longrightarrow>
     view k = live_at (server_now_ms (i_redis I) k) (view (fl_server F)) \<Longrightarrow>
     fleet_step I view origin D F (F\<lparr>fl_server := k\<rparr>)"
| other_traffic:
    "cmd_time (i_redis I) k = cmd_time (i_redis I) (fl_server F) \<Longrightarrow>
     view k (policy_cache_key (i_settings I)) = view (fl_server F) (policy_cache_key (i_settings I)) \<Longrightarrow>
     fleet_step I view origin D F (F\<lparr>fl_server := k\<rparr>)"

inductive_cases fleet_stepE: "fleet_step I view origin D F F'"

text \<open>A fleet that has just been started: nothing cached anywhere, nothing in progress.\<close>

definition fleet_start :: "('d, 'k) inst \<Rightarrow> ('k \<Rightarrow> keyview) \<Rightarrow> ('d, 'k) fleet \<Rightarrow> bool" where
  "fleet_start I view F \<longleftrightarrow>
     view (fl_server F) (policy_cache_key (i_settings I)) = None \<and> (\<forall>i. w_snapshot (fl_private F i) = None) \<and>
     fl_tasks F = (\<lambda>_. None) \<and> fl_since F = fl_now I F \<and> fl_history F = [] \<and> fl_answers F = []"

text \<open>\<open>ps\<close> was the list of active policies at time \<open>r\<close>.\<close>

definition was_current :: "('d, 'k) inst \<Rightarrow> ('d, 'k) fleet \<Rightarrow> millis \<Rightarrow> policy list \<Rightarrow> bool" where
  "was_current I F r ps \<longleftrightarrow>
     fl_since F \<le> r \<and> list_policies I True (fl_db F) = Inr ps \<or>
     (\<exists>(since, until, d)\<in>set (fl_history F). since \<le> r \<and> r \<le> until \<and> list_policies I True d = Inr ps)"

text \<open>
  The age of an answer: the lives of the cached list and of the snapshot, the lookup that
  filled the cache, the one that took the list from the cache and the one that answers, and a
  millisecond for the resolution of the clock.
\<close>

definition max_staleness :: "settings \<Rightarrow> int \<Rightarrow> millis" where
  "max_staleness S D =
     3 * D + 1000 * set_policy_cache_ttl_seconds S + 1000 * set_local_policy_cache_ttl_seconds S + 1"

section \<open>The phases make up the lookup\<close>

lemma next_phase_simps [simp]:
  "next_phase I (Inl e, w) = (Inl e, w)" "next_phase I (Inr p, w) = lookup_step I p w"
  by (simp_all add: next_phase_def)

text \<open>
  The phases are not a second program: run without interruption, from the read of the cache to
  the answer, they are the lookup of the service, with the same answer or error and the same
  effects in the same order.
\<close>

lemma phases_are_lookup:
  "(next_phase I ^^ 5) (Inr GetCache, w) =
     (case list_active_policies_cached I w of (r, w') \<Rightarrow> (map_sum id Answered r, w'))"
proof -
  have five: "(next_phase I ^^ 5) x = next_phase I (next_phase I (next_phase I (next_phase I (next_phase I x))))" for x
    by (simp add: eval_nat_numeral)
  show ?thesis
    unfolding five
    by (auto simp: list_active_policies_cached_def load_from_database_def Let_def
        split: prod.split sum.split option.split list.split)
qed

section \<open>Lemmas: lists that were current\<close>

definition read_since :: "('d, 'k) inst \<Rightarrow> ('d, 'k) fleet \<Rightarrow> millis \<Rightarrow> policy list \<Rightarrow> bool" where
  "read_since I F lo ps \<longleftrightarrow> (\<exists>r. lo \<le> r \<and> r \<le> fl_now I F \<and> was_current I F r ps)"

lemma read_since_mono: "read_since I F lo ps \<Longrightarrow> lo' \<le> lo \<Longrightarrow> read_since I F lo' ps"
  unfolding read_since_def by (meson order_trans)

lemma list_policies_env [simp]: "list_policies (I\<lparr>i_env := e\<rparr>) = list_policies I"
  by (intro ext) (simp add: list_policies_def split: sum.split)

text \<open>A step keeps what was current: \<open>grows\<close>.\<close>

definition grows :: "('d, 'k) inst \<Rightarrow> ('d, 'k) fleet \<Rightarrow> ('d, 'k) fleet \<Rightarrow> bool" where
  "grows I F F' \<longleftrightarrow> fl_now I F \<le> fl_now I F' \<and> (\<forall>r ps. r \<le> fl_now I F \<longrightarrow> was_current I F r ps \<longrightarrow> was_current I F' r ps)"

lemma read_since_grows: "read_since I F lo ps \<Longrightarrow> grows I F F' \<Longrightarrow> read_since I F' lo ps"
  unfolding read_since_def grows_def by force

lemma grows_same_db:
  "fl_db F' = fl_db F \<Longrightarrow> fl_since F' = fl_since F \<Longrightarrow> fl_history F' = fl_history F \<Longrightarrow> fl_now I F \<le> fl_now I F' \<Longrightarrow> grows I F F'"
  by (simp add: grows_def was_current_def)

lemma grows_write:
  "grows I F (F\<lparr>fl_db := d, fl_since := fl_now I F, fl_history := (fl_since F, fl_now I F, fl_db F) # fl_history F\<rparr>)"
  by (auto simp: grows_def was_current_def fl_now_def)

lemma current_read: "fl_since F \<le> fl_now I F \<Longrightarrow> list_policies I True (fl_db F) = Inr ps \<Longrightarrow> lo \<le> fl_now I F \<Longrightarrow> read_since I F lo ps"
  unfolding read_since_def was_current_def by blast

section \<open>The invariant\<close>

text \<open>
  Every stored list carries a bound on the time it was read: the cached one by its deadline, a
  snapshot by its load time, the one of a task by the time the task began.
\<close>

definition cache_dated :: "('d, 'k) inst \<Rightarrow> int \<Rightarrow> (millis \<Rightarrow> policy list \<Rightarrow> bool) \<Rightarrow> entry option \<Rightarrow> bool" where
  "cache_dated I D P x \<longleftrightarrow>
     (case x of
        None \<Rightarrow> True
      | Some (v, d) \<Rightarrow>
          \<exists>ps dl. v = RStr (i_dump I ps) \<and> d = Some dl \<and> P (dl - D - 1000 * set_policy_cache_ttl_seconds (i_settings I)) ps)"

definition snapshot_dated ::
  "('d, 'k) inst \<Rightarrow> (nat \<Rightarrow> rat) \<Rightarrow> int \<Rightarrow> (millis \<Rightarrow> policy list \<Rightarrow> bool) \<Rightarrow> nat \<Rightarrow> snapshot option \<Rightarrow> bool" where
  "snapshot_dated I origin D P i x \<longleftrightarrow>
     (case x of
        None \<Rightarrow> True
      | Some sn \<Rightarrow>
          \<exists>tl. sn_loaded_at_monotonic sn < origin i + of_int (tl + 1) / 1000 \<and>
            P (tl - 2 * D - 1000 * set_policy_cache_ttl_seconds (i_settings I)) (sn_policies sn))"

definition task_dated :: "('d, 'k) inst \<Rightarrow> int \<Rightarrow> (millis \<Rightarrow> policy list \<Rightarrow> bool) \<Rightarrow> millis \<Rightarrow> lookup_phase \<Rightarrow> bool" where
  "task_dated I D P s p \<longleftrightarrow>
     (case p of
        StoreCache ps \<Rightarrow> P s ps
      | KeepSnapshot _ ps \<Rightarrow> P (s - D - 1000 * set_policy_cache_ttl_seconds (i_settings I)) ps
      | Answered ps \<Rightarrow> P (s + D - max_staleness (i_settings I) D) ps
      | _ \<Rightarrow> True)"

definition fleet_inv :: "('d, 'k) inst \<Rightarrow> ('k \<Rightarrow> keyview) \<Rightarrow> (nat \<Rightarrow> rat) \<Rightarrow> int \<Rightarrow> ('d, 'k) fleet \<Rightarrow> bool" where
  "fleet_inv I view origin D F \<longleftrightarrow>
     fl_since F \<le> fl_now I F \<and> (\<forall>x\<in>set (fl_history F). fst (snd x) \<le> fl_since F) \<and>
     cache_dated I D (read_since I F) (view (fl_server F) (policy_cache_key (i_settings I))) \<and>
     (\<forall>i. snapshot_dated I origin D (read_since I F) i (w_snapshot (fl_private F i))) \<and>
     (\<forall>t i s p. fl_tasks F t = Some (i, s, p) \<longrightarrow> s \<le> fl_now I F \<and> task_dated I D (read_since I F) s p) \<and>
     (\<forall>t ps. (t, ps) \<in> set (fl_answers F) \<longrightarrow> (\<exists>r. t - max_staleness (i_settings I) D \<le> r \<and> r \<le> t \<and> t \<le> fl_now I F \<and> was_current I F r ps))"

lemma dated_mono:
  assumes "\<And>lo ps. P lo ps \<Longrightarrow> Q lo ps"
  shows "cache_dated I D P x \<Longrightarrow> cache_dated I D Q x"
    and "snapshot_dated I origin D P i y \<Longrightarrow> snapshot_dated I origin D Q i y"
    and "task_dated I D P s p \<Longrightarrow> task_dated I D Q s p"
  using assms
  by (fastforce simp: cache_dated_def snapshot_dated_def task_dated_def split: option.splits lookup_phase.splits)+

lemma dated_grows:
  assumes "grows I F F'"
  shows "cache_dated I D (read_since I F) x \<Longrightarrow> cache_dated I D (read_since I F') x"
    and "snapshot_dated I origin D (read_since I F) i y \<Longrightarrow> snapshot_dated I origin D (read_since I F') i y"
    and "task_dated I D (read_since I F) s p \<Longrightarrow> task_dated I D (read_since I F') s p"
  using dated_mono [of "read_since I F" "read_since I F'"] read_since_grows [OF _ assms] by blast+

text \<open>
  What a step of an instance does, as far as the invariant can see: it leaves the clock of
  the server, and what it leaves in the cache, in its snapshot and in its task is dated.
\<close>

definition step_dated ::
  "('d, 'k) inst \<Rightarrow> ('k \<Rightarrow> keyview) \<Rightarrow> (nat \<Rightarrow> rat) \<Rightarrow> int \<Rightarrow> ('d, 'k) fleet \<Rightarrow> nat \<Rightarrow> ('d, 'k) world \<Rightarrow> bool" where
  "step_dated I view origin D F i w \<longleftrightarrow>
     cmd_time (i_redis I) (w_redis w) = cmd_time (i_redis I) (fl_server F) \<and>
     cache_dated I D (read_since I F) (view (w_redis w) (policy_cache_key (i_settings I))) \<and>
     snapshot_dated I origin D (read_since I F) i (w_snapshot w)"

lemma inv_answers:
  assumes "fleet_inv I view origin D F" "grows I F F'" "(t, ps) \<in> set (fl_answers F)"
  shows "\<exists>r. t - max_staleness (i_settings I) D \<le> r \<and> r \<le> t \<and> t \<le> fl_now I F' \<and> was_current I F' r ps"
proof -
  obtain r where "t - max_staleness (i_settings I) D \<le> r" "r \<le> t" "t \<le> fl_now I F" "was_current I F r ps"
    using assms(1,3) unfolding fleet_inv_def by blast
  with assms(2) show ?thesis unfolding grows_def by (meson order_trans)
qed

lemma inv_left_by:
  assumes inv: "fleet_inv I view origin D F" and step: "step_dated I view origin D F i w"
    and tasks: "\<And>t j s p. T t = Some (j, s, p) \<Longrightarrow> fl_tasks F t = Some (j, s, p) \<or> s \<le> fl_now I F \<and> task_dated I D (read_since I F) s p"
  shows "fleet_inv I view origin D ((left_by i w F)\<lparr>fl_tasks := T\<rparr>)" (is "fleet_inv I view origin D ?F")
proof -
  have now: "fl_now I ?F = fl_now I F" using step by (simp add: step_dated_def fl_now_def left_by_def server_now_ms_def)
  have same: "fl_db ?F = fl_db F" "fl_since ?F = fl_since F" "fl_history ?F = fl_history F" "fl_answers ?F = fl_answers F"
    by (simp_all add: left_by_def)
  have grows: "grows I F ?F" by (rule grows_same_db) (simp_all only: now same order_refl)
  note up = dated_grows [OF grows]
  have "cache_dated I D (read_since I ?F) (view (fl_server ?F) (policy_cache_key (i_settings I)))"
    using step up(1) [of D "view (fl_server ?F) (policy_cache_key (i_settings I))"] by (simp add: step_dated_def left_by_def)
  moreover have "snapshot_dated I origin D (read_since I ?F) j (w_snapshot (fl_private ?F j))" for j
    using step inv up(2) [of origin D j "w_snapshot (fl_private ?F j)"] by (auto simp: step_dated_def left_by_def fleet_inv_def)
  moreover have "s \<le> fl_now I F \<and> task_dated I D (read_since I ?F) s p" if "fl_tasks ?F t = Some (j, s, p)" for t j s p
  proof -
    have "T t = Some (j, s, p)" using that by simp
    from tasks [OF this] inv have "s \<le> fl_now I F \<and> task_dated I D (read_since I F) s p"
      unfolding fleet_inv_def by blast
    with up(3) [of D s p] show ?thesis by blast
  qed
  moreover note inv_answers [OF inv grows, unfolded now]
  ultimately show ?thesis
    using inv unfolding fleet_inv_def now same by auto
qed

section \<open>Lemmas: the commands of a step\<close>

text \<open>What the fleet relies on: the server, the codec of the cached list, sensible settings.\<close>

locale policy_fleet = redis_cache_server "i_redis I" view "i_cache I" + policy_codec "i_dump I" "i_load I"
  for I :: "('d, 'k) inst" and view +
  fixes origin :: "nat \<Rightarrow> rat" and D :: int
  assumes ttl_positive: "0 < set_policy_cache_ttl_seconds (i_settings I)" "0 < set_local_policy_cache_ttl_seconds (i_settings I)"
    and ttl_bound: "set_local_policy_cache_ttl_seconds (i_settings I) < 2 ^ 40"
    and deadline_nonneg: "0 \<le> D"
begin

lemma get_step:
  assumes "at_time origin i now e" "redis_get (I\<lparr>i_env := e\<rparr>) key w = (r, w1)"
  shows "w_redis w1 = w_redis w" "w_snapshot w1 = w_snapshot w" "w_db w1 = w_db w"
    "r = Inr v \<Longrightarrow> view_get key (view (w_redis w)) = Some v"
  using assms
  by (auto simp: redis_get_def redis_call_def at_time_def get_law Let_def split: fault.splits option.splits)

lemma setex_step:
  assumes "at_time origin i now e" "redis_setex (I\<lparr>i_env := e\<rparr>) key ttl s w = (r, w1)" "0 < ttl"
  shows "w_snapshot w1 = w_snapshot w" "w_db w1 = w_db w"
    "w_redis w1 = w_redis w \<or>
       view (w_redis w1) = (view (w_redis w))(key \<mapsto> (RStr s, Some (server_now_ms (i_redis I) (w_redis w) + ttl * 1000))) \<and>
       cmd_time (i_redis I) (w_redis w1) = cmd_time (i_redis I) (w_redis w)"
proof -
  obtain k where "cc_setex (i_cache I) key ttl s (w_redis w) = Some k"
    "view k = (view (w_redis w))(key \<mapsto> (RStr s, Some (server_now_ms (i_redis I) (w_redis w) + ttl * 1000)))"
    "cmd_time (i_redis I) k = cmd_time (i_redis I) (w_redis w)"
    using setex_cases(1) [OF assms(3)] by blast
  with assms(1,2) show "w_snapshot w1 = w_snapshot w" "w_db w1 = w_db w"
    "w_redis w1 = w_redis w \<or>
       view (w_redis w1) = (view (w_redis w))(key \<mapsto> (RStr s, Some (server_now_ms (i_redis I) (w_redis w) + ttl * 1000))) \<and>
       cmd_time (i_redis I) (w_redis w1) = cmd_time (i_redis I) (w_redis w)"
    by (auto simp: redis_setex_def redis_call_def at_time_def Let_def split: fault.splits)
qed

lemma invalidate_step:
  assumes "at_time origin i now e"
  shows "w_snapshot (invalidate_policy_cache (I\<lparr>i_env := e\<rparr>) reason pid w) = None"
    "cmd_time (i_redis I) (w_redis (invalidate_policy_cache (I\<lparr>i_env := e\<rparr>) reason pid w)) = cmd_time (i_redis I) (w_redis w)"
    "view (w_redis (invalidate_policy_cache (I\<lparr>i_env := e\<rparr>) reason pid w)) (policy_cache_key (i_settings I)) \<in>
       {view (w_redis w) (policy_cache_key (i_settings I)), None}"
  using assms
  by (auto simp: invalidate_policy_cache_def redis_delete_def redis_publish_def redis_call_def invalidate_failed_def
      at_time_def Let_def del_law split: fault.split)

lemma snapshot_set_step:
  assumes "at_time origin i now e"
  shows "\<exists>x. w_snapshot (snapshot_set (I\<lparr>i_env := e\<rparr>) ps w) = Some \<lparr>sn_policies = ps, sn_loaded_at_monotonic = x\<rparr> \<and>
    x < origin i + of_int (now + 1) / 1000"
  using assms by (simp add: snapshot_set_def read_monotonic_def at_time_def)

text \<open>A snapshot that passes for fresh is no older than its time to live and a millisecond.\<close>

lemma fresh_snapshot:
  assumes "at_time origin i now e" "sn_loaded_at_monotonic sn < origin i + of_int (loaded + 1) / 1000"
    and "get_fresh (I\<lparr>i_env := e\<rparr>) ttl w = (Some ps, w1)" "w_snapshot w = Some sn" "0 < ttl" "ttl < 2 ^ 40"
  shows "ps = sn_policies sn" "now \<le> loaded + 1000 * ttl + 1"
proof -
  let ?x = "env_monotonic e (w_tick w)"
  have x: "origin i + of_int now / 1000 \<le> ?x" "fl (?x - sn_loaded_at_monotonic sn) \<le> of_int ttl" "ps = sn_policies sn"
    using assms(1,3,4) by (auto simp: get_fresh_def read_monotonic_def at_time_def Let_def split: if_splits)
  show "ps = sn_policies sn" by (rule x(3))
  show "now \<le> loaded + 1000 * ttl + 1"
  proof (rule ccontr)
    assume "\<not> now \<le> loaded + 1000 * ttl + 1"
    then have "1000 * ttl + 1 \<le> now - (loaded + 1)" by simp
    then have "(of_int (1000 * ttl + 1) :: rat) \<le> of_int (now - (loaded + 1))" by (simp only: of_int_le_iff)
    then have "of_int ttl + 1 / 1000 \<le> (of_int (now - (loaded + 1)) :: rat) / 1000" by simp
    also have "\<dots> \<le> ?x - sn_loaded_at_monotonic sn" using x(1) assms(2) by (simp add: diff_divide_distrib add_divide_distrib)
    finally have above: "of_int ttl + 1 / 1000 \<le> ?x - sn_loaded_at_monotonic sn" .
    have pw: "(2 :: rat) powi (- 10) = 1 / 1024" by (simp add: power_int_minus)
    have eq: "of_int (ttl * 1024 + 1) * (2 :: rat) powi (- 10) = of_int ttl + 1 / 1024" unfolding pw by (simp add: add_divide_distrib)
    have "fl (of_int (ttl * 1024 + 1) * 2 powi (- 10)) = of_int (ttl * 1024 + 1) * 2 powi (- 10)"
      by (rule fl_exact) (use assms(5,6) in simp)
    then have "of_int ttl + 1 / 1024 = fl (of_int ttl + 1 / 1024)" unfolding eq by simp
    also have "\<dots> \<le> fl (?x - sn_loaded_at_monotonic sn)" by (rule fl_mono) (use above in linarith)
    finally show False using x(2) by simp
  qed
qed

lemma list_policies_valid: "list_policies I True d = Inr ps \<Longrightarrow> \<forall>p\<in>set ps. policy_ok p"
  by (auto simp: list_policies_def split: sum.splits dest!: read_policies_Inr)

lemma read_since_valid: "read_since I F lo ps \<Longrightarrow> \<forall>p\<in>set ps. policy_ok p"
  unfolding read_since_def was_current_def using list_policies_valid by blast

lemma seen_by_simps [simp]:
  "w_db (seen_by i F) = fl_db F" "w_redis (seen_by i F) = fl_server F" "w_snapshot (seen_by i F) = w_snapshot (fl_private F i)"
  by (simp_all add: seen_by_def)

lemma inv_parts:
  assumes "fleet_inv I view origin D F"
  shows "fl_since F \<le> fl_now I F"
    "cache_dated I D (read_since I F) (view (fl_server F) (policy_cache_key (i_settings I)))"
    "snapshot_dated I origin D (read_since I F) i (w_snapshot (fl_private F i))"
    "fl_tasks F t = Some (i, s, p) \<Longrightarrow> s \<le> fl_now I F \<and> task_dated I D (read_since I F) s p"
  using assms unfolding fleet_inv_def by blast+

text \<open>What the cache holds was the list at most its time to live and one lookup ago.\<close>

lemma cached_list:
  assumes "fleet_inv I view origin D F" "view_get (policy_cache_key (i_settings I)) (view (fl_server F)) = Some (Some x)"
  shows "\<exists>ps. x = i_dump I ps \<and> i_load I x = Inr ps \<and>
    read_since I F (fl_now I F - D - 1000 * set_policy_cache_ttl_seconds (i_settings I)) ps"
proof -
  let ?key = "policy_cache_key (i_settings I)"
  obtain d where d: "view (fl_server F) ?key = Some (RStr x, d)"
    using assms(2) by (auto simp: view_get_def split: option.splits redis_value.splits)
  with inv_parts(2) [OF assms(1)] obtain ps dl where ps: "x = i_dump I ps" "d = Some dl"
    "read_since I F (dl - D - 1000 * set_policy_cache_ttl_seconds (i_settings I)) ps"
    by (auto simp: cache_dated_def)
  have "live_at (fl_now I F) (view (fl_server F)) ?key = view (fl_server F) ?key" by (simp add: fl_now_def live)
  with d ps(2) have "fl_now I F \<le> dl" by (auto simp: live_at_def split: if_splits)
  then have "read_since I F (fl_now I F - D - 1000 * set_policy_cache_ttl_seconds (i_settings I)) ps"
    by (intro read_since_mono [OF ps(3)]) simp
  with ps(1) load_dump [OF read_since_valid [OF ps(3)]] show ?thesis by blast
qed

lemma step_dated_frame:
  assumes "fleet_inv I view origin D F" "w_redis w = fl_server F" "w_snapshot w = w_snapshot (fl_private F i)"
  shows "step_dated I view origin D F i w"
  using assms(2,3) inv_parts(2,3) [OF assms(1)] by (simp add: step_dated_def)

lemma advance_get:
  assumes "fleet_inv I view origin D F" "at_time origin i (fl_now I F) e" "s \<le> fl_now I F"
    and "lookup_step (I\<lparr>i_env := e\<rparr>) GetCache (seen_by i F) = (r, w)"
  shows "step_dated I view origin D F i w \<and> (\<forall>p'. r = Inr p' \<longrightarrow> task_dated I D (read_since I F) s p')"
proof -
  let ?key = "policy_cache_key (i_settings I)"
  obtain q w1 where get: "redis_get (I\<lparr>i_env := e\<rparr>) ?key (seen_by i F) = (q, w1)" by (rule prod.exhaust)
  note frame = get_step(1,2) [OF assms(2) get]
  have "w_redis w = w_redis w1 \<and> w_snapshot w = w_snapshot w1"
    using assms(4) get by (auto split: sum.splits option.splits list.splits)
  with frame have "step_dated I view origin D F i w" by (intro step_dated_frame [OF assms(1)]) simp_all
  moreover have "task_dated I D (read_since I F) s p'" if "r = Inr p'" for p'
  proof (cases "\<exists>c cs. q = Inr (Some (c # cs))")
    case True
    then obtain c cs where q: "q = Inr (Some (c # cs))" by blast
    have "view_get ?key (view (fl_server F)) = Some (Some (c # cs))" using get_step(4) [OF assms(2) get q] by simp
    from cached_list [OF assms(1) this] obtain ps where ps: "i_load I (c # cs) = Inr ps"
      "read_since I F (fl_now I F - D - 1000 * set_policy_cache_ttl_seconds (i_settings I)) ps" by blast
    from ps(2) have "read_since I F (s - D - 1000 * set_policy_cache_ttl_seconds (i_settings I)) ps"
      by (rule read_since_mono) (use assms(3) in simp)
    with assms(4) that get q ps(1) show ?thesis by (auto simp: task_dated_def)
  next
    case False
    then have "p' = AskSnapshot \<or> p' = QueryAfterMiss"
      using assms(4) that get by (auto split: sum.splits option.splits list.splits)
    then show ?thesis by (auto simp: task_dated_def)
  qed
  ultimately show ?thesis by blast
qed

lemma advance_ask:
  assumes "fleet_inv I view origin D F" "at_time origin i (fl_now I F) e" "s \<le> fl_now I F"
    and "lookup_step (I\<lparr>i_env := e\<rparr>) AskSnapshot (seen_by i F) = (r, w)"
  shows "step_dated I view origin D F i w \<and> (\<forall>p'. r = Inr p' \<longrightarrow> task_dated I D (read_since I F) s p')"
proof -
  let ?ttl = "set_local_policy_cache_ttl_seconds (i_settings I)"
  obtain q w1 where get: "get_fresh (I\<lparr>i_env := e\<rparr>) ?ttl (seen_by i F) = (q, w1)" by (rule prod.exhaust)
  have w: "w = w1" "r = Inr (case q of None \<Rightarrow> QueryAfterError | Some ps \<Rightarrow> Answered ps)"
    using assms(4) get by (auto split: option.splits)
  have "w_redis w1 = fl_server F" "w_snapshot w1 = w_snapshot (fl_private F i)"
    using get_fresh_frame(2,5) [of "I\<lparr>i_env := e\<rparr>" ?ttl "seen_by i F"] by (simp_all add: get)
  with w(1) have "step_dated I view origin D F i w" by (intro step_dated_frame [OF assms(1)]) simp_all
  moreover have "task_dated I D (read_since I F) s p'" if "r = Inr p'" for p'
  proof (cases q)
    case (Some ps)
    with get get_fresh_Some [of "I\<lparr>i_env := e\<rparr>" ?ttl "seen_by i F" ps] obtain sn
      where sn: "w_snapshot (seen_by i F) = Some sn" by auto
    with inv_parts(3) [OF assms(1), of i] obtain loaded where loaded:
      "sn_loaded_at_monotonic sn < origin i + of_int (loaded + 1) / 1000"
      "read_since I F (loaded - 2 * D - 1000 * set_policy_cache_ttl_seconds (i_settings I)) (sn_policies sn)"
      by (auto simp: snapshot_dated_def)
    note fresh = fresh_snapshot [OF assms(2) loaded(1) get [unfolded Some] sn ttl_positive(2) ttl_bound]
    from loaded(2) have "read_since I F (s + D - max_staleness (i_settings I) D) ps"
      unfolding fresh(1) by (rule read_since_mono) (use fresh(2) assms(3) in \<open>simp add: max_staleness_def\<close>)
    with w(2) Some that show ?thesis by (auto simp: task_dated_def)
  qed (use w(2) that in \<open>auto simp: task_dated_def\<close>)
  ultimately show ?thesis by blast
qed

lemma advance_store:
  assumes "fleet_inv I view origin D F" "at_time origin i (fl_now I F) e" "fl_now I F \<le> s + D"
    and "read_since I F s ps" "lookup_step (I\<lparr>i_env := e\<rparr>) (StoreCache ps) (seen_by i F) = (r, w)"
  shows "step_dated I view origin D F i w \<and> (\<forall>p'. r = Inr p' \<longrightarrow> task_dated I D (read_since I F) s p')"
proof -
  let ?S = "i_settings I"
  obtain q w1 where set: "redis_setex (I\<lparr>i_env := e\<rparr>) (policy_cache_key ?S) (set_policy_cache_ttl_seconds ?S) (i_dump I ps) (seen_by i F) = (q, w1)"
    by (rule prod.exhaust)
  note step = setex_step [OF assms(2) set ttl_positive(1)]
  have r: "r = Inr (KeepSnapshot True ps)" and w: "w_redis w = w_redis w1" "w_snapshot w = w_snapshot w1"
    using assms(5) set by (auto simp: Let_def split: sum.splits)
  from step(3) have "step_dated I view origin D F i w"
  proof
    assume "w_redis w1 = w_redis (seen_by i F)"
    with w step(1) show ?thesis by (intro step_dated_frame [OF assms(1)]) simp_all
  next
    assume new: "view (w_redis w1) = (view (w_redis (seen_by i F)))(policy_cache_key ?S \<mapsto>
        (RStr (i_dump I ps), Some (server_now_ms (i_redis I) (w_redis (seen_by i F)) + set_policy_cache_ttl_seconds ?S * 1000))) \<and>
      cmd_time (i_redis I) (w_redis w1) = cmd_time (i_redis I) (w_redis (seen_by i F))"
    have "read_since I F (fl_now I F + set_policy_cache_ttl_seconds ?S * 1000 - D - 1000 * set_policy_cache_ttl_seconds ?S) ps"
      using assms(4) by (rule read_since_mono) (use assms(3) in simp)
    with new w step(1) inv_parts(3) [OF assms(1), of i] show ?thesis
      by (auto simp: step_dated_def cache_dated_def fl_now_def)
  qed
  moreover have "read_since I F (s - D - 1000 * set_policy_cache_ttl_seconds ?S) ps"
    using assms(4) by (rule read_since_mono) (use ttl_positive(1) deadline_nonneg in simp)
  ultimately show ?thesis by (simp add: r task_dated_def)
qed

lemma advance_keep:
  assumes "fleet_inv I view origin D F" "at_time origin i (fl_now I F) e" "fl_now I F \<le> s + D"
    and "read_since I F (s - D - 1000 * set_policy_cache_ttl_seconds (i_settings I)) ps"
    and "lookup_step (I\<lparr>i_env := e\<rparr>) (KeepSnapshot logged ps) (seen_by i F) = (r, w)"
  shows "step_dated I view origin D F i w \<and> (\<forall>p'. r = Inr p' \<longrightarrow> task_dated I D (read_since I F) s p')"
proof -
  let ?S = "i_settings I" and ?w = "snapshot_set (I\<lparr>i_env := e\<rparr>) ps (seen_by i F)"
  have r: "r = Inr (Answered ps)" and w: "w_redis w = fl_server F" "w_snapshot w = w_snapshot ?w"
    using assms(5) by auto
  obtain x where x: "w_snapshot ?w = Some \<lparr>sn_policies = ps, sn_loaded_at_monotonic = x\<rparr>" "x < origin i + of_int (fl_now I F + 1) / 1000"
    using snapshot_set_step [OF assms(2)] by blast
  have "read_since I F (fl_now I F - 2 * D - 1000 * set_policy_cache_ttl_seconds ?S) ps"
    using assms(4) by (rule read_since_mono) (use assms(3) in simp)
  with x w inv_parts(2) [OF assms(1)] have "step_dated I view origin D F i w"
    by (auto simp: step_dated_def snapshot_dated_def)
  moreover have "read_since I F (s + D - max_staleness ?S D) ps"
    using assms(4) by (rule read_since_mono) (use ttl_positive(2) deadline_nonneg in \<open>simp add: max_staleness_def\<close>)
  ultimately show ?thesis by (simp add: r task_dated_def)
qed

lemma advance_dated:
  assumes inv: "fleet_inv I view origin D F" and task: "fl_tasks F t = Some (i, s, p)" and "fl_now I F \<le> s + D"
    and "at_time origin i (fl_now I F) e" "lookup_step (I\<lparr>i_env := e\<rparr>) p (seen_by i F) = (r, w)"
  shows "step_dated I view origin D F i w \<and> (\<forall>p'. r = Inr p' \<longrightarrow> task_dated I D (read_since I F) s p')"
proof -
  note dated = inv_parts(4) [OF inv task]
  have query: "step_dated I view origin D F i w \<and> (\<forall>p'. r = Inr p' \<longrightarrow> task_dated I D (read_since I F) s p')"
    if "r = map_sum id f (list_policies I True (fl_db F))" "w = seen_by i F"
      "\<And>ps. read_since I F s ps \<Longrightarrow> task_dated I D (read_since I F) s (f ps)" for f
  proof -
    have "task_dated I D (read_since I F) s p'" if r: "r = Inr p'" for p'
    proof -
      obtain ps where "list_policies I True (fl_db F) = Inr ps" "p' = f ps"
        using r \<open>r = map_sum id f _\<close> by (cases "list_policies I True (fl_db F)") auto
      with current_read [OF inv_parts(1) [OF inv]] dated \<open>\<And>ps. read_since I F s ps \<Longrightarrow> _ ps\<close> show ?thesis by blast
    qed
    with that(2) show ?thesis by (simp add: step_dated_frame [OF inv])
  qed
  show ?thesis
  proof (cases p)
    case GetCache
    with advance_get [OF inv assms(4) _ assms(5) [unfolded GetCache]] dated show ?thesis by blast
  next
    case AskSnapshot
    with advance_ask [OF inv assms(4) _ assms(5) [unfolded AskSnapshot]] dated show ?thesis by blast
  next
    case QueryAfterError
    have "task_dated I D (read_since I F) s (KeepSnapshot False ps)" if "read_since I F s ps" for ps
      using that ttl_positive(1) deadline_nonneg by (auto simp: task_dated_def elim: read_since_mono)
    with QueryAfterError assms(5) show ?thesis by (intro query [of "KeepSnapshot False"]) auto
  next
    case QueryAfterMiss
    with assms(5) show ?thesis by (intro query [of StoreCache]) (auto simp: task_dated_def)
  next
    case (StoreCache ps)
    with dated advance_store [OF inv assms(4,3) _ assms(5) [unfolded StoreCache]] show ?thesis by (simp add: task_dated_def)
  next
    case (KeepSnapshot logged ps)
    with dated advance_keep [OF inv assms(4,3) _ assms(5) [unfolded KeepSnapshot]] show ?thesis by (simp add: task_dated_def)
  next
    case (Answered ps)
    with dated assms(5) step_dated_frame [OF inv, of "seen_by i F" i] show ?thesis by auto
  qed
qed

text \<open>Steps that leave the server of the fleet, or change it without the instances.\<close>

lemma inv_moved:
  assumes inv: "fleet_inv I view origin D F" and grows: "grows I F F'"
    and "fl_since F' \<le> fl_now I F'" "\<forall>x\<in>set (fl_history F'). fst (snd x) \<le> fl_since F'"
    and cache: "view (fl_server F') (policy_cache_key (i_settings I)) \<in> {view (fl_server F) (policy_cache_key (i_settings I)), None}"
    and snap: "\<And>i. w_snapshot (fl_private F' i) \<in> {w_snapshot (fl_private F i), None}"
    and tasks: "\<And>t x. fl_tasks F' t = Some x \<Longrightarrow> fl_tasks F t = Some x \<or> x = (fst x, fl_now I F, GetCache)"
    and ans: "\<And>t ps. (t, ps) \<in> set (fl_answers F') \<Longrightarrow> (t, ps) \<in> set (fl_answers F) \<or>
      t = fl_now I F \<and> read_since I F (t - max_staleness (i_settings I) D) ps"
  shows "fleet_inv I view origin D F'"
proof -
  note up = dated_grows [OF grows]
  have now: "fl_now I F \<le> fl_now I F'" using grows by (simp add: grows_def)
  have "cache_dated I D (read_since I F') (view (fl_server F') (policy_cache_key (i_settings I)))"
    using cache up(1) [OF inv_parts(2) [OF inv]] by (auto simp: cache_dated_def)
  moreover have "snapshot_dated I origin D (read_since I F') i (w_snapshot (fl_private F' i))" for i
    using snap [of i] up(2) [OF inv_parts(3) [OF inv, of i]] by (auto simp: snapshot_dated_def)
  moreover have "s \<le> fl_now I F' \<and> task_dated I D (read_since I F') s p" if "fl_tasks F' t = Some (i, s, p)" for t i s p
    using tasks [OF that] inv_parts(4) [OF inv, of t i s p] now up(3) [of D s p] by (auto simp: task_dated_def)
  moreover have "\<exists>r. t - max_staleness (i_settings I) D \<le> r \<and> r \<le> t \<and> t \<le> fl_now I F' \<and> was_current I F' r ps"
    if "(t, ps) \<in> set (fl_answers F')" for t ps
    using ans [OF that]
  proof
    assume "t = fl_now I F \<and> read_since I F (t - max_staleness (i_settings I) D) ps"
    with now grows show ?thesis unfolding read_since_def grows_def by blast
  qed (use inv_answers [OF inv grows] in blast)
  ultimately show ?thesis using assms(3,4) unfolding fleet_inv_def by blast
qed

lemma grows_clock:
  "fl_db F' = fl_db F \<Longrightarrow> fl_since F' = fl_since F \<Longrightarrow> fl_history F' = fl_history F \<Longrightarrow>
   cmd_time (i_redis I) (fl_server F') = cmd_time (i_redis I) (fl_server F) \<Longrightarrow> grows I F F'"
  by (rule grows_same_db) (simp_all add: fl_now_def server_now_ms_def)

lemma fleet_inv_step:
  assumes inv: "fleet_inv I view origin D F" and step: "fleet_step I view origin D F F'"
  shows "fleet_inv I view origin D F'"
proof -
  have parts: "fl_since F \<le> fl_now I F" "\<forall>x\<in>set (fl_history F). fst (snd x) \<le> fl_since F"
    using inv by (simp_all add: fleet_inv_def)
  note moved = inv_moved [OF inv]
  from step show ?thesis
  proof cases
    case (begin_lookup t i)
    show ?thesis unfolding begin_lookup(1)
      by (rule moved) (use parts in \<open>auto simp: fl_now_def intro: grows_clock split: if_splits\<close>)
  next
    case (advance t i s p e r w)
    note dated = advance_dated [OF inv advance(2-5)]
    note le = inv_parts(4) [OF inv advance(2)]
    show ?thesis unfolding advance(1)
      by (rule inv_left_by [OF inv conjunct1 [OF dated]]) (use dated le in \<open>auto split: if_splits sum.splits\<close>)
  next
    case (answer t i s ps)
    have "read_since I F (s + D - max_staleness (i_settings I) D) ps"
      using inv_parts(4) [OF inv answer(2)] by (simp add: task_dated_def)
    then have "read_since I F (fl_now I F - max_staleness (i_settings I) D) ps"
      by (rule read_since_mono) (use answer(3) in simp)
    then show ?thesis unfolding answer(1)
      by (intro moved) (use parts in \<open>auto simp: fl_now_def intro: grows_clock split: if_splits\<close>)
  next
    case (write_db d)
    show ?thesis unfolding write_db
      by (rule moved [OF grows_write]) (use parts in \<open>auto simp: fl_now_def\<close>)
  next
    case (invalidate i e reason pid)
    note w = invalidate_step [OF invalidate(2), where reason = reason and pid = pid and w = "seen_by i F"]
    have "cmd_time (i_redis I) (fl_server F') = cmd_time (i_redis I) (fl_server F)"
      using w(2) by (simp add: invalidate(1) left_by_def)
    then have "grows I F F'" "fl_now I F' = fl_now I F"
      by (auto simp: invalidate(1) left_by_def fl_now_def server_now_ms_def intro!: grows_clock)
    then show ?thesis
      by (rule_tac moved) (use parts w in \<open>auto simp: invalidate(1) left_by_def\<close>)
  next
    case (refresh i b)
    show ?thesis unfolding refresh
      by (rule moved) (use parts in \<open>auto simp: left_by_def on_refresh_message_def fl_now_def intro: grows_clock\<close>)
  next
    case (restart w i)
    show ?thesis unfolding restart(1)
      by (rule moved) (use parts restart(2) in \<open>auto simp: fl_now_def intro: grows_clock split: option.splits if_splits\<close>)
  next
    case (elapse k)
    have "fl_now I F \<le> fl_now I F'" using elapse(2) by (simp add: elapse(1) fl_now_def)
    moreover have "view k key \<in> {view (fl_server F) key, None}" for key
      unfolding elapse(3) by (auto simp: live_at_def split: option.split)
    ultimately show ?thesis
      by (intro moved) (use parts in \<open>auto simp: elapse(1) intro: grows_same_db\<close>)
  next
    case (other_traffic k)
    have now: "fl_now I F' = fl_now I F" using other_traffic(2) by (simp add: other_traffic(1) fl_now_def server_now_ms_def)
    show ?thesis
      by (rule moved) (use parts now other_traffic(2,3) in \<open>auto simp: other_traffic(1) intro: grows_clock\<close>)
  qed
qed

lemma fleet_inv_start: "fleet_start I view F \<Longrightarrow> fleet_inv I view origin D F"
  by (simp add: fleet_start_def fleet_inv_def cache_dated_def snapshot_dated_def)

lemma fleet_inv_reachable:
  "fleet_start I view F \<Longrightarrow> (fleet_step I view origin D)\<^sup>*\<^sup>* F F' \<Longrightarrow> fleet_inv I view origin D F'"
  by (rotate_tac, induction rule: rtranclp_induct) (auto intro: fleet_inv_start fleet_inv_step)

text \<open>A list that is read after the last change is that of the database.\<close>

lemma read_after_change:
  assumes "fleet_inv I view origin D F" "was_current I F r ps" "fl_since F < r"
  shows "list_policies I True (fl_db F) = Inr ps"
  using assms unfolding fleet_inv_def was_current_def by fastforce

end

section \<open>A fleet that can be run\<close>

text \<open>
  Steps of a fleet over the in-memory database and keyspace, chosen one by one, with a network
  that delivers and clocks that agree.
\<close>

datatype fleet_action =
    Begin nat nat
  | Advance nat
  | GiveAnswer nat
  | Write memory_db
  | Invalidate nat
  | Elapse int

definition clock_env :: "millis \<Rightarrow> keyspace environment" where
  "clock_env now = demo_env\<lparr>env_monotonic := \<lambda>_. of_int now / 1000\<rparr>"

fun act ::
  "(memory_db, keyspace) inst \<Rightarrow> int \<Rightarrow> (memory_db, keyspace) fleet \<Rightarrow> fleet_action \<Rightarrow> (memory_db, keyspace) fleet option" where
  "act I D F (Begin t i) =
     (if fl_tasks F t = None then Some (F\<lparr>fl_tasks := (fl_tasks F)(t \<mapsto> (i, fl_now I F, GetCache))\<rparr>) else None)"
| "act I D F (Advance t) =
     (case fl_tasks F t of
        None \<Rightarrow> None
      | Some (i, s, p) \<Rightarrow>
          if fl_now I F \<le> s + D then
            (case lookup_step (I\<lparr>i_env := clock_env (fl_now I F)\<rparr>) p (seen_by i F) of
               (r, w) \<Rightarrow>
                 Some ((left_by i w F)\<lparr>fl_tasks := (fl_tasks F)(t := (case r of Inl _ \<Rightarrow> None | Inr p' \<Rightarrow> Some (i, s, p')))\<rparr>))
          else None)"
| "act I D F (GiveAnswer t) =
     (case fl_tasks F t of
        Some (i, s, Answered ps) \<Rightarrow>
          if fl_now I F \<le> s + D then
            Some (F\<lparr>fl_tasks := (fl_tasks F)(t := None), fl_answers := (fl_now I F, ps) # fl_answers F\<rparr>)
          else None
      | _ \<Rightarrow> None)"
| "act I D F (Write d) =
     Some (F\<lparr>fl_db := d, fl_since := fl_now I F, fl_history := (fl_since F, fl_now I F, fl_db F) # fl_history F\<rparr>)"
| "act I D F (Invalidate i) =
     Some (left_by i (invalidate_policy_cache (I\<lparr>i_env := clock_env (fl_now I F)\<rparr>) ''delete'' [] (seen_by i F)) F)"
| "act I D F (Elapse seconds) =
     (if 0 \<le> seconds
      then Some (F\<lparr>fl_server := (fl_server F)\<lparr>ks_time := (fst (ks_time (fl_server F)) + seconds, snd (ks_time (fl_server F)))\<rparr>\<rparr>)
      else None)"

fun acts ::
  "(memory_db, keyspace) inst \<Rightarrow> int \<Rightarrow> fleet_action list \<Rightarrow> (memory_db, keyspace) fleet \<Rightarrow> (memory_db, keyspace) fleet option" where
  "acts I D [] F = Some F"
| "acts I D (a # as) F = (case act I D F a of None \<Rightarrow> None | Some F' \<Rightarrow> acts I D as F')"

lemma clock_env_at_time: "at_time (\<lambda>_. 0) i now (clock_env now)"
proof -
  have "(of_int now / 1000 :: rat) < of_int (now + 1) / 1000" by (rule divide_strict_right_mono) simp_all
  then show ?thesis by (simp add: at_time_def clock_env_def demo_env_def)
qed

lemma ks_view_later:
  assumes "ks_now k \<le> ks_now (k\<lparr>ks_time := t\<rparr>)"
  shows "ks_view (k\<lparr>ks_time := t\<rparr>) = live_at (ks_now (k\<lparr>ks_time := t\<rparr>)) (ks_view k)"
  using assms by (intro ext) (auto simp: ks_view_def live_at_def split: option.split)

lemma act_step:
  assumes "i_redis I = ks_commands" "act I D F a = Some F'"
  shows "fleet_step I ks_view (\<lambda>_. 0) D F F'"
  using assms(2)
proof (cases a)
  case (Begin t i)
  with assms(2) show ?thesis by (auto split: if_splits intro: begin_lookup)
next
  case (Advance t)
  with assms(2) show ?thesis
    by (auto split: option.splits prod.splits if_splits intro: advance clock_env_at_time simp del: lookup_step.simps)
next
  case (GiveAnswer t)
  with assms(2) show ?thesis by (auto split: option.splits prod.splits if_splits lookup_phase.splits intro: answer)
next
  case (Write d)
  with assms(2) show ?thesis by (auto intro: write_db)
next
  case (Invalidate i)
  with assms(2) show ?thesis by (auto intro: invalidate clock_env_at_time)
next
  case (Elapse s)
  let ?k = "(fl_server F)\<lparr>ks_time := (fst (ks_time (fl_server F)) + s, snd (ks_time (fl_server F)))\<rparr>"
  have F': "F' = F\<lparr>fl_server := ?k\<rparr>" and s: "0 \<le> s" using Elapse assms(2) by (auto split: if_splits)
  have now: "ks_now (fl_server F) \<le> ks_now ?k" using s by (simp add: ks_now_def case_prod_beta)
  show ?thesis unfolding F'
    by (rule elapse) (use now ks_view_later [OF now] in \<open>simp_all add: assms(1)\<close>)
qed

lemma acts_reach:
  assumes "i_redis I = ks_commands"
  shows "acts I D as F = Some F' \<Longrightarrow> (fleet_step I ks_view (\<lambda>_. 0) D)\<^sup>*\<^sup>* F F'"
proof (induction as arbitrary: F)
  case (Cons a as)
  then obtain G where "act I D F a = Some G" "acts I D as G = Some F'" by (auto split: option.splits)
  with act_step [OF assms] Cons.IH show ?case by (metis converse_rtranclp_into_rtranclp)
qed simp

definition codec_inst :: "(memory_db, keyspace) inst" where
  "codec_inst = demo_inst\<lparr>i_dump := dump_policies, i_load := load_policies\<rparr>"

definition new_fleet :: "(memory_db, keyspace) fleet" where
  "new_fleet =
     \<lparr>fl_db = \<lparr>md_rows = [example_policy], md_ids = [2], md_now = 0\<rparr>, fl_server = \<lparr>ks_time = (100, 0), ks_entries = Map.empty\<rparr>,
      fl_private = (\<lambda>_. demo_world), fl_tasks = (\<lambda>_. None), fl_since = 100000, fl_history = [], fl_answers = []\<rparr>"

interpretation demo_fleet: policy_fleet codec_inst ks_view "\<lambda>_. 0" 1000
proof -
  have "redis_cache_server (i_redis codec_inst) ks_view (i_cache codec_inst)"
    using ks_cache.redis_cache_server_axioms by (simp add: codec_inst_def)
  moreover have "policy_codec (i_dump codec_inst) (i_load codec_inst)"
    using json_codec.policy_codec_axioms by (simp add: codec_inst_def)
  ultimately show "policy_fleet codec_inst ks_view 1000"
    by (intro policy_fleet.intro policy_fleet_axioms.intro) (simp_all add: codec_inst_def default_settings_def)
qed

lemma new_fleet_start: "fleet_start codec_inst ks_view new_fleet"
  by (simp add: fleet_start_def new_fleet_def fl_now_def codec_inst_def demo_world_def ks_view_def live_at_def ks_now_def)

text \<open>
  Instance 0 misses and reads the table; the policy is deleted and the cache invalidated by
  instance 1; instance 0 writes the old list to the cache; instance 1 answers with it. Two
  minutes later it answers with the new table.
\<close>

definition lost_invalidation :: "fleet_action list" where
  "lost_invalidation =
     [Begin 0 0, Advance 0, Advance 0, Write \<lparr>md_rows = [], md_ids = [], md_now = 0\<rparr>, Invalidate 1, Advance 0,
      Elapse 10, Begin 1 1, Advance 1, Advance 1, GiveAnswer 1]"

definition later_lookup :: "fleet_action list" where
  "later_lookup = [Elapse 120, Begin 2 1, Advance 2, Advance 2, Advance 2, Advance 2, GiveAnswer 2]"

lemma codec_simps [simp]:
  "i_settings codec_inst = default_settings" "i_redis codec_inst = ks_commands" "i_cache codec_inst = ks_cache"
  "i_db codec_inst = memory_database" "i_dump codec_inst = dump_policies" "i_load codec_inst = load_policies"
  by (simp_all add: codec_inst_def)

lemma list_example:
  assumes "i_db I = memory_database"
  shows "list_policies I True \<lparr>md_rows = [example_policy], md_ids = is, md_now = n\<rparr> = Inr [example_policy]"
    "list_policies I True \<lparr>md_rows = [], md_ids = is, md_now = n\<rparr> = Inr []"
proof -
  have "pol_active example_policy" by (simp add: example_policy_def)
  moreover have "read_policies [example_policy] = Inr [example_policy]" by (rule read_policies_ok) (use example_policy_ok in simp)
  moreover have "db_select memory_database \<lparr>md_rows = r, md_ids = is, md_now = n\<rparr> = Inr r" for r by (simp add: memory_database_def)
  ultimately show "list_policies I True \<lparr>md_rows = [example_policy], md_ids = is, md_now = n\<rparr> = Inr [example_policy]"
    "list_policies I True \<lparr>md_rows = [], md_ids = is, md_now = n\<rparr> = Inr []"
    using assms by (simp_all add: list_policies_def sort_key_def)
qed

lemmas fleet_eval =
  new_fleet_def lost_invalidation_def later_lookup_def fl_now_def seen_by_def left_by_def demo_world_def clock_env_def
  demo_env_def redis_get_def redis_call_def get_fresh_def snapshot_set_def emit_def redis_setex_def list_example
  default_settings_def Let_def ks_cache_def ks_view_def ks_store_def view_get_def view_setex_def live_at_def ks_now_def
  invalidate_policy_cache_def redis_delete_def redis_publish_def read_monotonic_def

lemma lost_invalidation_run:
  "map_option (\<lambda>F. (fl_answers F, fl_db F, fl_since F)) (acts codec_inst 1000 lost_invalidation new_fleet) =
     Some ([(110000, [example_policy])], \<lparr>md_rows = [], md_ids = [], md_now = 0\<rparr>, 100000)"
  and later_lookup_run:
  "map_option (\<lambda>F. (fl_answers F, fl_db F, fl_since F)) (acts codec_inst 1000 (lost_invalidation @ later_lookup) new_fleet) =
     Some ([(230000, []), (110000, [example_policy])], \<lparr>md_rows = [], md_ids = [], md_now = 0\<rparr>, 100000)"
proof -
  obtain c cs where c: "dump_policies [example_policy] = c # cs"
    using json_codec.dump_nonempty by (meson neq_Nil_conv)
  then have l: "load_policies (c # cs) = Inr [example_policy]"
    using json_codec.load_dump [of "[example_policy]"] example_policy_ok by simp
  show "map_option (\<lambda>F. (fl_answers F, fl_db F, fl_since F)) (acts codec_inst 1000 lost_invalidation new_fleet) =
     Some ([(110000, [example_policy])], \<lparr>md_rows = [], md_ids = [], md_now = 0\<rparr>, 100000)"
    by (simp add: fleet_eval c l)
  show "map_option (\<lambda>F. (fl_answers F, fl_db F, fl_since F)) (acts codec_inst 1000 (lost_invalidation @ later_lookup) new_fleet) =
     Some ([(230000, []), (110000, [example_policy])], \<lparr>md_rows = [], md_ids = [], md_now = 0\<rparr>, 100000)"
    by (simp add: fleet_eval c l)
qed

lemma run_reaches:
  assumes "map_option f (acts codec_inst 1000 as new_fleet) = Some x"
  shows "\<exists>F. (fleet_step codec_inst ks_view (\<lambda>_. 0) 1000)\<^sup>*\<^sup>* new_fleet F \<and> f F = x"
  using assms acts_reach [of codec_inst 1000 as new_fleet] by auto

section \<open>The properties\<close>

text \<open>
  C28. An answer of \<open>list_active_policies_cached\<close>, in any interleaving of any number of
  instances, lookups, database writes, invalidations (delivered, lost or too early), refresh
  messages and restarts, was the list of active policies at some time at most the two times to
  live and three lookups before it.
\<close>

theorem fleet_bounded_staleness:
  assumes "policy_fleet I view D" "fleet_start I view F0" "(fleet_step I view origin D)\<^sup>*\<^sup>* F0 F"
    and "(t, ps) \<in> set (fl_answers F)"
  shows "\<exists>r. t - max_staleness (i_settings I) D \<le> r \<and> r \<le> t \<and> was_current I F r ps"
  using policy_fleet.fleet_inv_reachable [OF assms(1,2,3)] assms(4) unfolding fleet_inv_def by blast

text \<open>
  The bound is used up in part: ten seconds after the deletion of a policy, invalidated, an
  instance answers with it.
\<close>

lemma fleet_bounded_staleness_witness:
  "\<exists>F r. (110000, [example_policy]) \<in> set (fl_answers F) \<and> fl_since F = 100000 \<and>
     list_policies codec_inst True (fl_db F) = Inr [] \<and> 110000 - max_staleness default_settings 1000 \<le> r \<and> r \<le> 110000 \<and>
     was_current codec_inst F r [example_policy]"
proof -
  obtain F where F: "(fleet_step codec_inst ks_view (\<lambda>_. 0) 1000)\<^sup>*\<^sup>* new_fleet F"
    "fl_answers F = [(110000, [example_policy])]" "fl_db F = \<lparr>md_rows = [], md_ids = [], md_now = 0\<rparr>" "fl_since F = 100000"
    using run_reaches [OF lost_invalidation_run] by auto
  moreover from fleet_bounded_staleness [OF demo_fleet.policy_fleet_axioms new_fleet_start F(1), of 110000 "[example_policy]"] F(2)
  obtain r where "110000 - max_staleness default_settings 1000 \<le> r" "r \<le> 110000" "was_current codec_inst F r [example_policy]"
    by auto
  ultimately show ?thesis
    by (intro exI [of _ F] exI [of _ r] conjI) (simp_all add: list_example(2) [of codec_inst])
qed

text \<open>
  C29. The fleet converges without any invalidation: an answer later than the last change of the
  table by more than the two times to live and three lookups is the table's list of active
  policies.
\<close>

theorem fleet_converges:
  assumes "policy_fleet I view D" "fleet_start I view F0" "(fleet_step I view origin D)\<^sup>*\<^sup>* F0 F"
    and "(t, ps) \<in> set (fl_answers F)" "fl_since F + max_staleness (i_settings I) D < t"
  shows "list_policies I True (fl_db F) = Inr ps"
proof -
  have inv: "fleet_inv I view origin D F" by (rule policy_fleet.fleet_inv_reachable [OF assms(1,2,3)])
  then obtain r where "t - max_staleness (i_settings I) D \<le> r" "was_current I F r ps"
    using assms(4) unfolding fleet_inv_def by blast
  with assms(5) show ?thesis using policy_fleet.read_after_change [OF assms(1) inv] by simp
qed

lemma fleet_converges_witness:
  "\<exists>F. (fleet_step codec_inst ks_view (\<lambda>_. 0) 1000)\<^sup>*\<^sup>* new_fleet F \<and> (230000, []) \<in> set (fl_answers F) \<and> fl_since F = 100000 \<and> list_policies codec_inst True (fl_db F) = Inr []"
proof -
  obtain F where F: "(fleet_step codec_inst ks_view (\<lambda>_. 0) 1000)\<^sup>*\<^sup>* new_fleet F"
    "fl_answers F = [(230000, []), (110000, [example_policy])]" "fl_since F = 100000"
    using run_reaches [OF later_lookup_run] by auto
  moreover from fleet_converges [OF demo_fleet.policy_fleet_axioms new_fleet_start F(1), of 230000 "[]"] F(2,3)
  have "list_policies codec_inst True (fl_db F) = Inr []" by (simp add: max_staleness_def default_settings_def)
  ultimately show ?thesis by (intro exI [of _ F]) simp
qed

end
