(* ===== verification/Concurrent_Updates.thy ===== *)
theory Concurrent_Updates
  imports Policy_Service
begin

text \<open>
  \<open>update_policy\<close> (\<open>app/services/policy_service.py\<close>) cut at its awaits: the row is loaded and the
  merged payload validated in one step, the changes are committed in a later one. What a commit
  makes of the changed attributes of a loaded object is SQLAlchemy's, a parameter with its
  documented behaviour as the laws of a locale. Shown is that the phases without interruption
  are the method, and what two overlapping updates make of the row.
\<close>

section \<open>The phases\<close>

text \<open>Loading, merging, validating; \<open>None\<close> when there is nothing to change.\<close>

definition begin_update ::
  "('d, 'k) inst \<Rightarrow> uuid \<Rightarrow> policy_update \<Rightarrow> ('d, 'k) world \<Rightarrow> app_error + policy \<times> policy option" where
  "begin_update I i u w =
     (case db_get (i_db I) i (w_db w) of
        Inl e \<Rightarrow> Inl (DatabaseError e)
      | Inr None \<Rightarrow> Inl (PolicyNotFoundError (uuid_str i))
      | Inr (Some p) \<Rightarrow>
          if \<not> update_nonempty u then Inr (p, None)
          else
            (case policy_create (dict_update (to_policy_payload p) u) of
               Inl e \<Rightarrow> Inl (PolicyValidationError e)
             | Inr _ \<Rightarrow> Inr (p, Some (let q = set_fields u p in q\<lparr>pol_version := pol_version q + 1\<rparr>))))"

text \<open>
  \<open>session.commit()\<close> and \<open>session.refresh(policy)\<close>: \<open>flush loaded changed\<close> writes the changes of the
  object, from the values it was loaded with to those it has now, commits, and reads the row.
\<close>

definition commit_update ::
  "('d, 'k) inst \<Rightarrow> (policy \<Rightarrow> policy \<Rightarrow> 'd \<Rightarrow> db_error + policy \<times> 'd) \<Rightarrow> policy \<Rightarrow> policy \<Rightarrow> ('d, 'k) world \<Rightarrow>
   (app_error + policy) \<times> ('d, 'k) world" where
  "commit_update I flush loaded changed w =
     (case flush loaded changed (w_db w) of
        Inl e \<Rightarrow> (Inl (DatabaseError e), w)
      | Inr (q, d) \<Rightarrow> (read_policy q, invalidate_policy_cache I ''update'' (uuid_str (pol_id q)) (w\<lparr>w_db := d\<rparr>)))"

section \<open>The flush\<close>

text \<open>
  The unit of work of SQLAlchemy: a column is part of the \<open>UPDATE\<close> when its attribute has another
  value than the one loaded, the other columns of the row stay as they are in the database, and
  the row is found by its primary key alone, because the mapper declares no \<open>version_id_col\<close>.
\<close>

definition write_column :: "'a \<Rightarrow> 'a \<Rightarrow> 'a \<Rightarrow> 'a" where
  "write_column loaded changed current = (if changed = loaded then current else changed)"

definition overlay :: "policy \<Rightarrow> policy \<Rightarrow> policy \<Rightarrow> policy" where
  "overlay l n c =
     c\<lparr>pol_name := write_column (pol_name l) (pol_name n) (pol_name c),
       pol_description := write_column (pol_description l) (pol_description n) (pol_description c),
       pol_algorithm := write_column (pol_algorithm l) (pol_algorithm n) (pol_algorithm c),
       pol_rate := write_column (pol_rate l) (pol_rate n) (pol_rate c),
       pol_window_seconds := write_column (pol_window_seconds l) (pol_window_seconds n) (pol_window_seconds c),
       pol_burst_capacity := write_column (pol_burst_capacity l) (pol_burst_capacity n) (pol_burst_capacity c),
       pol_active := write_column (pol_active l) (pol_active n) (pol_active c),
       pol_priority := write_column (pol_priority l) (pol_priority n) (pol_priority c),
       pol_route := write_column (pol_route l) (pol_route n) (pol_route c),
       pol_user_id := write_column (pol_user_id l) (pol_user_id n) (pol_user_id c),
       pol_ip_address := write_column (pol_ip_address l) (pol_ip_address n) (pol_ip_address c),
       pol_tenant_id := write_column (pol_tenant_id l) (pol_tenant_id n) (pol_tenant_id c),
       pol_api_key := write_column (pol_api_key l) (pol_api_key n) (pol_api_key c),
       pol_failure_mode := write_column (pol_failure_mode l) (pol_failure_mode n) (pol_failure_mode c),
       pol_version := write_column (pol_version l) (pol_version n) (pol_version c)\<rparr>"

locale flushing_database = policy_database D rows ok
  for D :: "'d database" and rows :: "'d \<Rightarrow> uuid \<rightharpoonup> policy" and ok :: "'d \<Rightarrow> bool" +
  fixes flush :: "policy \<Rightarrow> policy \<Rightarrow> 'd \<Rightarrow> db_error + policy \<times> 'd"
  assumes flush_law: "ok s \<Longrightarrow> rows s (pol_id l) = Some c \<Longrightarrow> pol_id c = pol_id l \<Longrightarrow> flush l n s = Inr (q, s') \<Longrightarrow>
      q = (overlay l n c)\<lparr>pol_updated_at := pol_updated_at q\<rparr> \<and> rows s' = (rows s)(pol_id l \<mapsto> q) \<and> ok s'"
    and flush_current: "ok s \<Longrightarrow> rows s (pol_id l) = Some l \<Longrightarrow> overlay l n l = n \<Longrightarrow> flush l n s = db_update D n s"

text \<open>In the database in memory: an update of the row as it is, or an error when the row is gone.\<close>

definition md_flush :: "policy \<Rightarrow> policy \<Rightarrow> memory_db \<Rightarrow> db_error + policy \<times> memory_db" where
  "md_flush l n s = (case md_row s (pol_id l) of None \<Rightarrow> Inl StaleDataError | Some c \<Rightarrow> md_update (overlay l n c) s)"

lemma overlay_id [simp]: "pol_id (overlay l n c) = pol_id c"
  by (simp add: overlay_def)

interpretation memory_flush: flushing_database memory_database md_row md_ok md_flush
proof unfold_locales
  fix s l c n q s'
  assume ok: "md_ok s" and row: "md_row s (pol_id l) = Some c" "pol_id c = pol_id l" and run: "md_flush l n s = Inr (q, s')"
  have upd: "db_update memory_database (overlay l n c) s = Inr (q, s')"
    using run row by (simp add: md_flush_def memory_database_def)
  have "md_row s (pol_id (overlay l n c)) \<noteq> None" using row by simp
  from memory_database.update_law [OF ok this upd] row
  show "q = (overlay l n c)\<lparr>pol_updated_at := pol_updated_at q\<rparr> \<and> md_row s' = (md_row s)(pol_id l \<mapsto> q) \<and> md_ok s'" by simp
qed (simp add: md_flush_def memory_database_def)

section \<open>Lemmas\<close>

lemma begin_update_Some:
  assumes "begin_update I i u w = Inr (p, Some q)"
  shows "db_get (i_db I) i (w_db w) = Inr (Some p)" "q = (set_fields u p)\<lparr>pol_version := pol_version p + 1\<rparr>"
    and "is_ok (policy_create (dict_update (to_policy_payload p) u))"
  using assms by (auto simp: begin_update_def Let_def is_ok_def split: sum.splits option.splits if_splits)

lemma overlay_own: "pol_id q = pol_id p \<Longrightarrow> pol_created_at q = pol_created_at p \<Longrightarrow> pol_updated_at q = pol_updated_at p \<Longrightarrow>
    overlay p q p = q"
  by (cases p; cases q) (simp add: overlay_def write_column_def)

lemma set_fields_updated_at: "pol_updated_at (set_fields u p) = pol_updated_at p"
  by (simp add: set_fields_def)

lemma begun_own:
  assumes "begin_update I i u w = Inr (p, Some q)"
  shows "overlay p q p = q"
  by (rule overlay_own) (simp_all add: begin_update_Some(2) [OF assms] set_fields_updated_at)

text \<open>An update that leaves alone what the quota key is made of.\<close>

definition keeps_key :: "policy_update \<Rightarrow> bool" where
  "keeps_key u \<longleftrightarrow> upd_algorithm u = None \<and> upd_route u = None \<and> upd_user_id u = None \<and> upd_ip_address u = None \<and>
     upd_tenant_id u = None \<and> upd_api_key u = None"

lemma overlay_key:
  assumes "keeps_key v" "r = (set_fields v p)\<lparr>pol_version := m\<rparr>" "pol_version c = m"
    and "c' = (overlay p r c)\<lparr>pol_updated_at := t\<rparr>"
  shows "build_rate_limit_key c' x = build_rate_limit_key c x"
  unfolding build_rate_limit_key_def key_segments_def assms(4) using assms(1,3)
  by (simp add: overlay_def write_column_def keeps_key_def set_fields_def set_req_def set_or_def assms(2))

section \<open>The phases are the method\<close>

context flushing_database
begin

lemma update_in_phases:
  assumes "i_db I = D" "ok (w_db w)"
  shows "update_policy I i u w =
    (case begin_update I i u w of
       Inl e \<Rightarrow> (Inl e, w)
     | Inr (p, None) \<Rightarrow> (read_policy p, w)
     | Inr (p, Some q) \<Rightarrow> commit_update I flush p q w)"
proof (cases "begin_update I i u w")
  case (Inr x)
  obtain p o' where x: "x = (p, o')" by (rule prod.exhaust)
  show ?thesis
  proof (cases o')
    case (Some q)
    note begun = begin_update_Some [OF Inr [unfolded x Some]]
    have row: "rows (w_db w) i = Some p" using get_law [OF assms(2)] begun(1) assms(1) by simp
    then have "rows (w_db w) (pol_id p) = Some p" using id_law [OF assms(2)] by simp
    from flush_current [OF assms(2) this begun_own [OF Inr [unfolded x Some]]]
    have "flush p q (w_db w) = db_update D q (w_db w)" .
    with begun Inr show ?thesis
      by (auto simp: update_policy_def begin_update_def commit_update_def x Some assms(1) Let_def
          split: sum.splits option.splits if_splits)
  qed (use Inr x in \<open>auto simp: update_policy_def begin_update_def Let_def split: sum.splits option.splits if_splits\<close>)
qed (auto simp: update_policy_def begin_update_def split: sum.splits option.splits if_splits)

lemma commit_row:
  assumes "ok (w_db w)" "rows (w_db w) (pol_id l) = Some c" "pol_id c = pol_id l"
    and "commit_update I flush l n w = (y, w')" "\<forall>e. y \<noteq> Inl (DatabaseError e)"
  shows "\<exists>c'. c' = (overlay l n c)\<lparr>pol_updated_at := pol_updated_at c'\<rparr> \<and> y = read_policy c' \<and>
    rows (w_db w') = (rows (w_db w))(pol_id l \<mapsto> c') \<and> ok (w_db w')"
proof -
  obtain c' d where f: "flush l n (w_db w) = Inr (c', d)"
    using assms(4,5) by (cases "flush l n (w_db w)") (auto simp: commit_update_def)
  from flush_law [OF assms(1-3) f] assms(4) show ?thesis
    by (intro exI [of _ c']) (auto simp: commit_update_def f)
qed

end

lemma invalid_row_listed:
  assumes "policy_database (i_db I) rows ok" "ok d" "rows d i = Some c" "\<not> policy_ok c" "active_only \<longrightarrow> pol_active c"
  shows "list_policies I active_only d \<noteq> Inr ps"
proof
  assume list: "list_policies I active_only d = Inr ps"
  then obtain rs where rs: "db_select (i_db I) d = Inr rs"
    "read_policies (sort_key (order_key (i_db I)) (if active_only then filter pol_active rs else rs)) = Inr ps"
    by (auto simp: list_policies_def split: sum.splits)
  have "c \<in> set rs" using policy_database.select_law [OF assms(1,2) rs(1)] assms(3) by (auto simp: ran_def)
  with read_policies_Inr [OF rs(2)] assms(4,5) show False by auto
qed

section \<open>Properties\<close>

text \<open>
  C13. Two overlapping updates of a policy merge column by column under one version: when both
  have loaded the same row and both are committed, the second writes its changed columns over
  what the first has stored, and the version is the one the first already has. When the second
  changes neither the algorithm nor a selector, the quota keys are the same before and after it,
  whatever it changes of the limit and the window. Each update was validated alone; the row
  they leave is validated only when it is read: if it does not pass, the second update itself
  ends with the validation error although it is stored, and from then on the listing of all
  policies fails, and that of the active ones if the row is active.
\<close>

theorem overlapping_updates_merge:
  assumes "flushing_database (i_db I) rows ok flush" "ok (w_db w)"
    and "begin_update I i u w = Inr (p, Some q)" "begin_update I i v w = Inr (p, Some r)"
    and "commit_update I flush p q w = (Inr c1, w1)" "commit_update I flush p r w1 = (y, w2)" "\<forall>e. y \<noteq> Inl (DatabaseError e)"
  shows "\<exists>c2. rows (w_db w1) i = Some c1 \<and> rows (w_db w2) i = Some c2 \<and>
    c2 = (overlay p r c1)\<lparr>pol_updated_at := pol_updated_at c2\<rparr> \<and>
    pol_version c1 = pol_version p + 1 \<and> pol_version c2 = pol_version c1 \<and>
    (keeps_key v \<longrightarrow> (\<forall>x. build_rate_limit_key c2 x = build_rate_limit_key c1 x)) \<and>
    (policy_ok c2 \<longrightarrow> y = Inr c2) \<and>
    (\<not> policy_ok c2 \<longrightarrow> (\<exists>e. y = Inl (PolicyValidationError e)) \<and> (\<forall>ps. list_policies I False (w_db w2) \<noteq> Inr ps) \<and>
      (pol_active c2 \<longrightarrow> (\<forall>ps. list_policies I True (w_db w2) \<noteq> Inr ps)))"
proof -
  have db: "policy_database (i_db I) rows ok" using assms(1) by (simp add: flushing_database_def)
  note p = begin_update_Some [OF assms(3)] and r = begin_update_Some [OF assms(4)]
  have row: "rows (w_db w) i = Some p" using policy_database.get_law [OF db assms(2) p(1)] by simp
  then have id: "pol_id p = i" by (rule policy_database.id_law [OF db assms(2)])
  have row': "rows (w_db w) (pol_id p) = Some p" using row id by simp
  have "\<forall>e. (Inr c1 :: app_error + policy) \<noteq> Inl (DatabaseError e)" by simp
  from flushing_database.commit_row [OF assms(1,2) row' refl assms(5) this] obtain d1 where
    d1: "d1 = q\<lparr>pol_updated_at := pol_updated_at d1\<rparr>" "Inr c1 = read_policy d1"
      "rows (w_db w1) = (rows (w_db w))(pol_id p \<mapsto> d1)" "ok (w_db w1)" unfolding begun_own [OF assms(3)] by blast
  have c1: "c1 = d1" using read_policy_Inr [OF d1(2) [symmetric]] by simp
  have meta: "pol_id d1 = pol_id p" by (subst d1(1)) (simp add: p(2))
  have version: "pol_version d1 = pol_version p + 1" by (subst d1(1)) (simp add: p(2))
  have first: "rows (w_db w1) (pol_id p) = Some c1" "pol_id c1 = pol_id p" "pol_version c1 = pol_version p + 1"
    using d1(3) meta version by (simp_all add: c1)
  from flushing_database.commit_row [OF assms(1) d1(4) first(1,2) assms(6,7)] obtain c2 where
    c2: "c2 = (overlay p r c1)\<lparr>pol_updated_at := pol_updated_at c2\<rparr>" "y = read_policy c2"
      "rows (w_db w2) = (rows (w_db w1))(pol_id p \<mapsto> c2)" "ok (w_db w2)" by blast
  have "pol_version (overlay p r c1) = pol_version c1" by (simp add: overlay_def write_column_def r(2) first(3))
  then have "pol_version c2 = pol_version c1" by (subst c2(1)) simp
  moreover have "keeps_key v \<longrightarrow> (\<forall>x. build_rate_limit_key c2 x = build_rate_limit_key c1 x)"
    using overlay_key [OF _ r(2) first(3) c2(1)] by blast
  moreover have stored: "rows (w_db w2) i = Some c2" using c2(3) id by simp
  moreover have "list_policies I False (w_db w2) \<noteq> Inr ps" "pol_active c2 \<Longrightarrow> list_policies I True (w_db w2) \<noteq> Inr ps"
    if "\<not> policy_ok c2" for ps
    by (rule invalid_row_listed [OF db c2(4) stored that]; simp)+
  moreover have "policy_ok c2 \<Longrightarrow> y = Inr c2" using c2(2) read_policy_ok by simp
  moreover have "\<not> policy_ok c2 \<Longrightarrow> \<exists>e. y = Inl (PolicyValidationError e)"
    using c2(2) read_policy_Inr [of c2] by (cases y) (auto simp: read_policy_def split: sum.splits)
  ultimately show ?thesis using first c2(1) id by blast
qed

definition to_fixed_window :: policy_update where
  "to_fixed_window = no_update\<lparr>upd_algorithm := Some (Some FIXED_WINDOW), upd_burst_capacity := Some None\<rparr>"

definition more_burst :: policy_update where
  "more_burst = no_update\<lparr>upd_burst_capacity := Some (Some 20)\<rparr>"

lemma demo_begin:
  "begin_update demo_inst 1 to_fixed_window demo_world =
     Inr (example_policy, Some (example_policy\<lparr>pol_algorithm := FIXED_WINDOW, pol_burst_capacity := None, pol_version := 2\<rparr>))"
  "begin_update demo_inst 1 more_burst demo_world =
     Inr (example_policy, Some (example_policy\<lparr>pol_burst_capacity := Some 20, pol_version := 2\<rparr>))"
proof -
  have get: "db_get (i_db demo_inst) 1 (w_db demo_world) = Inr (Some example_policy)" by (simp add: memory_database_def)
  have valid: "is_ok (policy_create (dict_update (to_policy_payload example_policy) to_fixed_window))"
    "is_ok (policy_create (dict_update (to_policy_payload example_policy) more_burst))" by code_simp+
  show "begin_update demo_inst 1 to_fixed_window demo_world =
     Inr (example_policy, Some (example_policy\<lparr>pol_algorithm := FIXED_WINDOW, pol_burst_capacity := None, pol_version := 2\<rparr>))"
    using valid(1) unfolding begin_update_def get
    by (auto simp: is_ok_def update_nonempty_def to_fixed_window_def no_update_def set_fields_def set_req_def set_or_def example_policy_def
        split: sum.splits)
  show "begin_update demo_inst 1 more_burst demo_world =
     Inr (example_policy, Some (example_policy\<lparr>pol_burst_capacity := Some 20, pol_version := 2\<rparr>))"
    using valid(2) unfolding begin_update_def get
    by (auto simp: is_ok_def update_nonempty_def more_burst_def no_update_def set_fields_def set_req_def set_or_def example_policy_def
        split: sum.splits)
qed

theorem overlapping_updates_merge_witness:
  "\<exists>c1 w1 y w2 c2. commit_update demo_inst md_flush example_policy
      (example_policy\<lparr>pol_algorithm := FIXED_WINDOW, pol_burst_capacity := None, pol_version := 2\<rparr>) demo_world = (Inr c1, w1) \<and>
    commit_update demo_inst md_flush example_policy (example_policy\<lparr>pol_burst_capacity := Some 20, pol_version := 2\<rparr>) w1 = (y, w2) \<and>
    md_row (w_db w2) 1 = Some c2 \<and> pol_algorithm c2 = FIXED_WINDOW \<and> pol_burst_capacity c2 = Some 20 \<and> pol_version c2 = 2 \<and>
    build_rate_limit_key c2 example_identity = build_rate_limit_key c1 example_identity \<and>
    (\<forall>ps. list_policies demo_inst True (w_db w2) \<noteq> Inr ps)"
proof -
  let ?q = "example_policy\<lparr>pol_algorithm := FIXED_WINDOW, pol_burst_capacity := None, pol_version := 2\<rparr>"
  let ?r = "example_policy\<lparr>pol_burst_capacity := Some 20, pol_version := 2\<rparr>"
  let ?c1 = "?q\<lparr>pol_updated_at := 7\<rparr>"
  have ok: "policy_ok ?c1" by code_simp
  have own: "overlay example_policy ?q example_policy = ?q" by (rule overlay_own) simp_all
  obtain w1 where 1: "commit_update demo_inst md_flush example_policy ?q demo_world = (Inr ?c1, w1)"
    and db: "w_db w1 = \<lparr>md_rows = [?c1], md_ids = [2, 3], md_now = 7\<rparr>"
    using read_policy_ok [OF ok] own
    by (simp add: commit_update_def md_flush_def demo_world_def md_row_def md_update_def Let_def)
  obtain y w2 where 2: "commit_update demo_inst md_flush example_policy ?r w1 = (y, w2)" by (rule prod.exhaust)
  have "\<forall>e. y \<noteq> Inl (DatabaseError e)"
    using 2 by (auto simp: commit_update_def md_flush_def db md_row_def md_update_def Let_def read_policy_def
        overlay_def write_column_def split: sum.splits if_splits)
  from overlapping_updates_merge [OF _ _ demo_begin 1 2 this, of md_row md_ok] memory_flush.flushing_database_axioms
  obtain c2 where c2: "md_row (w_db w2) 1 = Some c2" "c2 = (overlay example_policy ?r ?c1)\<lparr>pol_updated_at := pol_updated_at c2\<rparr>"
    "pol_version c2 = 2" "build_rate_limit_key c2 example_identity = build_rate_limit_key ?c1 example_identity"
    "\<not> policy_ok c2 \<Longrightarrow> pol_active c2 \<Longrightarrow> \<forall>ps. list_policies demo_inst True (w_db w2) \<noteq> Inr ps"
    by (auto simp: keeps_key_def more_burst_def no_update_def)
  have f: "pol_algorithm c2 = FIXED_WINDOW" "pol_burst_capacity c2 = Some 20" "pol_active c2"
    by (subst c2(2); simp add: overlay_def write_column_def example_policy_def)+
  then have "\<not> policy_ok c2" using policy_okD(4) [of c2 20] by auto
  with 1 2 c2 f show ?thesis by blast
qed

end
