(* ===== verification/Gateway.thy ===== *)
theory Gateway
  imports Rate_Limiter Config_Sync
begin

text \<open>
  The HTTP side of an instance: the token guards (\<open>app/core/security.py\<close>), the dependency that
  guards a route with the limiter (\<open>app/core/dependencies.py\<close>), the admin and internal
  endpoints (\<open>app/api/admin.py\<close>, \<open>app/api/internal.py\<close>) and the observing middleware.

  A handler returns the exception that leaves it or its response; an \<open>HTTPException\<close> becomes a
  response of its status, any other exception a response 500. Bodies are validated by their
  schema before a handler sees them.
\<close>

section \<open>Tokens\<close>

text \<open>\<open>compare_digest\<close> of two texts raises when one of them is not ASCII.\<close>

definition is_ascii :: "string \<Rightarrow> bool" where
  "is_ascii s = list_all (\<lambda>c. of_char c < (128 :: nat)) s"

definition compare_digest :: "string \<Rightarrow> string \<Rightarrow> py_error + bool" where
  "compare_digest a b =
     (if is_ascii a \<and> is_ascii b then Inr (a = b)
      else Inl (TypeError ''comparing strings with non-ASCII characters is not supported''))"

definition require_token :: "string option \<Rightarrow> string \<Rightarrow> string \<Rightarrow> app_error + unit" where
  "require_token provided expected detail =
     (case provided of
        None \<Rightarrow> Inl (HTTPException 401 detail [])
      | Some token \<Rightarrow>
          (case compare_digest token expected of
             Inl e \<Rightarrow> Inl (PythonError e)
           | Inr same \<Rightarrow> if same then Inr () else Inl (HTTPException 401 detail [])))"

definition require_admin_token :: "settings \<Rightarrow> http_request \<Rightarrow> app_error + unit" where
  "require_admin_token S r =
     require_token (req_headers r ''X-Admin-Token'') (set_admin_token S) ''Missing or invalid admin token.''"

definition require_service_token :: "settings \<Rightarrow> http_request \<Rightarrow> app_error + unit" where
  "require_service_token S r =
     require_token (req_headers r ''X-Service-Token'') (set_service_token S) ''Missing or invalid service token.''"

text \<open>A router runs its dependency before the handler.\<close>

definition guarded ::
  "app_error + unit \<Rightarrow> (('d, 'k) world \<Rightarrow> (app_error + 'a) \<times> ('d, 'k) world) \<Rightarrow> ('d, 'k) world \<Rightarrow>
   (app_error + 'a) \<times> ('d, 'k) world" where
  "guarded g handler w = (case g of Inl e \<Rightarrow> (Inl e, w) | Inr _ \<Rightarrow> handler w)"

section \<open>Guarding a route\<close>

record route_state =
  rt_headers :: "string \<rightharpoonup> string"
  rt_decision :: "rate_limit_decision option"
  rt_policy :: "policy option"

definition refusal_detail :: "rate_limit_decision \<Rightarrow> string" where
  "refusal_detail d =
     (if dc_degraded d \<and> \<not> dc_local_fallback d then ''Rate limiter unavailable in fail-closed mode.''
      else ''Rate limit exceeded.'')"

definition enforce_rate_limit ::
  "('d, 'k) inst \<Rightarrow> http_request \<Rightarrow> route_state \<Rightarrow> ('d, 'k) world \<Rightarrow> (app_error + route_state) \<times> ('d, 'k) world" where
  "enforce_rate_limit I r st w =
     (case evaluate I (build_request_identity r) w of
        (Inl e, w1) \<Rightarrow> (Inl e, w1)
      | (Inr None, w1) \<Rightarrow> (Inr st, w1)
      | (Inr (Some (d, p)), w1) \<Rightarrow>
          let st1 = st\<lparr>rt_decision := Some d, rt_policy := Some p,
                       rt_headers := fold (\<lambda>(n, v) m. m(n \<mapsto> v)) (headers d) (rt_headers st)\<rparr>
          in if dc_allowed d then (Inr st1, w1)
             else (Inl (HTTPException 429 (refusal_detail d) (headers d)), w1))"

section \<open>The internal API\<close>

record evaluation_response =
  ev_allowed :: bool
  ev_applied :: bool
  ev_degraded :: bool
  ev_local_fallback :: bool
  ev_retry_after_seconds :: int
  ev_headers :: "(string \<times> string) list"
  ev_policy :: "policy option"

text \<open>The constraints of \<open>RateLimitEvaluationRequest\<close>, whose fields are those of an identity.\<close>

definition evaluation_request_ok :: "request_identity \<Rightarrow> bool" where
  "evaluation_request_ok i \<longleftrightarrow>
     1 \<le> length (id_route i) \<and> length (id_route i) \<le> 255 \<and> length_at_most 128 (id_user_id i) \<and>
     length_at_most 64 (id_ip_address i) \<and> length_at_most 128 (id_tenant_id i) \<and> length_at_most 128 (id_api_key i)"

definition evaluate_rate_limit ::
  "('d, 'k) inst \<Rightarrow> request_identity \<Rightarrow> ('d, 'k) world \<Rightarrow> (app_error + evaluation_response) \<times> ('d, 'k) world" where
  "evaluate_rate_limit I payload w =
     (case evaluate I payload w of
        (Inl e, w1) \<Rightarrow> (Inl e, w1)
      | (Inr None, w1) \<Rightarrow>
          (Inr \<lparr>ev_allowed = True, ev_applied = False, ev_degraded = False, ev_local_fallback = False,
                ev_retry_after_seconds = 0, ev_headers = [], ev_policy = None\<rparr>, w1)
      | (Inr (Some (d, p)), w1) \<Rightarrow>
          (Inr \<lparr>ev_allowed = dc_allowed d, ev_applied = True, ev_degraded = dc_degraded d,
                ev_local_fallback = dc_local_fallback d, ev_retry_after_seconds = dc_retry_after_seconds d,
                ev_headers = headers d, ev_policy = Some p\<rparr>, w1))"

record sync_response =
  sy_config_name :: string
  sy_environment :: string
  sy_target :: string
  sy_config_version :: int
  sy_action :: string
  sy_policy :: policy

text \<open>\<open>payload[key]\<close>\<close>

definition item :: "(string \<times> json) list \<Rightarrow> string \<Rightarrow> app_error + json" where
  "item payload key = (case map_of payload key of None \<Rightarrow> Inl (PythonError (KeyError key)) | Some v \<Rightarrow> Inr v)"

text \<open>
  \<open>respond\<close> is pydantic's validation of the members of \<open>ConfigControlSyncResponse\<close> that come from
  ConfigControl as they are: it gives the three texts and the integer they are taken for, or the
  text of a \<open>ValidationError\<close>, which is a \<open>ValueError\<close>.
\<close>

definition sync_body ::
  "(json \<Rightarrow> json \<Rightarrow> json \<Rightarrow> json \<Rightarrow> string + string \<times> string \<times> string \<times> int) \<Rightarrow>
   (string \<times> json) list \<Rightarrow> string \<Rightarrow> policy \<Rightarrow> app_error + sync_response" where
  "sync_body respond payload action p =
     (case item payload ''name'' of Inl e \<Rightarrow> Inl e | Inr name \<Rightarrow>
     (case item payload ''environment'' of Inl e \<Rightarrow> Inl e | Inr env \<Rightarrow>
     (case item payload ''target'' of Inl e \<Rightarrow> Inl e | Inr tgt \<Rightarrow>
     (case item payload ''version'' of Inl e \<Rightarrow> Inl e | Inr version \<Rightarrow>
     (case respond name env tgt version of
        Inl reason \<Rightarrow> Inl (PythonError (ValueError reason))
      | Inr (n, e, t, v) \<Rightarrow>
          Inr \<lparr>sy_config_name = n, sy_environment = e, sy_target = t, sy_config_version = v,
               sy_action = action, sy_policy = p\<rparr>)))))"

definition sync_policy_from_config_control ::
  "('d, 'k) inst \<Rightarrow> (config_request \<Rightarrow> string + json) \<Rightarrow> ((string \<times> json) list \<Rightarrow> string + policy_base) \<Rightarrow>
   (json \<Rightarrow> json \<Rightarrow> json \<Rightarrow> json \<Rightarrow> string + string \<times> string \<times> string \<times> int) \<Rightarrow>
   string option \<Rightarrow> string option \<Rightarrow> string option \<Rightarrow> ('d, 'k) world \<Rightarrow>
   (app_error + sync_response) \<times> ('d, 'k) world" where
  "sync_policy_from_config_control I fetch decode respond config_name environment target w =
     (case sync_policy I fetch decode config_name environment target w of
        (Inl (ConfigControlSyncError msg), w1) \<Rightarrow> (Inl (HTTPException 503 msg []), w1)
      | (Inl e, w1) \<Rightarrow> (Inl e, w1)
      | (Inr (p, action, payload), w1) \<Rightarrow> (sync_body respond payload action p, w1))"

section \<open>The admin API\<close>

definition not_found_as_404 :: "(app_error + 'a) \<Rightarrow> app_error + 'a" where
  "not_found_as_404 r =
     (case r of Inl (PolicyNotFoundError _) \<Rightarrow> Inl (HTTPException 404 ''Policy not found.'' []) | _ \<Rightarrow> r)"

datatype admin_response = PolicyBody int policy | PolicyListBody int "policy list" nat | NoContent

text \<open>The five endpoints, by method and path; \<open>active_only\<close> is a query parameter.\<close>

datatype admin_call =
    PostPolicy policy_base
  | ListPolicies bool
  | GetPolicy uuid
  | PutPolicy uuid policy_update
  | DeletePolicy uuid

fun admin_handler ::
  "('d, 'k) inst \<Rightarrow> admin_call \<Rightarrow> ('d, 'k) world \<Rightarrow> (app_error + admin_response) \<times> ('d, 'k) world" where
  "admin_handler I (PostPolicy b) w =
     (case create_policy I b w of (r, w1) \<Rightarrow> (map_sum id (PolicyBody 201) r, w1))"
| "admin_handler I (ListPolicies active_only) w =
     (map_sum id (\<lambda>ps. PolicyListBody 200 ps (length ps)) (list_policies I active_only (w_db w)), w)"
| "admin_handler I (GetPolicy i) w = (map_sum id (PolicyBody 200) (not_found_as_404 (get_policy I i (w_db w))), w)"
| "admin_handler I (PutPolicy i u) w =
     (case update_policy I i u w of (r, w1) \<Rightarrow> (map_sum id (PolicyBody 200) (not_found_as_404 r), w1))"
| "admin_handler I (DeletePolicy i) w =
     (case delete_policy I i w of (r, w1) \<Rightarrow> (map_sum id (\<lambda>_. NoContent) (not_found_as_404 r), w1))"

definition admin_api ::
  "('d, 'k) inst \<Rightarrow> http_request \<Rightarrow> admin_call \<Rightarrow> ('d, 'k) world \<Rightarrow> (app_error + admin_response) \<times> ('d, 'k) world" where
  "admin_api I r call w = guarded (require_admin_token (i_settings I) r) (admin_handler I call) w"

definition internal_evaluate_api ::
  "('d, 'k) inst \<Rightarrow> http_request \<Rightarrow> request_identity \<Rightarrow> ('d, 'k) world \<Rightarrow>
   (app_error + evaluation_response) \<times> ('d, 'k) world" where
  "internal_evaluate_api I r payload w =
     guarded (require_service_token (i_settings I) r) (evaluate_rate_limit I payload) w"

text \<open>The status code of the response to an exception that leaves a handler.\<close>

definition error_status :: "app_error \<Rightarrow> int" where
  "error_status e = (case e of HTTPException status _ _ \<Rightarrow> status | _ \<Rightarrow> 500)"

section \<open>The middleware\<close>

definition observe_http_request :: "string \<Rightarrow> string \<Rightarrow> int \<Rightarrow> rat \<Rightarrow> event list" where
  "observe_http_request method route status latency_seconds =
     [Counter ''http_requests_total'' [method, route, int_str status],
      Observed ''request_latency_seconds'' [method, route, int_str status] latency_seconds]"

text \<open>
  \<open>dispatch\<close>: \<open>started\<close> and \<open>ended\<close> are the readings of the performance counter. A handler's
  \<open>HTTPException\<close> has become a response before the middleware sees it.
\<close>

definition dispatch ::
  "settings \<Rightarrow> string \<Rightarrow> http_request \<Rightarrow> rat \<Rightarrow> rat \<Rightarrow> (app_error + int \<times> (string \<rightharpoonup> string)) \<Rightarrow>
   (app_error + int \<times> (string \<rightharpoonup> string)) \<times> event list" where
  "dispatch S method r started ended result =
     (let latency_seconds = fl (ended - started); route = route_template r
      in case result of
           Inl e \<Rightarrow> (Inl e, observe_http_request method route 500 latency_seconds @ [Log ERROR ''request_error''])
         | Inr (status, hs) \<Rightarrow>
             (Inr (status, if hs ''X-Instance-Name'' = None then hs(''X-Instance-Name'' \<mapsto> set_app_instance_name S) else hs),
              observe_http_request method route status latency_seconds @ [Log INFO ''request_complete'']))"

section \<open>Lemmas\<close>

lemma require_token_ok: "require_token provided expected detail = Inr () \<Longrightarrow> provided = Some expected"
  by (auto simp: require_token_def compare_digest_def split: option.splits if_splits)

lemma guarded_cases:
  "guarded g handler w = (r, w') \<Longrightarrow> (\<exists>e. g = Inl e \<and> r = Inl e \<and> w' = w) \<or> (g = Inr () \<and> handler w = (r, w'))"
  by (auto simp: guarded_def split: sum.splits)

text \<open>The header loop of the guard writes every header of the decision.\<close>

lemma set_headers: "map_of (headers d) n = Some v \<Longrightarrow> fold (\<lambda>(n, v) m. m(n \<mapsto> v)) (headers d) m n = Some v"
  by (auto simp: headers_def split: if_splits)

lemma set_all_headers: "fold (\<lambda>(n, v) m. m(n \<mapsto> v)) (headers d) m = m ++ map_of (headers d)"
  by (rule ext) (simp add: headers_def map_add_def)

lemma headers_distinct [simp]: "distinct (map fst (headers d))"
  by (simp add: headers_def)

section \<open>Properties\<close>

text \<open>
  No admin endpoint answers or changes anything without the admin token: a request that
  got a response other than an error, or that changed the world, carried exactly the
  configured token. A missing or wrong token is a 401, except one with a character outside
  ASCII, which leaves the guard as a \<open>TypeError\<close> and becomes a 500.
\<close>

theorem admin_requires_token:
  assumes "admin_api I r call w = (res, w')"
  shows "(is_ok res \<or> w' \<noteq> w \<longrightarrow> req_headers r ''X-Admin-Token'' = Some (set_admin_token (i_settings I))) \<and>
    (req_headers r ''X-Admin-Token'' \<noteq> Some (set_admin_token (i_settings I)) \<longrightarrow> is_ascii (set_admin_token (i_settings I)) \<longrightarrow>
      (\<exists>e. res = Inl e \<and> error_status e =
        (case req_headers r ''X-Admin-Token'' of Some t \<Rightarrow> if is_ascii t then 401 else 500 | None \<Rightarrow> 401)))"
proof -
  let ?h = "req_headers r ''X-Admin-Token''" and ?t = "set_admin_token (i_settings I)"
  consider (refused) e where "require_admin_token (i_settings I) r = Inl e" "res = Inl e" "w' = w"
    | (through) "require_admin_token (i_settings I) r = Inr ()"
    using guarded_cases [OF assms [unfolded admin_api_def]] by blast
  then show ?thesis
  proof cases
    case refused
    then show ?thesis
      by (auto simp: require_admin_token_def require_token_def compare_digest_def error_status_def
          split: option.splits if_splits)
  next
    case through
    then have "?h = Some ?t" unfolding require_admin_token_def by (rule require_token_ok)
    then show ?thesis by simp
  qed
qed

definition token_request :: "string option \<Rightarrow> http_request" where
  "token_request t =
     \<lparr>req_route_path = None, req_url_path = ''/admin/policies'', req_headers = (\<lambda>k. if k = ''X-Admin-Token'' then t else None),
      req_path_params = Map.empty, req_client_host = None\<rparr>"

theorem admin_requires_token_witness:
  "\<exists>e. fst (admin_api demo_inst (token_request (Some [CHR 0xE9])) (DeletePolicy 1) demo_world) = Inl e \<and> error_status e = 500"
proof -
  obtain res w' where run: "admin_api demo_inst (token_request (Some [CHR 0xE9])) (DeletePolicy 1) demo_world = (res, w')"
    by (rule prod.exhaust)
  have "is_ascii (set_admin_token (i_settings demo_inst))" "\<not> is_ascii [CHR 0xE9]"
    "req_headers (token_request (Some [CHR 0xE9])) ''X-Admin-Token'' = Some [CHR 0xE9]"
    by (simp_all add: default_settings_def is_ascii_def token_request_def)
  with admin_requires_token [OF run] run show ?thesis by (simp add: default_settings_def)
qed

text \<open>
  The two ways into the limiter agree: for the same request and the same world the
  guard of a route and the internal API evaluate alike and leave the same world; the guard
  lets pass exactly what the API allows, with every header of the API's answer on the
  response, and refuses the rest with 429 and the same headers.
\<close>

theorem guard_agrees_with_internal_api:
  "snd (enforce_rate_limit I r st w) = snd (evaluate_rate_limit I (build_request_identity r) w) \<and>
   (case fst (evaluate_rate_limit I (build_request_identity r) w) of
      Inl e \<Rightarrow> fst (enforce_rate_limit I r st w) = Inl e
    | Inr ev \<Rightarrow>
        if ev_allowed ev
        then \<exists>st'. fst (enforce_rate_limit I r st w) = Inr st' \<and> rt_headers st' = rt_headers st ++ map_of (ev_headers ev) \<and>
          (ev_applied ev \<longrightarrow> rt_policy st' = ev_policy ev)
        else \<exists>detail. fst (enforce_rate_limit I r st w) = Inl (HTTPException 429 detail (ev_headers ev)))"
proof -
  obtain x w1 where run: "evaluate I (build_request_identity r) w = (x, w1)" by (rule prod.exhaust)
  show ?thesis
  proof (cases x)
    case (Inr o')
    then show ?thesis
      by (cases o') (auto simp: enforce_rate_limit_def evaluate_rate_limit_def run Let_def set_all_headers)
  qed (simp add: enforce_rate_limit_def evaluate_rate_limit_def run)
qed

definition fresh_route_state :: route_state where
  "fresh_route_state = \<lparr>rt_headers = Map.empty, rt_decision = None, rt_policy = None\<rparr>"

theorem guard_agrees_with_internal_api_witness:
  "snd (enforce_rate_limit demo_inst (token_request None) fresh_route_state demo_world) =
     snd (evaluate_rate_limit demo_inst (build_request_identity (token_request None)) demo_world)"
  using guard_agrees_with_internal_api [of demo_inst "token_request None" fresh_route_state demo_world] by simp

text \<open>
  C25. Once a lookup has given a valid policy, the guard of a route ends in one decision,
  whatever Redis, the network and the clock do from there: it lets the request pass exactly when
  the decision allows it, with decision and policy in the request state and the decision's
  headers on the response, and otherwise raises 429 with these headers. The refusal speaks of an
  unavailable limiter exactly when all attempts failed and the local limiter is disabled, and
  then a request passes exactly when the policy fails open.
\<close>

theorem guard_passes_or_429:
  assumes "resolve_policy I (build_request_identity r) w = (Inr (Some p), w1)"
    and "policy_ok p" "header_limit p \<le> 2 ^ 53" "limiter_ok (w_limiter w)"
  shows "\<exists>d w'. evaluate I (build_request_identity r) w = (Inr (Some (d, p)), w') \<and>
    (dc_degraded d \<and> \<not> set_enable_local_fallback_limiter (i_settings I) \<longrightarrow> (dc_allowed d \<longleftrightarrow> pol_failure_mode p = FAIL_OPEN)) \<and>
    enforce_rate_limit I r st w =
      (if dc_allowed d
       then Inr (st\<lparr>rt_decision := Some d, rt_policy := Some p, rt_headers := rt_headers st ++ map_of (headers d)\<rparr>)
       else Inl (HTTPException 429
         (if dc_degraded d \<and> \<not> set_enable_local_fallback_limiter (i_settings I)
          then ''Rate limiter unavailable in fail-closed mode.'' else ''Rate limit exceeded.'') (headers d)), w')"
proof -
  obtain d w2 es where run: "loop_outcome I p (nat (max_attempts (i_settings I) - 1)) w1 d w2 es"
    "evaluate I (build_request_identity r) w = (Inr (Some (d, p)), emit (verdict_events p d) w2)"
    using evaluate_loop [OF assms] by blast
  have local: "dc_degraded d \<Longrightarrow> dc_local_fallback d \<longleftrightarrow> set_enable_local_fallback_limiter (i_settings I)"
    and closed: "dc_degraded d \<Longrightarrow> \<not> dc_local_fallback d \<Longrightarrow> dc_allowed d \<longleftrightarrow> pol_failure_mode p = FAIL_OPEN"
    using run(1) by (auto simp: loop_outcome_def)
  have "enforce_rate_limit I r st w =
      (if dc_allowed d
       then Inr (st\<lparr>rt_decision := Some d, rt_policy := Some p, rt_headers := rt_headers st ++ map_of (headers d)\<rparr>)
       else Inl (HTTPException 429 (refusal_detail d) (headers d)), emit (verdict_events p d) w2)"
    by (simp add: enforce_rate_limit_def run(2) Let_def set_all_headers)
  with run(2) local closed show ?thesis
    by (intro exI [of _ d] exI [of _ "emit (verdict_events p d) w2"]) (auto simp: refusal_detail_def)
qed

definition example_request :: http_request where
  "example_request =
     \<lparr>req_route_path = Some ''/demo/protected'', req_url_path = ''/demo/protected'',
      req_headers = [''X-User-Id'' \<mapsto> ''alice'', ''X-Forwarded-For'' \<mapsto> ''203.0.113.10''],
      req_path_params = Map.empty, req_client_host = None\<rparr>"

lemma example_request_identity: "build_request_identity example_request = example_identity"
  by code_simp

theorem guard_passes_or_429_witness:
  "\<exists>hs. fst (enforce_rate_limit (outage_inst False) example_request fresh_route_state demo_world) =
     Inl (HTTPException 429 ''Rate limiter unavailable in fail-closed mode.'' hs)"
proof -
  obtain w1 where res: "resolve_policy (outage_inst False) (build_request_identity example_request) demo_world = (Inr (Some example_policy), w1)"
    using outage_resolve [of False] by (auto simp: example_request_identity)
  have closed: "pol_failure_mode example_policy = FAIL_CLOSED" by (simp add: example_policy_def)
  obtain v where "evaluate (outage_inst False) example_identity demo_world = v" "\<And>d p u. v = (Inr (Some (d, p)), u) \<Longrightarrow> dc_degraded d"
    using outage_decision [of "outage_inst False" example_identity demo_world example_policy w1] res
    by (auto simp: example_request_identity)
  with guard_passes_or_429 [OF res, of fresh_route_state] closed show ?thesis by (auto simp: example_request_identity)
qed

text \<open>
  The statuses of a policy update: a missing policy is a 404; an update that passes the
  schema but leaves an invalid policy, such as a fixed window with a burst capacity, raises
  a validation error inside the handler that nothing catches, a 500; neither changes
  anything.
\<close>

theorem put_policy_errors:
  assumes "db_get (i_db I) i (w_db w) = Inr r" "update_nonempty u"
    and "case r of None \<Rightarrow> True | Some p \<Rightarrow> \<not> is_ok (policy_create (dict_update (to_policy_payload p) u))"
  shows "\<exists>e. admin_handler I (PutPolicy i u) w = (Inl e, w) \<and> error_status e = (if r = None then 404 else 500)"
  using assms
  by (cases r) (auto simp: update_policy_def is_ok_def not_found_as_404_def error_status_def split: sum.splits)

theorem put_policy_errors_witness:
  "\<exists>e. admin_handler demo_inst (PutPolicy 1 (no_update\<lparr>upd_algorithm := Some (Some FIXED_WINDOW)\<rparr>)) demo_world = (Inl e, demo_world) \<and>
     error_status e = 500 \<and> is_ok (validate_update (no_update\<lparr>upd_algorithm := Some (Some FIXED_WINDOW)\<rparr>))"
proof -
  let ?u = "no_update\<lparr>upd_algorithm := Some (Some FIXED_WINDOW)\<rparr>"
  have "db_get (i_db demo_inst) 1 (w_db demo_world) = Inr (Some example_policy)" by (simp add: memory_database_def)
  moreover have "update_nonempty ?u" by (simp add: update_nonempty_def)
  moreover have "\<not> is_ok (policy_create (dict_update (to_policy_payload example_policy) ?u))" by code_simp
  moreover have "is_ok (validate_update ?u)" by code_simp
  ultimately show ?thesis using put_policy_errors [of demo_inst 1 demo_world "Some example_policy" ?u] by simp
qed

text \<open>
  A synced policy can be reported as a failure: ConfigControl answers with a valid policy
  but without the members the endpoint repeats in its response; the policy is stored and in
  force, and the caller gets a 500. The same happens when a member is there and fails the
  validation of the response.
\<close>

lemma sync_body_refused:
  "respond name env tgt version = Inl reason \<Longrightarrow>
   map_of payload ''name'' = Some name \<Longrightarrow> map_of payload ''environment'' = Some env \<Longrightarrow>
   map_of payload ''target'' = Some tgt \<Longrightarrow> map_of payload ''version'' = Some version \<Longrightarrow>
     sync_body respond payload action p = Inl (PythonError (ValueError reason))"
  by (simp add: sync_body_def item_def)

theorem sync_applied_yet_500:
  "\<exists>e w'. sync_policy_from_config_control synced_inst (\<lambda>_. Inr (JObj example_config)) strict_decode respond None None None demo_world = (Inl e, w') \<and>
     error_status e = 500 \<and> map_option pol_rate (md_row (w_db w') 1) = Some 20"
proof -
  obtain w' where "sync_policy synced_inst (\<lambda>_. Inr (JObj example_config)) strict_decode None None None demo_world =
      (Inr (synced_policy, ''updated'', example_config), w')" "w_db w' = \<lparr>md_rows = [synced_policy], md_ids = [2, 3], md_now = 7\<rparr>"
    using synced_example by blast
  then show ?thesis
    by (simp add: sync_policy_from_config_control_def sync_body_def item_def example_config_def error_status_def md_row_def
        synced_policy_def example_policy_def)
qed

end
