(* ===== verification/Lifecycle.thy ===== *)
theory Lifecycle
  imports Gateway
begin

text \<open>
  The life of an instance (\<open>app/main.py\<close>): its clients (\<open>app/redis/client.py\<close>), its database
  sessions (\<open>app/db/session.py\<close>), the startup checks and
  health (\<open>app/services/health_service.py\<close>), the lifespan that opens and closes everything, and
  the listener of the refresh channel with its subscriptions.

  An \<open>await\<close> returns or raises; what it does is an argument. Exceptions fall into three kinds,
  which the handlers of the source tell apart: those of redis-py, other ones, and the
  cancellation of the task, which \<open>except Exception\<close> does not catch.
\<close>

datatype exn = RedisException string | OtherException string | CancelledError

section \<open>Redis clients\<close>

record redis_client =
  rc_url :: string
  rc_encoding :: string
  rc_decode_responses :: bool
  rc_socket_timeout :: "rat option"
  rc_socket_connect_timeout :: "rat option"
  rc_health_check_interval :: int

definition create_redis_client :: "settings \<Rightarrow> redis_client" where
  "create_redis_client S =
     \<lparr>rc_url = set_redis_url S, rc_encoding = ''utf-8'', rc_decode_responses = True,
      rc_socket_timeout = Some (set_redis_socket_timeout_seconds S),
      rc_socket_connect_timeout = Some (set_redis_socket_timeout_seconds S), rc_health_check_interval = 30\<rparr>"

definition create_pubsub_redis_client :: "settings \<Rightarrow> redis_client" where
  "create_pubsub_redis_client S =
     \<lparr>rc_url = set_redis_url S, rc_encoding = ''utf-8'', rc_decode_responses = True, rc_socket_timeout = None,
      rc_socket_connect_timeout = Some (set_redis_socket_timeout_seconds S), rc_health_check_interval = 30\<rparr>"

text \<open>
  Closing by \<open>aclose\<close> where the client has it, else by \<open>close\<close>: \<open>aclose\<close> and \<open>close\<close> are what the
  calls do, the first is absent from old clients.
\<close>

definition close_redis_client :: "(exn + unit) option \<Rightarrow> exn + unit \<Rightarrow> exn + unit" where
  "close_redis_client aclose close = (case aclose of Some r \<Rightarrow> r | None \<Rightarrow> close)"

section \<open>Database sessions\<close>

text \<open>
  \<open>DatabaseSessionManager\<close> (\<open>app/db/session.py\<close>): how the engine and its sessions are made. A
  session is used as a context: \<open>body\<close> is what the code under it does, \<open>rollback\<close> what the
  rollback does when it is called.
\<close>

record session_manager =
  sm_database_url :: string
  sm_pool_pre_ping :: bool
  sm_expire_on_commit :: bool

definition create_session_manager :: "string \<Rightarrow> session_manager" where
  "create_session_manager url = \<lparr>sm_database_url = url, sm_pool_pre_ping = True, sm_expire_on_commit = False\<rparr>"

datatype session_op = OpenSession | Rollback | CloseSession

definition session_scope :: "exn + 'a \<Rightarrow> exn + unit \<Rightarrow> (exn + 'a) \<times> session_op list" where
  "session_scope body rollback =
     (case body of
        Inr v \<Rightarrow> (Inr v, [OpenSession, CloseSession])
      | Inl CancelledError \<Rightarrow> (Inl CancelledError, [OpenSession, CloseSession])
      | Inl e \<Rightarrow>
          ((case rollback of Inl e' \<Rightarrow> Inl e' | Inr _ \<Rightarrow> Inl e), [OpenSession, Rollback, CloseSession]))"

text \<open>A ping opens a connection and runs a statement on it.\<close>

definition ping_database :: "exn + unit \<Rightarrow> exn + unit \<Rightarrow> exn + bool" where
  "ping_database connect statement =
     (case connect of Inl e \<Rightarrow> Inl e | Inr _ \<Rightarrow> (case statement of Inl e \<Rightarrow> Inl e | Inr _ \<Rightarrow> Inr True))"

definition ping_redis :: "exn + unit \<Rightarrow> exn + bool" where
  "ping_redis ping = (case ping of Inl e \<Rightarrow> Inl e | Inr _ \<Rightarrow> Inr True)"

section \<open>Health and startup\<close>

text \<open>A ping answers or raises an exception with a text.\<close>

record dependency_health =
  dh_ok :: bool
  dh_details :: string

record health_response =
  hr_service :: string
  hr_environment :: string
  hr_instance :: string
  hr_postgres :: dependency_health
  hr_redis :: dependency_health

definition check_dependency :: "string \<Rightarrow> string + unit \<Rightarrow> dependency_health" where
  "check_dependency name ping =
     (case ping of
        Inl reason \<Rightarrow> \<lparr>dh_ok = False, dh_details = reason\<rparr>
      | Inr _ \<Rightarrow> \<lparr>dh_ok = True, dh_details = name @ '' reachable''\<rparr>)"

definition get_health :: "settings \<Rightarrow> string + unit \<Rightarrow> string + unit \<Rightarrow> health_response" where
  "get_health S db_ping redis_ping =
     \<lparr>hr_service = set_project_name S, hr_environment = set_environment S, hr_instance = set_app_instance_name S,
      hr_postgres = check_dependency ''postgres'' db_ping, hr_redis = check_dependency ''redis'' redis_ping\<rparr>"

record startup_status =
  su_postgres :: bool
  su_redis :: bool

definition run_startup_checks :: "string + unit \<Rightarrow> string + unit \<Rightarrow> startup_status \<times> event list" where
  "run_startup_checks db_ping redis_ping =
     (\<lparr>su_postgres = is_ok db_ping, su_redis = is_ok redis_ping\<rparr>,
      (if is_ok db_ping then [] else [Log ERROR ''startup_check_failed'']) @
      (if is_ok redis_ping then [] else [Log ERROR ''startup_check_failed'']))"

section \<open>The lifespan\<close>

text \<open>
  What the application holds: the engine and the two clients, each open or closed, and the
  task of the listener.
\<close>

record app_resources =
  ar_db :: bool
  ar_redis :: bool
  ar_redis_pubsub :: bool
  ar_listener :: bool

record app_state =
  app_redis :: redis_client
  app_redis_pubsub :: redis_client
  app_snapshot :: "snapshot option"
  app_limiter :: local_limiter
  app_startup_status :: startup_status

definition all_closed :: app_resources where
  "all_closed = \<lparr>ar_db = False, ar_redis = False, ar_redis_pubsub = False, ar_listener = False\<rparr>"

text \<open>\<open>app.state\<close> at the end of a lifespan: the pub/sub client, the client and the engine, in this order.\<close>

record closings =
  cl_pubsub :: "exn + unit"
  cl_redis :: "exn + unit"
  cl_db :: "exn + unit"

definition close_all :: "closings \<Rightarrow> app_resources \<Rightarrow> (exn + unit) \<times> app_resources" where
  "close_all c r =
     (case cl_pubsub c of
        Inl e \<Rightarrow> (Inl e, r)
      | Inr _ \<Rightarrow>
          (case cl_redis c of
             Inl e \<Rightarrow> (Inl e, r\<lparr>ar_redis_pubsub := False\<rparr>)
           | Inr _ \<Rightarrow>
               (case cl_db c of
                  Inl e \<Rightarrow> (Inl e, r\<lparr>ar_redis_pubsub := False, ar_redis := False\<rparr>)
                | Inr _ \<Rightarrow> (Inr (), r\<lparr>ar_redis_pubsub := False, ar_redis := False, ar_db := False\<rparr>))))"

datatype startup_error = StrictStartupChecksFailed startup_status | CloseFailed exn

definition lifespan_startup ::
  "settings \<Rightarrow> string + unit \<Rightarrow> string + unit \<Rightarrow> closings \<Rightarrow> (startup_error + app_state) \<times> app_resources \<times> event list" where
  "lifespan_startup S db_ping redis_ping c =
     (let opened = \<lparr>ar_db = True, ar_redis = True, ar_redis_pubsub = True, ar_listener = False\<rparr>
      in case run_startup_checks db_ping redis_ping of
           (status, es) \<Rightarrow>
             if set_strict_startup_checks S \<and> \<not> (su_postgres status \<and> su_redis status)
             then (case close_all c opened of
                     (Inl e, r) \<Rightarrow> (Inl (CloseFailed e), r, es)
                   | (Inr _, r) \<Rightarrow> (Inl (StrictStartupChecksFailed status), r, es))
             else
               let running = (if set_enable_policy_pubsub S \<and> su_redis status then opened\<lparr>ar_listener := True\<rparr> else opened)
               in (Inr \<lparr>app_redis = create_redis_client S, app_redis_pubsub = create_pubsub_redis_client S,
                        app_snapshot = None, app_limiter = new_limiter (set_local_fallback_state_ttl_seconds S),
                        app_startup_status = status\<rparr>,
                   running, es @ [Log INFO ''service_started'']))"

text \<open>
  \<open>ended\<close> is the exception the listener task has ended with, \<open>None\<close> while it runs; a running task
  is cancelled and its \<open>CancelledError\<close> is caught.
\<close>

definition join_listener :: "app_resources \<Rightarrow> exn option \<Rightarrow> exn + unit" where
  "join_listener running ended =
     (if ar_listener running
      then (case ended of None \<Rightarrow> Inr () | Some CancelledError \<Rightarrow> Inr () | Some e \<Rightarrow> Inl e)
      else Inr ())"

definition lifespan_shutdown ::
  "app_resources \<Rightarrow> exn option \<Rightarrow> closings \<Rightarrow> (exn + unit) \<times> app_resources \<times> event list" where
  "lifespan_shutdown running ended c =
     (let stopped = running\<lparr>ar_listener := False\<rparr>
      in case join_listener running ended of
           Inl e \<Rightarrow> (Inl e, stopped, [])
         | Inr _ \<Rightarrow>
             (case close_all c stopped of
                (Inl e, r) \<Rightarrow> (Inl e, r, [])
              | (Inr _, r) \<Rightarrow> (Inr (), r, [Log INFO ''service_stopped''])))"

section \<open>The refresh listener\<close>

text \<open>
  One turn of the loop, as its surroundings play it: whether the subscription succeeds, the
  types of the messages it yields, how the iteration ends (\<open>None\<close>: the iterator is exhausted),
  whether the sleep is cancelled, and what unsubscribing and closing do.
\<close>

record subscription =
  sub_subscribe :: "exn + unit"
  sub_messages :: "string option list"
  sub_end :: "exn option"
  sub_sleep_cancelled :: bool
  sub_unsubscribe :: "exn + unit"
  sub_aclose :: "(exn + unit) option"
  sub_close :: "exn + unit"

datatype pubsub_op = OpenPubSub | Subscribe string | Unsubscribe string | ClosePubSub

text \<open>\<open>with suppress(Exception)\<close>\<close>

definition suppress :: "exn + unit \<Rightarrow> exn + unit" where
  "suppress r = (case r of Inl CancelledError \<Rightarrow> Inl CancelledError | _ \<Rightarrow> Inr ())"

text \<open>The block \<open>try\<close>, then the handlers, then \<open>finally\<close>.\<close>

definition listen_body :: "subscription \<Rightarrow> ('d, 'k) world \<Rightarrow> (exn + unit) \<times> ('d, 'k) world" where
  "listen_body s w =
     (case sub_subscribe s of
        Inl e \<Rightarrow> (Inl e, w)
      | Inr _ \<Rightarrow>
          ((case sub_end s of None \<Rightarrow> Inr () | Some e \<Rightarrow> Inl e),
           fold (\<lambda>t. on_refresh_message (t = Some ''message'')) (sub_messages s) w))"

definition listen_handlers :: "subscription \<Rightarrow> (exn + unit) \<times> ('d, 'k) world \<Rightarrow> (exn + unit) \<times> ('d, 'k) world" where
  "listen_handlers s x =
     (case x of
        (Inl (RedisException _), w) \<Rightarrow>
          ((if sub_sleep_cancelled s then Inl CancelledError else Inr ()),
           emit [mark_redis_error ''policy_refresh_listener'', Log WARNING ''redis_fallback'', Slept 1] w)
      | _ \<Rightarrow> x)"

definition listen_finally :: "string \<Rightarrow> subscription \<Rightarrow> (exn + unit) \<times> pubsub_op list" where
  "listen_finally channel s =
     (case suppress (sub_unsubscribe s) of
        Inl e \<Rightarrow> (Inl e, [Unsubscribe channel])
      | Inr _ \<Rightarrow> (suppress (close_redis_client (sub_aclose s) (sub_close s)), [Unsubscribe channel, ClosePubSub]))"

definition listener_turn :: "string \<Rightarrow> subscription \<Rightarrow> ('d, 'k) world \<Rightarrow> (exn + unit) \<times> pubsub_op list \<times> ('d, 'k) world" where
  "listener_turn channel s w =
     (case listen_handlers s (listen_body s w) of
        (r, w1) \<Rightarrow>
          (case listen_finally channel s of
             (c, ops) \<Rightarrow> ((case c of Inl e \<Rightarrow> Inl e | Inr _ \<Rightarrow> r), OpenPubSub # Subscribe channel # ops, w1)))"

text \<open>The loop, for as many turns as the surroundings play: the exception that ended the task, if one did.\<close>

fun policy_refresh_listener ::
  "string \<Rightarrow> subscription list \<Rightarrow> ('d, 'k) world \<Rightarrow> exn option \<times> pubsub_op list \<times> ('d, 'k) world" where
  "policy_refresh_listener channel [] w = (None, [], w)"
| "policy_refresh_listener channel (s # ss) w =
     (case listener_turn channel s w of
        (Inl e, ops, w1) \<Rightarrow> (Some e, ops, w1)
      | (Inr _, ops, w1) \<Rightarrow>
          (case policy_refresh_listener channel ss w1 of (r, ops', w2) \<Rightarrow> (r, ops @ ops', w2)))"

section \<open>Lemmas\<close>

text \<open>How a turn goes on: what the block raised, when it is not handled.\<close>

definition turn_error :: "subscription \<Rightarrow> exn option" where
  "turn_error s = (case sub_subscribe s of Inl e \<Rightarrow> Some e | Inr _ \<Rightarrow> sub_end s)"

definition redis_failed :: "subscription \<Rightarrow> bool" where
  "redis_failed s \<longleftrightarrow> (\<exists>m. turn_error s = Some (RedisException m))"

definition cleanup_cancelled :: "subscription \<Rightarrow> bool" where
  "cleanup_cancelled s \<longleftrightarrow>
     sub_unsubscribe s = Inl CancelledError \<or> close_redis_client (sub_aclose s) (sub_close s) = Inl CancelledError"

definition delivered :: "subscription \<Rightarrow> bool list" where
  "delivered s = (case sub_subscribe s of Inl _ \<Rightarrow> [] | Inr _ \<Rightarrow> map (\<lambda>t. t = Some ''message'') (sub_messages s))"

text \<open>
  A session is opened and closed once, is rolled back exactly for the exceptions that
  \<open>except Exception\<close> catches, and passes on what its body did unless the rollback itself fails.
\<close>

lemma session_closed:
  "\<exists>mid. snd (session_scope body rollback) = [OpenSession] @ mid @ [CloseSession] \<and>
     (mid = [Rollback] \<longleftrightarrow> (\<exists>e. body = Inl e \<and> e \<noteq> CancelledError)) \<and> (mid = [] \<or> mid = [Rollback]) \<and>
     (is_ok rollback \<longrightarrow> fst (session_scope body rollback) = body)"
  by (auto simp: session_scope_def is_ok_def split: sum.split exn.split)

lemma suppress_simps [simp]:
  "suppress (Inr u) = Inr ()" "suppress (Inl CancelledError) = Inl CancelledError"
  "e \<noteq> CancelledError \<Longrightarrow> suppress (Inl e) = Inr ()"
  by (simp_all add: suppress_def split: exn.split)

lemma suppress_cases: "suppress r = (if r = Inl CancelledError then Inl CancelledError else Inr ())"
  by (simp add: suppress_def split: sum.split exn.split)

text \<open>A turn in closed form.\<close>

lemma listener_turn_eq:
  "listener_turn channel s w =
     ((if cleanup_cancelled s then Inl CancelledError
       else case turn_error s of
              None \<Rightarrow> Inr ()
            | Some (RedisException m) \<Rightarrow> if sub_sleep_cancelled s then Inl CancelledError else Inr ()
            | Some e \<Rightarrow> Inl e),
      [OpenPubSub, Subscribe channel, Unsubscribe channel] @
        (if sub_unsubscribe s = Inl CancelledError then [] else [ClosePubSub]),
      emit (if redis_failed s then [mark_redis_error ''policy_refresh_listener'', Log WARNING ''redis_fallback'', Slept 1] else [])
        (fold on_refresh_message (delivered s) w))"
proof -
  have nothing: "emit [] v = v" for v :: "('d, 'k) world" by (simp add: emit_def)
  show ?thesis
    by (cases "sub_subscribe s"; cases "sub_end s")
       (auto simp: listener_turn_def listen_body_def listen_handlers_def listen_finally_def suppress_cases turn_error_def
          redis_failed_def cleanup_cancelled_def delivered_def nothing fold_map comp_def split: exn.split)
qed

lemma listener_append:
  "policy_refresh_listener channel (ss @ ts) w =
     (case policy_refresh_listener channel ss w of
        (Some e, ops, w1) \<Rightarrow> (Some e, ops, w1)
      | (None, ops, w1) \<Rightarrow> (case policy_refresh_listener channel ts w1 of (r, ops', w2) \<Rightarrow> (r, ops @ ops', w2)))"
  by (induction ss arbitrary: w) (auto split: prod.split sum.split option.split)

lemma on_refresh_frame [simp]:
  "w_db (fold on_refresh_message xs w) = w_db w" "w_tick (fold on_refresh_message xs w) = w_tick w"
  "count_list (w_events (fold on_refresh_message xs w)) (Slept 1) = count_list (w_events w) (Slept 1)"
  by (induction xs arbitrary: w) (simp_all add: on_refresh_message_def)

lemma on_refresh_events:
  "w_events (fold on_refresh_message xs w) = w_events w @ replicate (count_list xs True) (Log INFO ''policy_refresh_received'')"
  by (induction xs arbitrary: w) (simp_all add: on_refresh_message_def)

lemma on_refresh_none: "w_snapshot w = None \<Longrightarrow> w_snapshot (fold on_refresh_message xs w) = None"
  by (induction xs arbitrary: w) (simp_all add: on_refresh_message_def)

lemma on_refresh_some: "True \<in> set xs \<Longrightarrow> w_snapshot (fold on_refresh_message xs w) = None"
  by (induction xs arbitrary: w) (auto simp: on_refresh_message_def on_refresh_none)

text \<open>What the loop leaves alone.\<close>

lemma listener_frame:
  "policy_refresh_listener channel ss w = (out, ops, w') \<Longrightarrow>
     w_db w' = w_db w \<and> w_tick w' = w_tick w \<and> (w_snapshot w = None \<longrightarrow> w_snapshot w' = None)"
proof (induction ss arbitrary: w ops)
  case (Cons s ss)
  show ?case
    using Cons.prems Cons.IH
    by (fastforce simp: listener_turn_eq on_refresh_none split: sum.splits prod.splits)
qed simp

section \<open>Properties\<close>

text \<open>
  Every subscription is given back: of the subscriptions the listener opens, all are
  unsubscribed, and all are closed unless the task ended with a cancellation that met it in the
  very call of \<open>unsubscribe\<close>, which leaves at most one open. The task never ends with an error
  of redis-py.
\<close>

theorem listener_returns_subscriptions:
  "case policy_refresh_listener channel ss w of
     (out, ops, w') \<Rightarrow>
       count_list ops (Unsubscribe channel) = count_list ops OpenPubSub \<and>
       count_list ops ClosePubSub \<le> count_list ops OpenPubSub \<and>
       count_list ops OpenPubSub \<le> count_list ops ClosePubSub + (if out = Some CancelledError then 1 else 0) \<and>
       (\<forall>m. out \<noteq> Some (RedisException m))"
proof (induction ss arbitrary: w)
  case (Cons s ss)
  obtain r ops w1 where turn: "listener_turn channel s w = (r, ops, w1)" by (cases "listener_turn channel s w") auto
  have closed: "r \<noteq> Inl CancelledError \<longrightarrow> sub_unsubscribe s \<noteq> Inl CancelledError"
    using turn by (auto simp: listener_turn_eq cleanup_cancelled_def)
  have ops: "ops = [OpenPubSub, Subscribe channel, Unsubscribe channel] @ (if sub_unsubscribe s = Inl CancelledError then [] else [ClosePubSub])"
    and r: "r \<noteq> Inl (RedisException m)" for m
    using turn by (auto simp: listener_turn_eq split: option.splits exn.splits if_splits)
  show ?case
    using Cons.IH [of w1] closed r by (cases r) (auto simp: turn ops split: prod.split)
qed simp

text \<open>
  C31. Redis being away never ends the listener: while the turns only fail with errors of
  redis-py and nobody cancels the task, it goes on, whatever its cleanup raises, and gives every
  subscription back. Each failed turn is counted, then logged, then followed by one sleep of a
  second, and each message that arrived is logged once; nothing else is left behind.
\<close>

theorem listener_survives_outages:
  assumes "\<forall>s\<in>set ss. \<not> cleanup_cancelled s \<and> (redis_failed s \<and> \<not> sub_sleep_cancelled s \<or> turn_error s = None)"
  shows "case policy_refresh_listener channel ss w of
     (out, ops, w') \<Rightarrow>
       out = None \<and> count_list ops OpenPubSub = length ss \<and> count_list ops ClosePubSub = length ss \<and>
       (\<exists>es. w_events w' = w_events w @ es \<and>
         filter (\<lambda>e. e \<noteq> Log INFO ''policy_refresh_received'') es =
           concat (replicate (length (filter redis_failed ss))
             [mark_redis_error ''policy_refresh_listener'', Log WARNING ''redis_fallback'', Slept 1]) \<and>
         count_list es (Log INFO ''policy_refresh_received'') = count_list (concat (map delivered ss)) True)"
  using assms
proof (induction ss arbitrary: w)
  case (Cons s ss)
  let ?failed = "[mark_redis_error ''policy_refresh_listener'', Log WARNING ''redis_fallback'', Slept 1]"
  let ?es = "replicate (count_list (delivered s) True) (Log INFO ''policy_refresh_received'') @ (if redis_failed s then ?failed else [])"
  let ?w = "emit (if redis_failed s then ?failed else []) (fold on_refresh_message (delivered s) w)"
  have s: "\<not> cleanup_cancelled s" "redis_failed s \<and> \<not> sub_sleep_cancelled s \<or> turn_error s = None" using Cons.prems by auto
  then have turn: "listener_turn channel s w = (Inr (), [OpenPubSub, Subscribe channel, Unsubscribe channel, ClosePubSub], ?w)"
    by (auto simp: listener_turn_eq cleanup_cancelled_def redis_failed_def)
  obtain out ops w' where rest: "policy_refresh_listener channel ss ?w = (out, ops, w')" by (metis prod_cases3)
  with Cons.IH [of ?w] Cons.prems obtain es where es: "out = None" "count_list ops OpenPubSub = length ss"
    "count_list ops ClosePubSub = length ss" "w_events w' = w_events ?w @ es"
    "filter (\<lambda>e. e \<noteq> Log INFO ''policy_refresh_received'') es = concat (replicate (length (filter redis_failed ss)) ?failed)"
    "count_list es (Log INFO ''policy_refresh_received'') = count_list (concat (map delivered ss)) True" by auto
  have "w_events w' = w_events w @ ?es @ es" by (simp add: es(4) on_refresh_events)
  moreover have "filter (\<lambda>e. e \<noteq> Log INFO ''policy_refresh_received'') (?es @ es) =
      concat (replicate (length (filter redis_failed (s # ss))) ?failed)"
    by (simp add: es(5) filter_replicate mark_defs)
  moreover have "count_list (replicate n e) e = n" for n and e :: event by (induction n) simp_all
  then have "count_list (?es @ es) (Log INFO ''policy_refresh_received'') = count_list (concat (map delivered (s # ss))) True"
    by (simp add: es(6) mark_defs)
  ultimately show ?case using es(1-3) by (simp add: turn rest del: append_assoc filter_append)
qed simp

definition refused_turn :: subscription where
  "refused_turn =
     \<lparr>sub_subscribe = Inl (RedisException ''refused''), sub_messages = [], sub_end = None, sub_sleep_cancelled = False,
      sub_unsubscribe = Inl (RedisException ''refused''), sub_aclose = Some (Inl (OtherException ''no connection'')), sub_close = Inr ()\<rparr>"

theorem listener_survives_outages_witness:
  "case policy_refresh_listener ''refresh'' [refused_turn, refused_turn] (demo_world\<lparr>w_events := []\<rparr>) of
     (out, ops, w') \<Rightarrow> out = None \<and> filter (\<lambda>e. e \<noteq> Log INFO ''policy_refresh_received'') (w_events w') =
       [mark_redis_error ''policy_refresh_listener'', Log WARNING ''redis_fallback'', Slept 1,
        mark_redis_error ''policy_refresh_listener'', Log WARNING ''redis_fallback'', Slept 1]"
proof -
  have turns: "\<forall>s\<in>set [refused_turn, refused_turn]. \<not> cleanup_cancelled s \<and> (redis_failed s \<and> \<not> sub_sleep_cancelled s \<or> turn_error s = None)"
    and failed: "redis_failed refused_turn"
    by (simp_all add: refused_turn_def cleanup_cancelled_def redis_failed_def turn_error_def close_redis_client_def)
  from listener_survives_outages [OF turns, where channel = "''refresh''" and w = "demo_world\<lparr>w_events := []\<rparr>"] failed
  show ?thesis by (auto split: prod.splits)
qed

text \<open>
  Cancelling the listener while it listens, or while it sleeps after an error, ends the task
  with the cancellation, and the subscription is closed on the way out.
\<close>

lemma cancelled_turn:
  assumes "turn_error s = Some CancelledError \<or> redis_failed s \<and> sub_sleep_cancelled s" "\<not> cleanup_cancelled s"
  shows "fst (listener_turn channel s w) = Inl CancelledError \<and> ClosePubSub \<in> set (fst (snd (listener_turn channel s w)))"
  using assms by (auto simp: listener_turn_eq redis_failed_def cleanup_cancelled_def)

text \<open>
  C32. An error that is not redis-py's ends the listener for good: no later message is seen, and
  when the instance is shut down, its error is raised again where the task is awaited, so the
  clients and the engine stay open and the stop is not logged.
\<close>

theorem dead_listener_leaks:
  assumes "turn_error s = Some (OtherException m)" "\<not> cleanup_cancelled s"
    and "fst (policy_refresh_listener channel ss w) = None"
    and "lifespan_startup S (Inr ()) (Inr ()) c = (Inr A, running, es)" "set_enable_policy_pubsub S"
  shows "policy_refresh_listener channel (ss @ s # later) w = policy_refresh_listener channel (ss @ [s]) w \<and>
    fst (policy_refresh_listener channel (ss @ s # later) w) = Some (OtherException m) \<and>
    lifespan_shutdown running (fst (policy_refresh_listener channel (ss @ s # later) w)) c' =
      (Inl (OtherException m), running\<lparr>ar_listener := False\<rparr>, []) \<and>
    ar_db running \<and> ar_redis running \<and> ar_redis_pubsub running"
proof -
  obtain ops w1 where ss: "policy_refresh_listener channel ss w = (None, ops, w1)"
    using assms(3) by (cases "policy_refresh_listener channel ss w") auto
  have turn: "\<exists>ops w2. listener_turn channel s v = (Inl (OtherException m), ops, w2)" for v
    using assms(1,2) by (auto simp: listener_turn_eq)
  have out: "fst (policy_refresh_listener channel (ss @ s # later) w) = Some (OtherException m)"
    and same: "policy_refresh_listener channel (ss @ s # later) w = policy_refresh_listener channel (ss @ [s]) w"
    using turn [of w1] by (auto simp: listener_append ss split: prod.split)
  have running: "ar_listener running" "ar_db running" "ar_redis running" "ar_redis_pubsub running"
    using assms(4,5) by (auto simp: lifespan_startup_def run_startup_checks_def Let_def split: if_splits prod.splits sum.splits)
  then have "lifespan_shutdown running (Some (OtherException m)) c' = (Inl (OtherException m), running\<lparr>ar_listener := False\<rparr>, [])"
    by (simp add: lifespan_shutdown_def join_listener_def)
  with same running show ?thesis unfolding out by blast
qed

definition undecodable_turn :: subscription where
  "undecodable_turn =
     refused_turn\<lparr>sub_subscribe := Inr (), sub_messages := [Some ''subscribe'', Some ''message''],
       sub_end := Some (OtherException ''invalid start byte''), sub_unsubscribe := Inr (), sub_aclose := Some (Inr ())\<rparr>"

definition closings_ok :: closings where
  "closings_ok = \<lparr>cl_pubsub = Inr (), cl_redis = Inr (), cl_db = Inr ()\<rparr>"

theorem dead_listener_leaks_witness:
  "\<exists>A running es. lifespan_startup default_settings (Inr ()) (Inr ()) closings_ok = (Inr A, running, es) \<and>
     fst (lifespan_shutdown running (fst (policy_refresh_listener ''refresh'' [undecodable_turn] demo_world)) closings_ok) =
       Inl (OtherException ''invalid start byte'') \<and> ar_db running"
proof -
  obtain A running es where start: "lifespan_startup default_settings (Inr ()) (Inr ()) closings_ok = (Inr A, running, es)"
    by (simp add: lifespan_startup_def run_startup_checks_def default_settings_def Let_def)
  have turn: "turn_error undecodable_turn = Some (OtherException ''invalid start byte'')" "\<not> cleanup_cancelled undecodable_turn"
    by (simp_all add: undecodable_turn_def refused_turn_def turn_error_def cleanup_cancelled_def close_redis_client_def)
  have "set_enable_policy_pubsub default_settings" by (simp add: default_settings_def)
  from dead_listener_leaks [OF turn _ start this, where ss = "[]" and channel = "''refresh''" and w = demo_world and later = "[]" and c' = closings_ok]
  have "lifespan_shutdown running (fst (policy_refresh_listener ''refresh'' [undecodable_turn] demo_world)) closings_ok =
      (Inl (OtherException ''invalid start byte''), running\<lparr>ar_listener := False\<rparr>, [])" "ar_db running"
    unfolding append_Nil by (metis policy_refresh_listener.simps(1) fst_conv)+
  with start show ?thesis by auto
qed

text \<open>
  C33. Startup opens and shutdown closes. With strict checks the instance starts exactly when both
  dependencies answer, otherwise always, with an empty snapshot and a fresh limiter; the
  listener is started exactly when pub/sub is enabled and Redis answered. A refused start, and a
  start followed by a shutdown, have closed the engine and both clients exactly when the three
  closing calls return and, for the shutdown, the listener that was started still runs or was
  cancelled; only then does the shutdown end without an exception and is logged.
\<close>

definition closings_return :: "closings \<Rightarrow> bool" where
  "closings_return c \<longleftrightarrow> is_ok (cl_pubsub c) \<and> is_ok (cl_redis c) \<and> is_ok (cl_db c)"

theorem lifespan_closes_everything:
  "case lifespan_startup S db_ping redis_ping c of
     (Inl e, resources, es) \<Rightarrow>
       set_strict_startup_checks S \<and> \<not> (is_ok db_ping \<and> is_ok redis_ping) \<and>
       (resources = all_closed \<longleftrightarrow> closings_return c) \<and> ((\<exists>status. e = StrictStartupChecksFailed status) \<longleftrightarrow> closings_return c)
   | (Inr A, resources, es) \<Rightarrow>
       (set_strict_startup_checks S \<longrightarrow> is_ok db_ping \<and> is_ok redis_ping) \<and>
       limiter_ok (app_limiter A) \<and> app_snapshot A = None \<and> app_redis A = create_redis_client S \<and>
       (ar_listener resources \<longleftrightarrow> set_enable_policy_pubsub S \<and> is_ok redis_ping) \<and>
       ar_db resources \<and> ar_redis resources \<and> ar_redis_pubsub resources \<and>
       (\<forall>ended c'. case lifespan_shutdown resources ended c' of (r, left, es') \<Rightarrow>
          let clean = closings_return c' \<and> (ar_listener resources \<longrightarrow> ended \<in> {None, Some CancelledError})
          in (left = all_closed \<longleftrightarrow> clean) \<and> (r = Inr () \<longleftrightarrow> clean) \<and>
            es' = (if clean then [Log INFO ''service_stopped''] else []))"
proof -
  have close: "case close_all d res of (r, left) \<Rightarrow>
      (r = Inr () \<longleftrightarrow> closings_return d) \<and> (\<not> closings_return d \<longrightarrow> ar_db left = ar_db res \<and> \<not> is_ok r) \<and>
      (closings_return d \<longrightarrow> left = res\<lparr>ar_redis_pubsub := False, ar_redis := False, ar_db := False\<rparr>)" for d res
    by (auto simp: close_all_def closings_return_def is_ok_def split: sum.split)
  have still_open: "ar_db left \<Longrightarrow> left \<noteq> all_closed" for left by (auto simp: all_closed_def)
  have down: "case lifespan_shutdown res ended d of (r, left, es) \<Rightarrow>
      let clean = closings_return d \<and> (ar_listener res \<longrightarrow> ended \<in> {None, Some CancelledError})
      in (left = all_closed \<longleftrightarrow> clean) \<and> (r = Inr () \<longleftrightarrow> clean) \<and> es = (if clean then [Log INFO ''service_stopped''] else [])"
    if "ar_db res" for res ended d
  proof (cases "join_listener res ended")
    case (Inl e)
    then have "ar_listener res" "ended \<notin> {None, Some CancelledError}"
      by (auto simp: join_listener_def split: if_splits option.splits exn.splits)
    with Inl that still_open [of "res\<lparr>ar_listener := False\<rparr>"] show ?thesis by (simp add: lifespan_shutdown_def Let_def)
  next
    case (Inr u)
    then have joined: "ar_listener res \<longrightarrow> ended \<in> {None, Some CancelledError}"
      by (auto simp: join_listener_def split: if_splits option.splits exn.splits)
    with Inr that close [of d "res\<lparr>ar_listener := False\<rparr>"] show ?thesis
      by (cases "closings_return d")
        (auto simp: lifespan_shutdown_def all_closed_def Let_def is_ok_def split: prod.splits sum.splits)
  qed
  let ?opened = "\<lparr>ar_db = True, ar_redis = True, ar_redis_pubsub = True, ar_listener = False\<rparr>"
  show ?thesis
  proof (cases "set_strict_startup_checks S \<and> \<not> (is_ok db_ping \<and> is_ok redis_ping)")
    case True
    with close [of c ?opened] show ?thesis
      by (cases "closings_return c")
        (auto simp: lifespan_startup_def run_startup_checks_def all_closed_def Let_def is_ok_def split: prod.splits sum.splits)
  next
    case False
    then show ?thesis
      using down by (auto simp: lifespan_startup_def run_startup_checks_def limiter_ok_new Let_def)
  qed
qed

theorem lifespan_closes_everything_witness:
  "snd (lifespan_startup (default_settings\<lparr>set_strict_startup_checks := True\<rparr>) (Inr ()) (Inl ''down'') closings_ok) =
     (all_closed, [Log ERROR ''startup_check_failed''])"
proof -
  have "closings_return closings_ok" by (simp add: closings_return_def closings_ok_def)
  then have "\<exists>status. lifespan_startup (default_settings\<lparr>set_strict_startup_checks := True\<rparr>) (Inr ()) (Inl ''down'') closings_ok =
      (Inl status, all_closed, [Log ERROR ''startup_check_failed''])"
    using lifespan_closes_everything [of "default_settings\<lparr>set_strict_startup_checks := True\<rparr>" "Inr ()" "Inl ''down''" closings_ok]
    by (simp add: lifespan_startup_def run_startup_checks_def close_all_def closings_ok_def)
  then show ?thesis by auto
qed

text \<open>
  A refresh message reaches an instance before its snapshot can mislead it: once the
  listener has got a message, a lookup that cannot reach Redis asks the database, however
  fresh the snapshot was, whatever happens to the listener afterwards.
\<close>

theorem refresh_drops_snapshot:
  assumes "fst (policy_refresh_listener channel ss w) = None"
    and "sub_subscribe s = Inr ()" "Some ''message'' \<in> set (sub_messages s)"
    and "policy_refresh_listener channel (ss @ s # later) w = (out, ops, w')"
    and "env_fault (i_env I) (w_tick w) \<noteq> Delivered"
  shows "w_snapshot w' = None \<and> fst (list_active_policies_cached I w') = list_policies I True (w_db w)"
proof -
  obtain ops1 w1 where ss: "policy_refresh_listener channel ss w = (None, ops1, w1)"
    using assms(1) by (cases "policy_refresh_listener channel ss w") auto
  have "True \<in> set (delivered s)" using assms(2,3) by (force simp: delivered_def)
  then have turn: "\<exists>r ops w2. listener_turn channel s w1 = (r, ops, w2) \<and> w_snapshot w2 = None"
    by (simp add: listener_turn_eq on_refresh_some)
  have none: "w_snapshot w' = None"
    using assms(4) turn
    by (auto simp: listener_append ss split: prod.splits sum.splits dest: listener_frame)
  moreover have "w_db w' = w_db w" "w_tick w' = w_tick w" using listener_frame [OF assms(4)] by simp_all
  ultimately show ?thesis using unreachable_list [of I w'] assms(5) by simp
qed

theorem refresh_drops_snapshot_witness:
  "case policy_refresh_listener ''refresh'' [undecodable_turn] demo_world of
     (out, ops, w') \<Rightarrow> fst (list_active_policies_cached (outage_inst False) w') = list_policies (outage_inst False) True (w_db demo_world)"
proof -
  obtain out ops w' where run: "policy_refresh_listener ''refresh'' [undecodable_turn] demo_world = (out, ops, w')"
    by (cases "policy_refresh_listener ''refresh'' [undecodable_turn] demo_world") auto
  have "sub_subscribe undecodable_turn = Inr ()" "Some ''message'' \<in> set (sub_messages undecodable_turn)"
    by (simp_all add: undecodable_turn_def)
  from refresh_drops_snapshot [OF _ this, where ss = "[]" and channel = "''refresh''" and w = demo_world and later = "[]" and I = "outage_inst False"]
    run show ?thesis by (simp add: outage_inst_def)
qed

end
