(* ===== verification/Routes.thy ===== *)
theory Routes
  imports Lifecycle
begin

text \<open>
  The routes of an instance (\<open>app/api/router.py\<close> and the routers it includes): which endpoint
  answers a method and a path, what guards it, and what the demo and platform endpoints
  answer (\<open>app/api/demo.py\<close>, \<open>app/api/services.py\<close>, \<open>app/api/health.py\<close>). The matching of a path
  with a template is that of Starlette: a parameter stands for one non-empty segment, and the
  first route that matches is taken.
\<close>

section \<open>The routing table\<close>

datatype guard = Unguarded | AdminToken | ServiceToken | RateLimit

record route =
  ep_method :: string
  ep_path :: string
  ep_guard :: guard
  ep_endpoint :: string

definition Route :: "string \<Rightarrow> string \<Rightarrow> guard \<Rightarrow> string \<Rightarrow> route" where
  "Route m p g e = \<lparr>ep_method = m, ep_path = p, ep_guard = g, ep_endpoint = e\<rparr>"

definition admin_router :: "route list" where
  "admin_router =
     [Route ''POST'' ''/admin/policies'' AdminToken ''create_policy'',
      Route ''GET'' ''/admin/policies'' AdminToken ''list_policies'',
      Route ''GET'' ''/admin/policies/{policy_id}'' AdminToken ''get_policy'',
      Route ''PUT'' ''/admin/policies/{policy_id}'' AdminToken ''update_policy'',
      Route ''DELETE'' ''/admin/policies/{policy_id}'' AdminToken ''delete_policy'']"

definition health_router :: "route list" where
  "health_router = [Route ''GET'' ''/health'' Unguarded ''health'', Route ''GET'' ''/metrics'' Unguarded ''metrics'']"

definition demo_router :: "route list" where
  "demo_router =
     [Route ''GET'' ''/demo/public'' RateLimit ''demo_public'', Route ''GET'' ''/demo/protected'' RateLimit ''demo_protected'',
      Route ''GET'' ''/demo/user/{user_id}'' RateLimit ''demo_user'']"

definition services_router :: "route list" where
  "services_router =
     [Route ''POST'' ''/services/auth/session'' RateLimit ''auth_session'',
      Route ''POST'' ''/services/payments/authorize'' RateLimit ''payments_authorize'',
      Route ''GET'' ''/services/search/query'' RateLimit ''search_query'']"

definition internal_router :: "route list" where
  "internal_router =
     [Route ''POST'' ''/internal/evaluate'' ServiceToken ''evaluate_rate_limit'',
      Route ''POST'' ''/internal/sync/config-control'' ServiceToken ''sync_policy_from_config_control'']"

definition api_router :: "route list" where
  "api_router = admin_router @ health_router @ demo_router @ services_router @ internal_router"

section \<open>Matching\<close>

definition segments :: "string \<Rightarrow> string list" where
  "segments p = split_on CHR ''/'' p"

text \<open>The name in braces, when the segment of a template is a parameter.\<close>

definition param_name :: "string \<Rightarrow> string option" where
  "param_name s = (case s of c # cs \<Rightarrow> if c = CHR ''{'' then Some (butlast cs) else None | [] \<Rightarrow> None)"

fun match_segments :: "string list \<Rightarrow> string list \<Rightarrow> (string \<times> string) list option" where
  "match_segments [] [] = Some []"
| "match_segments (t # ts) (s # ss) =
     (case match_segments ts ss of
        None \<Rightarrow> None
      | Some ps \<Rightarrow>
          (case param_name t of
             Some n \<Rightarrow> if s = [] then None else Some ((n, s) # ps)
           | None \<Rightarrow> if t = s then Some ps else None))"
| "match_segments _ _ = None"

definition match_path :: "string \<Rightarrow> string \<Rightarrow> (string \<times> string) list option" where
  "match_path template path = match_segments (segments template) (segments path)"

fun find_route :: "route list \<Rightarrow> string \<Rightarrow> string \<Rightarrow> (route \<times> (string \<times> string) list) option" where
  "find_route [] method path = None"
| "find_route (r # rs) method path =
     (case match_path (ep_path r) path of
        Some ps \<Rightarrow> if ep_method r = method then Some (r, ps) else find_route rs method path
      | None \<Rightarrow> find_route rs method path)"

text \<open>The request as an endpoint sees it.\<close>

definition routed_request ::
  "string \<Rightarrow> string \<Rightarrow> (string \<rightharpoonup> string) \<Rightarrow> string option \<Rightarrow> (route \<times> http_request) option" where
  "routed_request method path hs client =
     (case find_route api_router method path of
        None \<Rightarrow> None
      | Some (r, ps) \<Rightarrow>
          Some (r, \<lparr>req_route_path = Some (ep_path r), req_url_path = path, req_headers = hs, req_path_params = map_of ps,
                    req_client_host = client\<rparr>))"

section \<open>The guarded endpoints\<close>

record endpoint_payload =
  pl_message :: string
  pl_instance :: string
  pl_route :: string
  pl_policy :: "policy option"
  pl_decision :: "(string \<times> string) list option"
  pl_service :: "(string \<times> string) option"

definition build_demo_payload :: "settings \<Rightarrow> http_request \<Rightarrow> route_state \<Rightarrow> string \<Rightarrow> endpoint_payload" where
  "build_demo_payload S r st message =
     \<lparr>pl_message = message, pl_instance = set_app_instance_name S, pl_route = route_template r, pl_policy = rt_policy st,
      pl_decision = map_option headers (rt_decision st), pl_service = None\<rparr>"

definition build_service_payload :: "settings \<Rightarrow> http_request \<Rightarrow> route_state \<Rightarrow> string \<Rightarrow> string \<Rightarrow> endpoint_payload" where
  "build_service_payload S r st service operation =
     \<lparr>pl_message = service @ '' handled '' @ operation @ ''. This route demonstrates how the limiter can protect platform services.'',
      pl_instance = set_app_instance_name S, pl_route = route_template r, pl_policy = rt_policy st,
      pl_decision = map_option headers (rt_decision st), pl_service = Some (service, operation)\<rparr>"

text \<open>The bodies of the six endpoints; \<open>user_id\<close> is the path parameter.\<close>

definition demo_public :: "settings \<Rightarrow> http_request \<Rightarrow> route_state \<Rightarrow> endpoint_payload" where
  "demo_public S r st =
     build_demo_payload S r st
       ''Public endpoint reached. If Redis is unavailable and the policy is fail-open, requests continue.''"

definition demo_protected :: "settings \<Rightarrow> http_request \<Rightarrow> route_state \<Rightarrow> endpoint_payload" where
  "demo_protected S r st =
     build_demo_payload S r st
       ''Protected endpoint reached. In fail-closed mode the limiter blocks when Redis is unavailable.''"

definition demo_user :: "settings \<Rightarrow> string \<Rightarrow> http_request \<Rightarrow> route_state \<Rightarrow> endpoint_payload" where
  "demo_user S user_id r st =
     build_demo_payload S r st
       (''User-scoped endpoint reached for '' @ user_id @ ''. User-specific or composite policies take priority.'')"

definition auth_session :: "settings \<Rightarrow> http_request \<Rightarrow> route_state \<Rightarrow> endpoint_payload" where
  "auth_session S r st = build_service_payload S r st ''auth'' ''create-session''"

definition payments_authorize :: "settings \<Rightarrow> http_request \<Rightarrow> route_state \<Rightarrow> endpoint_payload" where
  "payments_authorize S r st = build_service_payload S r st ''payments'' ''authorize-charge''"

definition search_query :: "settings \<Rightarrow> http_request \<Rightarrow> route_state \<Rightarrow> endpoint_payload" where
  "search_query S r st = build_service_payload S r st ''search'' ''query-index''"

text \<open>The body of an endpoint by its name in the routing table.\<close>

definition endpoint_body :: "settings \<Rightarrow> string \<Rightarrow> http_request \<Rightarrow> route_state \<Rightarrow> endpoint_payload option" where
  "endpoint_body S name r st =
     (if name = ''demo_public'' then Some (demo_public S r st)
      else if name = ''demo_protected'' then Some (demo_protected S r st)
      else if name = ''demo_user'' then map_option (\<lambda>user_id. demo_user S user_id r st) (req_path_params r ''user_id'')
      else if name = ''auth_session'' then Some (auth_session S r st)
      else if name = ''payments_authorize'' then Some (payments_authorize S r st)
      else if name = ''search_query'' then Some (search_query S r st)
      else None)"

lemmas endpoint_defs =
  demo_public_def demo_protected_def demo_user_def auth_session_def payments_authorize_def search_query_def
  build_demo_payload_def build_service_payload_def

text \<open>\<open>request.state\<close> is empty when the dependency starts.\<close>

definition limited_endpoint ::
  "('d, 'k) inst \<Rightarrow> string \<Rightarrow> http_request \<Rightarrow> ('d, 'k) world \<Rightarrow>
   (app_error + endpoint_payload \<times> (string \<rightharpoonup> string)) \<times> ('d, 'k) world" where
  "limited_endpoint I name r w =
     (case enforce_rate_limit I r fresh_route_state w of
        (Inl e, w1) \<Rightarrow> (Inl e, w1)
      | (Inr st, w1) \<Rightarrow>
          ((case endpoint_body (i_settings I) name r st of
              None \<Rightarrow> Inl (HTTPException 422 ''missing path parameter'' [])
            | Some body \<Rightarrow> Inr (body, rt_headers st)), w1))"

text \<open>\<open>/health\<close> answers with the health of the instance whether its dependencies are up or not.\<close>

definition health :: "settings \<Rightarrow> string + unit \<Rightarrow> string + unit \<Rightarrow> int \<times> health_response" where
  "health S db_ping redis_ping = (200, get_health S db_ping redis_ping)"

section \<open>Lemmas\<close>

text \<open>Two templates that no path matches both.\<close>

fun disjoint_segments :: "string list \<Rightarrow> string list \<Rightarrow> bool" where
  "disjoint_segments [] [] = False"
| "disjoint_segments (s # ss) (t # ts) =
     (param_name s = None \<and> param_name t = None \<and> s \<noteq> t \<or> disjoint_segments ss ts)"
| "disjoint_segments _ _ = True"

lemma match_Cons:
  "match_segments (t # ts) p = Some a \<Longrightarrow>
     \<exists>s ss ps. p = s # ss \<and> match_segments ts ss = Some ps \<and> (param_name t = None \<longrightarrow> t = s)"
  by (cases p) (auto split: option.splits if_splits)

lemma match_Nil: "match_segments [] p = Some a \<Longrightarrow> p = []"
  by (cases p) simp_all

lemma disjoint_match: "disjoint_segments ss ts \<Longrightarrow> match_segments ss p = Some a \<Longrightarrow> match_segments ts p = Some b \<Longrightarrow> False"
proof (induction ss ts arbitrary: p a b rule: disjoint_segments.induct)
  case (2 s ss t ts)
  from match_Cons [OF 2(3)] match_Cons [OF 2(4)] 2(1,2) show ?case by fastforce
qed (auto dest!: match_Cons match_Nil)

definition conflict :: "route \<Rightarrow> route \<Rightarrow> bool" where
  "conflict a b \<longleftrightarrow> ep_method a = ep_method b \<and> \<not> disjoint_segments (segments (ep_path a)) (segments (ep_path b))"

fun conflict_free :: "route list \<Rightarrow> bool" where
  "conflict_free [] = True"
| "conflict_free (r # rs) = (list_all (\<lambda>q. \<not> conflict r q) rs \<and> conflict_free rs)"

lemma api_conflict_free: "conflict_free api_router"
  by code_simp

lemma find_route_sound:
  "find_route rs m p = Some (r, ps) \<Longrightarrow> r \<in> set rs \<and> ep_method r = m \<and> match_path (ep_path r) p = Some ps"
  by (induction rs) (auto split: option.splits if_splits)

lemma find_route_complete:
  "conflict_free rs \<Longrightarrow> r \<in> set rs \<Longrightarrow> match_path (ep_path r) p = Some ps \<Longrightarrow> find_route rs (ep_method r) p = Some (r, ps)"
proof (induction rs)
  case (Cons q rs)
  show ?case
  proof (cases "q = r")
    case False
    then have r: "r \<in> set rs" using Cons.prems(2) by simp
    with Cons.prems(1) have "\<not> conflict q r" by (simp add: list_all_iff)
    then have "match_path (ep_path q) p = None \<or> ep_method q \<noteq> ep_method r"
      using disjoint_match Cons.prems(3) by (cases "match_path (ep_path q) p") (auto simp: conflict_def match_path_def)
    with Cons.IH Cons.prems r show ?thesis by (auto split: option.split)
  qed (use Cons.prems(3) in simp)
qed simp

lemma match_params: "match_segments ts ss = Some ps \<Longrightarrow> map fst ps = List.map_filter param_name ts"
  by (induction ts ss arbitrary: ps rule: match_segments.induct) (auto simp: List.map_filter_simps split: option.splits if_splits)

lemma limited_routes:
  assumes "r \<in> set api_router" "ep_guard r = RateLimit"
  shows "ep_endpoint r \<in> {''demo_public'', ''demo_protected'', ''demo_user'', ''auth_session'', ''payments_authorize'', ''search_query''}"
    "ep_endpoint r = ''demo_user'' \<Longrightarrow> ''user_id'' \<in> set (List.map_filter param_name (segments (ep_path r)))"
proof -
  have "list_all (\<lambda>r. ep_guard r = RateLimit \<longrightarrow>
      ep_endpoint r \<in> {''demo_public'', ''demo_protected'', ''demo_user'', ''auth_session'', ''payments_authorize'', ''search_query''} \<and>
      (ep_endpoint r = ''demo_user'' \<longrightarrow> ''user_id'' \<in> set (List.map_filter param_name (segments (ep_path r))))) api_router"
    by code_simp
  with assms show "ep_endpoint r \<in> {''demo_public'', ''demo_protected'', ''demo_user'', ''auth_session'', ''payments_authorize'', ''search_query''}"
    "ep_endpoint r = ''demo_user'' \<Longrightarrow> ''user_id'' \<in> set (List.map_filter param_name (segments (ep_path r)))"
    unfolding list_all_iff by blast+
qed

section \<open>Properties\<close>

text \<open>
  Routing is unambiguous: whichever route of the table matches a path under its method is
  the one that answers, so no endpoint hides another and the order of the routers does not
  matter; and everything but health and metrics is behind a token or the limiter.
\<close>

theorem routing_unambiguous:
  "(\<forall>r\<in>set api_router. \<forall>path ps. match_path (ep_path r) path = Some ps \<longrightarrow> find_route api_router (ep_method r) path = Some (r, ps)) \<and>
   (\<forall>r\<in>set api_router. ep_guard r = Unguarded \<longleftrightarrow> ep_path r \<in> {''/health'', ''/metrics''}) \<and>
   (\<forall>r\<in>set api_router. ep_guard r = AdminToken \<longleftrightarrow> starts_with ''/admin/'' (ep_path r)) \<and>
   (\<forall>r\<in>set api_router. ep_guard r = ServiceToken \<longleftrightarrow> starts_with ''/internal/'' (ep_path r))"
  (is "_ \<and> ?guards")
proof -
  have "list_all (\<lambda>r. (ep_guard r = Unguarded \<longleftrightarrow> ep_path r \<in> {''/health'', ''/metrics''}) \<and>
      (ep_guard r = AdminToken \<longleftrightarrow> starts_with ''/admin/'' (ep_path r)) \<and>
      (ep_guard r = ServiceToken \<longleftrightarrow> starts_with ''/internal/'' (ep_path r))) api_router" by code_simp
  then have ?guards unfolding list_all_iff by blast
  with find_route_complete [OF api_conflict_free] show ?thesis by blast
qed

theorem routing_unambiguous_witness:
  "find_route api_router ''GET'' ''/demo/user/alice'' = Some (Route ''GET'' ''/demo/user/{user_id}'' RateLimit ''demo_user'', [(''user_id'', ''alice'')])"
proof -
  let ?r = "Route ''GET'' ''/demo/user/{user_id}'' RateLimit ''demo_user''"
  have "?r \<in> set api_router" by (simp add: api_router_def demo_router_def)
  moreover have "match_path (ep_path ?r) ''/demo/user/alice'' = Some [(''user_id'', ''alice'')]" by code_simp
  ultimately have "find_route api_router (ep_method ?r) ''/demo/user/alice'' = Some (?r, [(''user_id'', ''alice'')])"
    using routing_unambiguous by blast
  then show ?thesis by (simp add: Route_def)
qed

text \<open>
  C34. What a limited endpoint tells its caller is what the limiter decided: the body names the
  policy and carries the headers of the decision, which are also on the response; without a
  policy it carries neither; a refused request gets the 429 of the guard and no body.
\<close>

theorem endpoint_reports_decision:
  assumes "r \<in> set api_router" "ep_guard r = RateLimit" "match_path (ep_path r) path = Some ps"
    and "routed_request (ep_method r) path hs client = Some (q, h)"
  shows "q = r \<and>
    (case evaluate I (build_request_identity h) w of
       (Inl e, w') \<Rightarrow> limited_endpoint I (ep_endpoint r) h w = (Inl e, w')
     | (Inr None, w') \<Rightarrow>
         \<exists>b. limited_endpoint I (ep_endpoint r) h w = (Inr (b, Map.empty), w') \<and> pl_policy b = None \<and> pl_decision b = None
     | (Inr (Some (d, p)), w') \<Rightarrow>
         if dc_allowed d
         then \<exists>b. limited_endpoint I (ep_endpoint r) h w = (Inr (b, map_of (headers d)), w') \<and> pl_policy b = Some p \<and>
           pl_decision b = Some (headers d) \<and> pl_route b = ep_path r \<and> pl_instance b = set_app_instance_name (i_settings I)
         else limited_endpoint I (ep_endpoint r) h w = (Inl (HTTPException 429 (refusal_detail d) (headers d)), w'))"
proof -
  have "find_route api_router (ep_method r) path = Some (r, ps)"
    by (rule find_route_complete [OF api_conflict_free assms(1,3)])
  then have h: "q = r" "h = \<lparr>req_route_path = Some (ep_path r), req_url_path = path, req_headers = hs, req_path_params = map_of ps, req_client_host = client\<rparr>"
    using assms(4) by (auto simp: routed_request_def)
  have user: "map_of ps ''user_id'' \<noteq> None" if "ep_endpoint r = ''demo_user''"
    using limited_routes(2) [OF assms(1,2) that] match_params [of "segments (ep_path r)" "segments path" ps] assms(3)
    by (simp add: match_path_def map_of_eq_None_iff flip: set_map)
  have body: "\<exists>b. endpoint_body S (ep_endpoint r) h st = Some b \<and> pl_policy b = rt_policy st \<and> pl_decision b = map_option headers (rt_decision st) \<and>
      pl_route b = ep_path r \<and> pl_instance b = set_app_instance_name S" for S st
    using limited_routes(1) [OF assms(1,2)] user unfolding h(2)
    by (elim insertE emptyE) (auto simp: endpoint_body_def endpoint_defs route_template_def)
  have hs: "fold (\<lambda>(n, v) m. m(n \<mapsto> v)) (headers d) Map.empty = map_of (headers d)" for d
    by (rule ext) (simp add: headers_def)
  obtain x w1 where run: "evaluate I (build_request_identity h) w = (x, w1)" by (rule prod.exhaust)
  show ?thesis
  proof (cases x)
    case (Inr o')
    note defs = h(1) run Inr limited_endpoint_def enforce_rate_limit_def fresh_route_state_def Let_def hs
    show ?thesis
    proof (cases o')
      case None
      with body [of "i_settings I" fresh_route_state] show ?thesis by (auto simp: defs)
    next
      case (Some dp)
      obtain d p where "dp = (d, p)" by (cases dp)
      with Some body [of "i_settings I" "\<lparr>rt_headers = map_of (headers d), rt_decision = Some d, rt_policy = Some p\<rparr>"]
      show ?thesis by (auto simp: defs)
    qed
  qed (simp add: h(1) run limited_endpoint_def enforce_rate_limit_def)
qed

definition protected_route :: route where
  "protected_route = Route ''GET'' ''/demo/protected'' RateLimit ''demo_protected''"

definition protected_request :: http_request where
  "protected_request = \<lparr>req_route_path = Some ''/demo/protected'', req_url_path = ''/demo/protected'', req_headers = Map.empty,
     req_path_params = Map.empty, req_client_host = None\<rparr>"

lemma protected_routed:
  "routed_request ''GET'' ''/demo/protected'' Map.empty None = Some (protected_route, protected_request)"
proof -
  have "find_route api_router ''GET'' ''/demo/protected'' = Some (protected_route, [])" by code_simp
  then show ?thesis by (simp add: routed_request_def protected_route_def Route_def protected_request_def)
qed

theorem endpoint_reports_decision_witness:
  "case evaluate demo_inst (build_request_identity protected_request) demo_world of
     (Inl e, w') \<Rightarrow> limited_endpoint demo_inst ''demo_protected'' protected_request demo_world = (Inl e, w')
   | (Inr None, w') \<Rightarrow> \<exists>b. limited_endpoint demo_inst ''demo_protected'' protected_request demo_world = (Inr (b, Map.empty), w')
   | (Inr (Some (d, p)), w') \<Rightarrow>
       snd (limited_endpoint demo_inst ''demo_protected'' protected_request demo_world) = w' \<and>
       (dc_allowed d \<longrightarrow> (\<exists>b hs. fst (limited_endpoint demo_inst ''demo_protected'' protected_request demo_world) = Inr (b, hs) \<and>
          pl_policy b = Some p \<and> pl_route b = ''/demo/protected''))"
proof -
  have "protected_route \<in> set api_router" "match_path (ep_path protected_route) ''/demo/protected'' = Some []" "ep_guard protected_route = RateLimit"
    and fields: "ep_method protected_route = ''GET''" "ep_endpoint protected_route = ''demo_protected''" "ep_path protected_route = ''/demo/protected''"
    by (simp add: api_router_def demo_router_def protected_route_def, code_simp, simp_all add: protected_route_def Route_def)
  from endpoint_reports_decision [OF this(1,3,2), unfolded fields, OF protected_routed, where I = demo_inst and w = demo_world]
  show ?thesis by (auto split: prod.splits sum.splits option.splits if_splits)
qed

end
