(* ===== verification/Metrics.thy ===== *)
theory Metrics
  imports Gateway
begin

text \<open>
  The metrics of an instance (\<open>app/core/metrics.py\<close>): the families it declares, what the
  registry holds after a run of events, and what every operation of the gateway leaves in
  it. A sample is a tuple of label values with its value; the text format around the samples
  is that of \<open>prometheus_client\<close>.
\<close>

section \<open>The declared families\<close>

text \<open>The kind of a family; a histogram has the upper bounds of its buckets.\<close>

datatype metric_kind = CounterKind | HistogramKind "rat list"

record metric_family =
  mf_name :: string
  mf_help :: string
  mf_labels :: "string list"
  mf_kind :: metric_kind

definition metric_prefix :: string where
  "metric_prefix = ''distributed_rate_limiter_''"

definition family :: "string \<Rightarrow> string \<Rightarrow> string list \<Rightarrow> metric_kind \<Rightarrow> metric_family" where
  "family n h ls k = \<lparr>mf_name = metric_prefix @ n, mf_help = h, mf_labels = ls, mf_kind = k\<rparr>"

definition metric_families :: "metric_family list" where
  "metric_families =
     [family ''http_requests_total'' ''Total HTTP requests handled by the service.'' [''method'', ''route'', ''status_code''] CounterKind,
      family ''allowed_requests_total'' ''Requests allowed by the rate limiter.'' [''algorithm'', ''selector_kind''] CounterKind,
      family ''blocked_requests_total'' ''Requests blocked by the rate limiter.'' [''algorithm'', ''selector_kind''] CounterKind,
      family ''request_latency_seconds'' ''Request latency across all HTTP handlers.'' [''method'', ''route'', ''status_code'']
        (HistogramKind [1/1000, 5/1000, 1/100, 25/1000, 5/100, 1/10, 2/10, 5/10, 1, 25/10, 5]),
      family ''policy_cache_hits_total'' ''Policy cache hits served from Redis.'' [] CounterKind,
      family ''policy_cache_misses_total'' ''Policy cache misses that required PostgreSQL access.'' [] CounterKind,
      family ''redis_errors_total'' ''Redis errors encountered by the service.'' [''operation''] CounterKind,
      family ''redis_retries_total'' ''Redis retry attempts triggered after transient failures.'' [''operation''] CounterKind,
      family ''local_failover_total'' ''Requests evaluated by the local in-memory fallback limiter.'' [''algorithm'', ''selector_kind'']
        CounterKind]"

text \<open>An event that the declared families take: \<open>labels\<close> raises for any other number of labels.\<close>

fun registered :: "event \<Rightarrow> bool" where
  "registered (Counter n ls) =
     list_ex (\<lambda>m. mf_name m = metric_prefix @ n \<and> mf_kind m = CounterKind \<and> length (mf_labels m) = length ls) metric_families"
| "registered (Observed n ls x) =
     list_ex (\<lambda>m. mf_name m = metric_prefix @ n \<and> mf_kind m \<noteq> CounterKind \<and> length (mf_labels m) = length ls) metric_families"
| "registered _ = True"

section \<open>The registry\<close>

fun increments :: "string \<Rightarrow> event \<Rightarrow> string list option" where
  "increments n (Counter m ls) = (if m = n then Some ls else None)"
| "increments n _ = None"

fun observes :: "string \<Rightarrow> event \<Rightarrow> (string list \<times> rat) option" where
  "observes n (Observed m ls x) = (if m = n then Some (ls, x) else None)"
| "observes n _ = None"

text \<open>
  The samples of a counter: one for each tuple of labels that was used; a counter without
  labels has its sample from the start.
\<close>

definition counter_samples :: "string list \<Rightarrow> string list list \<Rightarrow> (string list \<times> int) list" where
  "counter_samples labels incs =
     map (\<lambda>ls. (ls, int (count_list incs ls))) (remdups (if labels = [] then [[]] else incs))"

text \<open>The samples of a histogram: for each tuple the cumulative buckets, the count and the sum.\<close>

definition histogram_samples ::
  "rat list \<Rightarrow> (string list \<times> rat) list \<Rightarrow> (string list \<times> (rat \<times> int) list \<times> int \<times> rat) list" where
  "histogram_samples bounds obs =
     map (\<lambda>ls. let xs = map snd (filter (\<lambda>o'. fst o' = ls) obs)
               in (ls, map (\<lambda>b. (b, int (length (filter (\<lambda>x. x \<le> b) xs)))) bounds, int (length xs),
                   fold (\<lambda>x s. fl (s + x)) xs 0))
         (remdups (map fst obs))"

datatype family_samples =
    CounterSamples "(string list \<times> int) list"
  | HistogramSamples "(string list \<times> (rat \<times> int) list \<times> int \<times> rat) list"

definition family_render :: "event list \<Rightarrow> metric_family \<Rightarrow> string \<times> family_samples" where
  "family_render es m =
     (let n = drop (length metric_prefix) (mf_name m)
      in (mf_name m,
          case mf_kind m of
            CounterKind \<Rightarrow> CounterSamples (counter_samples (mf_labels m) (List.map_filter (increments n) es))
          | HistogramKind bounds \<Rightarrow> HistogramSamples (histogram_samples bounds (List.map_filter (observes n) es))))"

definition render_metrics :: "event list \<Rightarrow> (string \<times> family_samples) list" where
  "render_metrics es = map (family_render es) metric_families"

section \<open>Lemmas: the registry\<close>

lemma family_simps [simp]:
  "mf_name (family n h ls k) = metric_prefix @ n" "mf_labels (family n h ls k) = ls" "mf_kind (family n h ls k) = k"
  by (simp_all add: family_def)

lemma registered_marks [simp]:
  "registered (mark_rate_limit_allowed a k)" "registered (mark_rate_limit_blocked a k)" "registered mark_policy_cache_hit"
  "registered mark_policy_cache_miss" "registered (mark_redis_error op)" "registered (mark_redis_retry op)"
  "registered (mark_local_failover a k)"
  by (simp_all add: mark_defs metric_families_def)

lemma registered_http: "list_all registered (observe_http_request m r s x)"
  by (simp add: observe_http_request_def metric_families_def)

lemma counter_samples_total:
  assumes "labels \<noteq> []"
  shows "sum_list (map snd (counter_samples labels incs)) = int (length incs)"
proof -
  have "sum_list (map snd (counter_samples labels incs)) = (\<Sum>ls\<in>set incs. int (count_list incs ls))"
    using assms by (simp add: counter_samples_def o_def sum_list_distinct_conv_sum_set)
  also have "\<dots> = int (length incs)" by (simp flip: of_nat_sum add: sum_count_set)
  finally show ?thesis .
qed

section \<open>What the operations leave behind\<close>

text \<open>
  The events an operation may leave: such that the registry takes, and not the ones of the
  middleware. \<open>reads\<close> also leaves the database alone.
\<close>

definition inner :: "event \<Rightarrow> bool" where
  "inner e \<longleftrightarrow> registered e \<and> increments ''http_requests_total'' e = None"

definition logged :: "('d, 'k) world \<Rightarrow> ('d, 'k) world \<Rightarrow> bool" where
  "logged w w' \<longleftrightarrow> (\<exists>es. w_events w' = w_events w @ es \<and> list_all inner es)"

definition reads :: "('d, 'k) world \<Rightarrow> ('d, 'k) world \<Rightarrow> bool" where
  "reads w w' \<longleftrightarrow> logged w w' \<and> w_db w' = w_db w"

lemma inner_simps [simp]:
  "inner (mark_rate_limit_allowed a k)" "inner (mark_rate_limit_blocked a k)" "inner mark_policy_cache_hit"
  "inner mark_policy_cache_miss" "inner (mark_redis_error op)" "inner (mark_redis_retry op)"
  "inner (mark_local_failover a k)" "inner (Log l n)" "inner (Published c t)" "inner (Slept x)"
  by (simp_all add: inner_def) (simp_all add: mark_defs)

named_theorems frame_intros

lemma logged_refl [frame_intros]: "logged w w"
  by (simp add: logged_def)

lemma logged_emit [frame_intros]: "logged w w' \<Longrightarrow> list_all inner es \<Longrightarrow> logged w (emit es w')"
  by (auto simp: logged_def)

lemma logged_same: "logged w w' \<Longrightarrow> w_events w'' = w_events w' \<Longrightarrow> logged w w''"
  by (simp add: logged_def)

lemma reads_refl [frame_intros]: "reads w w"
  by (simp add: reads_def logged_refl)

lemma reads_emit [frame_intros]: "reads w w' \<Longrightarrow> list_all inner es \<Longrightarrow> reads w (emit es w')"
  by (simp add: reads_def logged_emit)

lemma reads_same: "reads w w' \<Longrightarrow> w_events w'' = w_events w' \<Longrightarrow> w_db w'' = w_db w' \<Longrightarrow> reads w w''"
  by (simp add: reads_def logged_def)

lemma reads_trans: "reads a b \<Longrightarrow> reads b c \<Longrightarrow> reads a c"
  by (fastforce simp: reads_def logged_def)

lemma reads_call [frame_intros]: "reads w w' \<Longrightarrow> reads w (snd (redis_call I op w'))"
  by (erule reads_same) simp_all

lemma reads_snapshot [frame_intros]:
  "reads w w' \<Longrightarrow> reads w (snapshot_set I ps w')" "reads w w' \<Longrightarrow> reads w (snd (get_fresh I ttl w'))"
  "reads w w' \<Longrightarrow> reads w (snapshot_clear w')"
  by (erule reads_same; simp)+

lemma reads_clock [frame_intros]:
  "reads w w' \<Longrightarrow> reads w (snd (read_time I w'))" "reads w w' \<Longrightarrow> reads w (snd (fresh_hex I w'))"
  by (erule reads_same; simp add: read_time_def fresh_hex_def)+

lemma reads_limiter [frame_intros]: "reads w w' \<Longrightarrow> reads w (w'\<lparr>w_limiter := L\<rparr>)"
  by (erule reads_same) simp_all

text \<open>The world after a call whose result is known, from the world after the call.\<close>

lemma reads_result: "f w' = (r, w'') \<Longrightarrow> reads w (snd (f w')) \<Longrightarrow> reads w w''"
  by simp

lemma reads_list_cached: "reads w (snd (list_active_policies_cached I w))"
proof -
  obtain r w1 where get: "redis_get I (policy_cache_key (i_settings I)) w = (r, w1)" by (rule prod.exhaust)
  have 1: "reads w w1" using get unfolding redis_get_def by (rule reads_result) (rule reads_call [OF reads_refl])
  have set: "reads w (snd (redis_setex I k n v w'))" if "reads w w'" for k n v w'
    unfolding redis_setex_def by (rule reads_call [OF that])
  have load: "reads w (snd (load_from_database I w'))" if "reads w w'" for w'
    using that by (simp add: load_from_database_def reads_snapshot split: sum.split)
  note intros = frame_intros 1
  show ?thesis
  proof (cases r)
    case (Inl e)
    let ?w2 = "emit [mark_redis_error ''policy_cache_get'', Log WARNING ''redis_fallback''] w1"
    obtain o' w3 where fresh: "get_fresh I (set_local_policy_cache_ttl_seconds (i_settings I)) ?w2 = (o', w3)" by (rule prod.exhaust)
    then have "reads w w3" by (rule reads_result) (intro intros; simp)
    then show ?thesis by (simp add: list_active_policies_cached_def get Inl fresh load split: option.split)
  next
    case (Inr o')
    show ?thesis
    proof (cases "o' = None \<or> o' = Some []")
      case True
      let ?w2 = "emit [mark_policy_cache_miss] w1"
      have 2: "reads w ?w2" by (intro intros) simp
      have 3: "reads w (emit [Log INFO ''policy_load''] (snapshot_set I ps
          (case redis_setex I k n v ?w2 of
             (Inl _, w3) \<Rightarrow> emit [mark_redis_error ''policy_cache_set'', Log WARNING ''redis_fallback''] w3
           | (Inr _, w3) \<Rightarrow> w3)))" for ps k n v
      proof -
        obtain r3 w3 where call: "redis_setex I k n v ?w2 = (r3, w3)" by (rule prod.exhaust)
        then have "reads w w3" by (rule reads_result) (rule set [OF 2])
        then show ?thesis by (cases r3) (simp_all add: call frame_intros)
      qed
      from 2 3 True show ?thesis
        by (elim disjE) (simp_all add: list_active_policies_cached_def get Inr Let_def split: sum.split)
    next
      case False
      then obtain c cs where "o' = Some (c # cs)" by (cases o'; cases "the o'") auto
      then show ?thesis
        by (simp add: list_active_policies_cached_def get Inr Let_def intros split: sum.split)
    qed
  qed
qed

lemma reads_resolve: "reads w (snd (resolve_policy I i w))"
proof -
  obtain r w1 where "list_active_policies_cached I w = (r, w1)" by (rule prod.exhaust)
  with reads_list_cached [of w I] show ?thesis by (simp add: resolve_policy_def split: sum.split)
qed

lemma reads_script: "reads w w' \<Longrightarrow> reads w (snd (eval_script I script w'))"
  by (simp add: eval_script_def case_prod_beta reads_call)

lemma reads_run_policy:
  assumes "reads w w'"
  shows "reads w (snd (run_policy I p i w'))"
proof -
  have "reads w (snd (fresh_hex I w'))" by (rule reads_clock [OF assms])
  with assms show ?thesis by (simp add: run_policy_def Let_def case_prod_beta reads_script split: sum.split)
qed

lemma reads_recover:
  assumes "reads w w'"
  shows "reads w (snd (recover_after_redis_failure I p i w'))"
proof -
  have clock: "reads w (snd (read_time I w''))" if "reads w w''" for w'' by (rule reads_clock [OF that])
  obtain t w1 where time: "read_time I w' = (t, w1)" by (rule prod.exhaust)
  then have 1: "reads w w1" by (rule reads_result) (rule clock [OF assms])
  have "reads w (snd (build_degraded_decision I p (emit [Log WARNING ''redis_fallback''] w')))"
    using clock [of "emit [Log WARNING ''redis_fallback''] w'"] reads_emit [OF assms]
    by (simp add: build_degraded_decision_def case_prod_beta Let_def)
  then show ?thesis
    by (simp add: recover_after_redis_failure_def time case_prod_beta frame_intros 1 split: sum.split prod.split)
qed

lemma reads_retry: "list_all inner (retry_events S)"
  by (simp add: retry_events_def)

lemma reads_attempts: "reads w w' \<Longrightarrow> reads w (snd (attempt_loop I p i n w'))"
proof (induction n arbitrary: w')
  case (0 w')
  obtain r w1 where run: "run_policy I p i w' = (r, w1)" by (rule prod.exhaust)
  then have "reads w w1" by (rule reads_result) (rule reads_run_policy [OF 0])
  then show ?case
    by (simp add: attempt_loop.simps [of I p i 0 w'] run reads_recover reads_emit Let_def split: sum.split run_error.split)
next
  case (Suc n w')
  obtain r w1 where run: "run_policy I p i w' = (r, w1)" by (rule prod.exhaust)
  then have 1: "reads w w1" by (rule reads_result) (rule reads_run_policy [OF Suc.prems])
  then have "reads w (emit (retry_events (i_settings I)) (emit [mark_redis_error ''rate_limit_apply''] w1))"
    by (intro reads_emit) (simp_all add: reads_retry)
  with 1 Suc.IH show ?case
    by (simp add: attempt_loop.simps [of I p i "Suc n" w'] run Let_def split: sum.split run_error.split)
qed

lemma reads_evaluate: "reads w (snd (evaluate I i w))"
proof -
  obtain r w1 where resolve: "resolve_policy I i w = (r, w1)" by (rule prod.exhaust)
  then have 1: "reads w w1" by (rule reads_result) (rule reads_resolve)
  have "reads w (snd (attempt_loop I p i n w1))" for p n by (rule reads_attempts [OF 1])
  moreover have "list_all inner (verdict_events p d)" for p d by (simp add: verdict_events_def)
  ultimately show ?thesis
    using 1 by (simp add: evaluate_def resolve case_prod_beta reads_emit split: sum.split option.split prod.split)
qed

lemma logged_call: "logged w w' \<Longrightarrow> logged w (snd (redis_call I op w'))"
  by (simp add: logged_def)

lemma logged_invalidate:
  assumes "logged w w'"
  shows "logged w (invalidate_policy_cache I reason pid w')"
proof -
  have "logged w (snapshot_clear w')" by (rule logged_same [OF assms]) simp
  then have del: "logged w (snd (redis_delete I k (snapshot_clear w')))" for k unfolding redis_delete_def by (rule logged_call)
  obtain r w1 where d: "redis_delete I (policy_cache_key (i_settings I)) (snapshot_clear w') = (r, w1)" by (rule prod.exhaust)
  with del have 1: "logged w w1" by (metis snd_conv)
  have pub: "logged w (snd (redis_publish I c m w1))" for c m
    using logged_call [OF 1] by (auto simp: redis_publish_def case_prod_beta intro!: logged_emit)
  obtain r2 w2 where p: "redis_publish I (set_policy_refresh_channel (i_settings I)) (refresh_payload reason pid) w1 = (r2, w2)"
    by (rule prod.exhaust)
  with pub have 2: "logged w w2" by (metis snd_conv)
  show ?thesis
    using 1 2 by (simp add: invalidate_policy_cache_def Let_def d p invalidate_failed_def logged_emit split: sum.split)
qed

lemma logged_db: "logged w w' \<Longrightarrow> logged w (w'\<lparr>w_db := d\<rparr>)"
  by (rule logged_same) simp_all

lemmas logged_writes = logged_invalidate [OF logged_db [OF logged_refl]]

lemma logged_create: "logged w (snd (create_policy I b w))"
  by (simp add: create_policy_def logged_writes logged_refl split: sum.split prod.split)

lemma logged_update: "logged w (snd (update_policy I i u w))"
  by (simp add: update_policy_def Let_def logged_writes logged_refl split: sum.split prod.split option.split)

lemma logged_delete: "logged w (snd (delete_policy I i w))"
  by (simp add: delete_policy_def logged_writes logged_refl split: sum.split option.split)

lemma logged_upsert: "logged w (snd (upsert_policy_by_name I b w))"
proof -
  have "logged w w1" if "create_policy I b w = (r, w1)" for r w1 using logged_create [of w I b] that by simp
  then show ?thesis
    by (auto simp: upsert_policy_by_name_def Let_def logged_writes logged_refl split: sum.split prod.split list.split)
qed

lemma logged_sync: "logged w (snd (sync_policy_from_config_control I fetch decode respond n e t w))"
proof -
  have "logged w (snd (sync_policy I fetch decode n e t w))"
  proof -
    have "logged w w1" if "upsert_policy_by_name I b w = (r, w1)" for b r w1 using logged_upsert [of w I b] that by simp
    then show ?thesis
      by (auto simp: sync_policy_def Let_def logged_refl split: sum.split prod.split option.split json.split intro!: logged_emit)
  qed
  then show ?thesis
    by (auto simp: sync_policy_from_config_control_def split: sum.split prod.split app_error.split)
qed

lemma logged_admin: "logged w (snd (admin_handler I call w))"
proof (cases call)
  case (PostPolicy b) then show ?thesis using logged_create [of w I b] by (simp add: case_prod_beta)
next
  case (PutPolicy i u) then show ?thesis using logged_update [of w I i u] by (simp add: case_prod_beta)
next
  case (DeletePolicy i) then show ?thesis using logged_delete [of w I i] by (simp add: case_prod_beta)
qed (simp_all add: logged_refl)

end
