(* ===== verification/Application.thy ===== *)
theory Application
  imports Routes Metrics
begin

text \<open>
  A whole instance as its clients see it: \<open>create_app\<close> (\<open>app/main.py\<close>) puts the observing
  middleware around the routed endpoints, with the guards and services of the other theories
  behind them. What FastAPI does between the socket and an endpoint is a parameter: whether a
  body can be read, how it and the parameters are validated, and what is answered when no
  endpoint takes the request.
\<close>

section \<open>Requests and responses\<close>

record raw_request =
  rq_method :: string
  rq_path :: string
  rq_headers :: "string \<rightharpoonup> string"
  rq_client :: "string option"
  rq_body :: string

datatype response_body =
    HealthBody health_response
  | MetricsBody "(string \<times> family_samples) list"
  | EndpointBody endpoint_payload
  | AdminBody admin_response
  | EvaluationBody evaluation_response
  | SyncBody sync_response
  | DetailBody string

record http_response =
  rs_status :: int
  rs_headers :: "string \<rightharpoonup> string"
  rs_body :: response_body

text \<open>
  The framework. A body that cannot be read is refused before any dependency runs, with a status and a detail; the validation
  of parameters and bodies comes after the guards, and its errors are a text. A request that
  no endpoint takes is answered with a status and a detail, and may have matched a template
  under another method.
\<close>

record framework =
  fw_malformed :: "route \<Rightarrow> raw_request \<Rightarrow> (int \<times> string) option"
  fw_policy :: "raw_request \<Rightarrow> string + policy_base"
  fw_update :: "raw_request \<Rightarrow> string + policy_update"
  fw_active_only :: "raw_request \<Rightarrow> string + bool"
  fw_uuid :: "string option \<Rightarrow> string + uuid"
  fw_identity :: "raw_request \<Rightarrow> string + request_identity"
  fw_sync :: "raw_request \<Rightarrow> string + string option \<times> string option \<times> string option"
  fw_unrouted :: "raw_request \<Rightarrow> string option \<times> int \<times> string"

text \<open>The services behind an instance: what the pings and the ConfigControl
  service answer, and how pydantic takes that answer and what the endpoint repeats of it.\<close>

record backends =
  be_db_ping :: "string + unit"
  be_redis_ping :: "string + unit"
  be_fetch :: "config_request \<Rightarrow> string + json"
  be_decode :: "(string \<times> json) list \<Rightarrow> string + policy_base"
  be_respond :: "json \<Rightarrow> json \<Rightarrow> json \<Rightarrow> json \<Rightarrow> string + string \<times> string \<times> string \<times> int"

section \<open>The endpoints\<close>

definition admin_call_of :: "framework \<Rightarrow> string \<Rightarrow> http_request \<Rightarrow> raw_request \<Rightarrow> string + admin_call" where
  "admin_call_of fw name r rq =
     (if name = ''create_policy'' then map_sum id PostPolicy (fw_policy fw rq)
      else if name = ''list_policies'' then map_sum id ListPolicies (fw_active_only fw rq)
      else
        (case fw_uuid fw (req_path_params r ''policy_id'') of
           Inl e \<Rightarrow> Inl e
         | Inr i \<Rightarrow>
             if name = ''get_policy'' then Inr (GetPolicy i)
             else if name = ''update_policy'' then map_sum id (PutPolicy i) (fw_update fw rq)
             else Inr (DeletePolicy i)))"

definition admin_status :: "admin_response \<Rightarrow> int" where
  "admin_status a = (case a of PolicyBody s _ \<Rightarrow> s | PolicyListBody s _ _ \<Rightarrow> s | NoContent \<Rightarrow> 204)"

definition ok_response :: "response_body \<Rightarrow> http_response" where
  "ok_response b = \<lparr>rs_status = 200, rs_headers = Map.empty, rs_body = b\<rparr>"

definition unprocessable :: "string \<Rightarrow> app_error" where
  "unprocessable detail = HTTPException 422 detail []"

definition internal_endpoint ::
  "('d, 'k) inst \<Rightarrow> framework \<Rightarrow> backends \<Rightarrow> string \<Rightarrow> raw_request \<Rightarrow> ('d, 'k) world \<Rightarrow>
   (app_error + http_response) \<times> ('d, 'k) world" where
  "internal_endpoint I fw be name rq w =
     (if name = ''evaluate_rate_limit'' then
        (case fw_identity fw rq of
           Inl e \<Rightarrow> (Inl (unprocessable e), w)
         | Inr i \<Rightarrow> apfst (map_sum id (\<lambda>b. ok_response (EvaluationBody b))) (evaluate_rate_limit I i w))
      else
        (case fw_sync fw rq of
           Inl e \<Rightarrow> (Inl (unprocessable e), w)
         | Inr (n, e, t) \<Rightarrow>
             apfst (map_sum id (\<lambda>b. ok_response (SyncBody b)))
               (sync_policy_from_config_control I (be_fetch be) (be_decode be) (be_respond be) n e t w)))"

definition admin_endpoint ::
  "('d, 'k) inst \<Rightarrow> framework \<Rightarrow> string \<Rightarrow> http_request \<Rightarrow> raw_request \<Rightarrow> ('d, 'k) world \<Rightarrow>
   (app_error + http_response) \<times> ('d, 'k) world" where
  "admin_endpoint I fw name r rq w =
     (case admin_call_of fw name r rq of
        Inl e \<Rightarrow> (Inl (unprocessable e), w)
      | Inr call \<Rightarrow>
          apfst (map_sum id (\<lambda>a. \<lparr>rs_status = admin_status a, rs_headers = Map.empty, rs_body = AdminBody a\<rparr>))
            (admin_handler I call w))"

definition metrics :: "('d, 'k) world \<Rightarrow> http_response" where
  "metrics w = ok_response (MetricsBody (render_metrics (w_events w)))"

definition endpoint ::
  "('d, 'k) inst \<Rightarrow> framework \<Rightarrow> backends \<Rightarrow> route \<Rightarrow> http_request \<Rightarrow> raw_request \<Rightarrow> ('d, 'k) world \<Rightarrow>
   (app_error + http_response) \<times> ('d, 'k) world" where
  "endpoint I fw be rt r rq w =
     (let S = i_settings I; name = ep_endpoint rt
      in case ep_guard rt of
           AdminToken \<Rightarrow> guarded (require_admin_token S r) (admin_endpoint I fw name r rq) w
         | ServiceToken \<Rightarrow> guarded (require_service_token S r) (internal_endpoint I fw be name rq) w
         | RateLimit \<Rightarrow>
             apfst (map_sum id (\<lambda>(b, hs). \<lparr>rs_status = 200, rs_headers = hs, rs_body = EndpointBody b\<rparr>)) (limited_endpoint I name r w)
         | Unguarded \<Rightarrow>
             (Inr (if name = ''health''
                   then (case health S (be_db_ping be) (be_redis_ping be) of
                           (status, b) \<Rightarrow> \<lparr>rs_status = status, rs_headers = Map.empty, rs_body = HealthBody b\<rparr>)
                   else metrics w), w))"

section \<open>The application\<close>

text \<open>An \<open>HTTPException\<close> becomes a response inside the middleware; other exceptions pass through it.\<close>

definition handle_exception :: "app_error + http_response \<Rightarrow> app_error + http_response" where
  "handle_exception x =
     (case x of
        Inl (HTTPException s detail hs) \<Rightarrow> Inr \<lparr>rs_status = s, rs_headers = map_of hs, rs_body = DetailBody detail\<rparr>
      | _ \<Rightarrow> x)"

definition routed ::
  "('d, 'k) inst \<Rightarrow> framework \<Rightarrow> backends \<Rightarrow> raw_request \<Rightarrow> ('d, 'k) world \<Rightarrow>
   http_request \<times> (app_error + http_response) \<times> ('d, 'k) world" where
  "routed I fw be rq w =
     (case routed_request (rq_method rq) (rq_path rq) (rq_headers rq) (rq_client rq) of
        None \<Rightarrow>
          (case fw_unrouted fw rq of
             (template, status, detail) \<Rightarrow>
               (\<lparr>req_route_path = template, req_url_path = rq_path rq, req_headers = rq_headers rq,
                 req_path_params = Map.empty, req_client_host = rq_client rq\<rparr>,
                Inr \<lparr>rs_status = status, rs_headers = Map.empty, rs_body = DetailBody detail\<rparr>, w))
      | Some (rt, r) \<Rightarrow>
          (r, case fw_malformed fw rt rq of
                Some (status, detail) \<Rightarrow> (handle_exception (Inl (HTTPException status detail [])), w)
              | None \<Rightarrow> apfst handle_exception (endpoint I fw be rt r rq w)))"

text \<open>
  One request: \<open>started\<close> and \<open>ended\<close> are the readings of the performance counter. What leaves the
  middleware as an exception is answered by the server.
\<close>

definition serve ::
  "('d, 'k) inst \<Rightarrow> framework \<Rightarrow> backends \<Rightarrow> raw_request \<Rightarrow> rat \<Rightarrow> rat \<Rightarrow> ('d, 'k) world \<Rightarrow> http_response \<times> ('d, 'k) world" where
  "serve I fw be rq started ended w =
     (case routed I fw be rq w of
        (r, result, w1) \<Rightarrow>
          (case dispatch (i_settings I) (rq_method rq) r started ended (map_sum id (\<lambda>p. (rs_status p, rs_headers p)) result) of
             (Inl e, es) \<Rightarrow>
               (\<lparr>rs_status = 500, rs_headers = Map.empty, rs_body = DetailBody ''Internal Server Error''\<rparr>, emit es w1)
           | (Inr (status, hs), es) \<Rightarrow>
               (\<lparr>rs_status = status, rs_headers = hs,
                 rs_body = (case result of Inr p \<Rightarrow> rs_body p | Inl _ \<Rightarrow> DetailBody [])\<rparr>, emit es w1)))"

text \<open>A sequence of requests with the times they take.\<close>

fun serve_all ::
  "('d, 'k) inst \<Rightarrow> framework \<Rightarrow> backends \<Rightarrow> (raw_request \<times> rat \<times> rat) list \<Rightarrow> ('d, 'k) world \<Rightarrow>
   http_response list \<times> ('d, 'k) world" where
  "serve_all I fw be [] w = ([], w)"
| "serve_all I fw be ((rq, started, ended) # rqs) w =
     (case serve I fw be rq started ended w of
        (p, w1) \<Rightarrow> (case serve_all I fw be rqs w1 of (ps, w2) \<Rightarrow> (p # ps, w2)))"

section \<open>Lemmas\<close>

text \<open>The label of a request: the template it was matched with, or its path.\<close>

definition route_label :: "framework \<Rightarrow> raw_request \<Rightarrow> string" where
  "route_label fw rq =
     (case routed_request (rq_method rq) (rq_path rq) (rq_headers rq) (rq_client rq) of
        None \<Rightarrow> (case fst (fw_unrouted fw rq) of Some template \<Rightarrow> template | None \<Rightarrow> rq_path rq)
      | Some (rt, _) \<Rightarrow> ep_path rt)"

lemma routed_request_route: "routed_request m p hs c = Some (rt, r) \<Longrightarrow> route_template r = ep_path rt"
  by (auto simp: routed_request_def route_template_def split: option.splits)

lemma snd_apfst_simp [simp]: "snd (apfst f x) = snd x" "fst (apfst f x) = f (fst x)"
  by (cases x; simp)+

lemma reads_enforce: "reads w (snd (enforce_rate_limit I r st w))"
proof -
  obtain x w1 where "evaluate I (build_request_identity r) w = (x, w1)" by (rule prod.exhaust)
  with reads_evaluate [of w I "build_request_identity r"] show ?thesis
    by (simp add: enforce_rate_limit_def Let_def split: sum.split option.split prod.split)
qed

lemma reads_limited: "reads w (snd (limited_endpoint I name r w))"
proof -
  obtain x w1 where "enforce_rate_limit I r fresh_route_state w = (x, w1)" by (rule prod.exhaust)
  with reads_enforce [of w I r fresh_route_state] show ?thesis
    by (simp add: limited_endpoint_def split: sum.split)
qed

lemma reads_internal_evaluate: "reads w (snd (evaluate_rate_limit I i w))"
proof -
  obtain x w1 where "evaluate I i w = (x, w1)" by (rule prod.exhaust)
  with reads_evaluate [of w I i] show ?thesis
    by (simp add: evaluate_rate_limit_def split: sum.split option.split prod.split)
qed

lemma logged_internal: "logged w (snd (internal_endpoint I fw be name rq w))"
  using reads_internal_evaluate [of w I] logged_sync [of w I "be_fetch be" "be_decode be" "be_respond be"]
  by (simp add: internal_endpoint_def reads_def logged_refl split: sum.split prod.split)

lemma logged_admin_endpoint: "logged w (snd (admin_endpoint I fw name r rq w))"
  by (simp add: admin_endpoint_def logged_refl logged_admin split: sum.split)

lemma logged_guarded: "logged w (snd (h w)) \<Longrightarrow> logged w (snd (guarded g h w))"
  by (simp add: guarded_def logged_refl split: sum.split)

lemma logged_endpoint: "logged w (snd (endpoint I fw be rt r rq w))"
  using reads_limited [of w I "ep_endpoint rt" r]
  by (cases "ep_guard rt")
    (simp_all add: endpoint_def Let_def logged_refl logged_guarded logged_admin_endpoint logged_internal reads_def)

lemma routed_logged:
  assumes "routed I fw be rq w = (r, result, w1)"
  shows "logged w w1" "route_template r = route_label fw rq"
proof -
  show "logged w w1"
  proof (cases "routed_request (rq_method rq) (rq_path rq) (rq_headers rq) (rq_client rq)")
    case (Some x)
    obtain rt q where x: "x = (rt, q)" by (rule prod.exhaust)
    have "logged w (snd (endpoint I fw be rt q rq w))" by (rule logged_endpoint)
    moreover have "w1 = w \<or> w1 = snd (endpoint I fw be rt q rq w)"
      using assms by (cases "fw_malformed fw rt rq") (auto simp: routed_def Some x apfst_def map_prod_def split: prod.splits)
    ultimately show ?thesis by (auto simp: logged_refl)
  qed (use assms in \<open>simp add: routed_def logged_refl split: prod.splits\<close>)
  show "route_template r = route_label fw rq"
    using assms by (auto simp: routed_def route_label_def route_template_def dest: routed_request_route split: option.splits prod.splits)
qed

lemma serve_observed:
  assumes "serve I fw be rq started ended w = (p, w')"
  shows "\<exists>r result w1 es l n. routed I fw be rq w = (r, result, w1) \<and> logged w w1 \<and> w' = emit es w1 \<and>
    es = observe_http_request (rq_method rq) (route_label fw rq) (rs_status p) (fl (ended - started)) @ [Log l n] \<and>
    rs_status p = (case result of Inl _ \<Rightarrow> 500 | Inr q \<Rightarrow> rs_status q)"
proof -
  obtain r result w1 where routed: "routed I fw be rq w = (r, result, w1)" by (metis prod.exhaust)
  note facts = routed_logged [OF routed]
  show ?thesis
    using assms facts by (cases result) (auto simp: serve_def routed dispatch_def Let_def)
qed

lemma inner_no_http: "list_all inner es \<Longrightarrow> List.map_filter (increments ''http_requests_total'') es = []"
  by (induction es) (simp_all add: List.map_filter_simps inner_def)

lemma map_filter_append: "List.map_filter f (xs @ ys) = List.map_filter f xs @ List.map_filter f ys"
  by (simp add: List.map_filter_def)

text \<open>The labels under which a history of requests and responses is counted.\<close>

definition traffic_labels :: "framework \<Rightarrow> (raw_request \<times> rat \<times> rat) list \<Rightarrow> http_response list \<Rightarrow> string list list" where
  "traffic_labels fw rqs ps =
     map (\<lambda>(x, p). [rq_method (fst x), route_label fw (fst x), int_str (rs_status p)]) (zip rqs ps)"

lemma serve_all_counts:
  assumes "serve_all I fw be rqs w = (ps, w')"
  shows "length ps = length rqs \<and> (list_all registered (w_events w) \<longrightarrow> list_all registered (w_events w')) \<and>
    List.map_filter (increments ''http_requests_total'') (w_events w') =
      List.map_filter (increments ''http_requests_total'') (w_events w) @ traffic_labels fw rqs ps"
  using assms
proof (induction rqs arbitrary: w ps)
  case (Cons x rqs)
  obtain rq t0 t1 where x: "x = (rq, t0, t1)" by (metis prod.exhaust)
  obtain p w1 where s: "serve I fw be rq t0 t1 w = (p, w1)" by (rule prod.exhaust)
  obtain ps' where rest: "serve_all I fw be rqs w1 = (ps', w')" "ps = p # ps'"
    using Cons.prems s by (auto simp: x split: prod.splits)
  from serve_observed [OF s] obtain es w0 l n where es: "w1 = emit es w0" "logged w w0"
    "es = observe_http_request (rq_method rq) (route_label fw rq) (rs_status p) (fl (t1 - t0)) @ [Log l n]" by blast
  then obtain es0 where es0: "w_events w0 = w_events w @ es0" "list_all inner es0" by (auto simp: logged_def)
  have "list_all registered es0" using es0(2) by (simp add: list_all_iff inner_def)
  then have "list_all registered (w_events w) \<longrightarrow> list_all registered (w_events w1)"
    by (simp add: es(1,3) es0(1) registered_http)
  moreover have "List.map_filter (increments ''http_requests_total'') (w_events w1) =
      List.map_filter (increments ''http_requests_total'') (w_events w) @ [[rq_method rq, route_label fw rq, int_str (rs_status p)]]"
    by (simp add: es(1,3) es0(1) map_filter_append inner_no_http [OF es0(2)] observe_http_request_def List.map_filter_simps)
  ultimately show ?case using Cons.IH [OF rest(1)] by (simp add: rest(2) x traffic_labels_def)
qed (simp add: traffic_labels_def)

lemma render_requests:
  "map_of (render_metrics es) (metric_prefix @ ''http_requests_total'') =
     Some (CounterSamples (counter_samples [''method'', ''route'', ''status_code'']
       (List.map_filter (increments ''http_requests_total'') es)))"
  by (simp add: render_metrics_def metric_families_def family_render_def)

lemma map_of_counter_samples:
  "labels \<noteq> [] \<Longrightarrow> map_of (counter_samples labels incs) ls = (if ls \<in> set incs then Some (int (count_list incs ls)) else None)"
  by (simp add: counter_samples_def map_of_map_restrict restrict_map_def)

section \<open>Properties\<close>

text \<open>
  C24. The metrics account for the traffic: whatever the requests of a history ask for, and
  whatever becomes of them, what \<open>/metrics\<close> then reports as requests is one sample for each
  method, matched template and status that occurred, with the number of requests so answered;
  the samples add up to the number of requests, and no operation used a counter with labels
  it does not have.
\<close>

theorem metrics_account_for_traffic:
  assumes "serve_all I fw be rqs w = (ps, w')" "w_events w = []"
  shows "list_all registered (w_events w') \<and>
    (\<exists>samples. rs_body (metrics w') = MetricsBody (render_metrics (w_events w')) \<and>
      map_of (render_metrics (w_events w')) ''distributed_rate_limiter_http_requests_total'' = Some (CounterSamples samples) \<and>
      sum_list (map snd samples) = int (length rqs) \<and>
      (\<forall>ls. map_of samples ls =
        (let n = count_list (traffic_labels fw rqs ps) ls in if n = 0 then None else Some (int n))))"
proof -
  let ?labels = "[''method'', ''route'', ''status_code'']" and ?incs = "traffic_labels fw rqs ps"
  note counts = serve_all_counts [OF assms(1)]
  then have incs: "List.map_filter (increments ''http_requests_total'') (w_events w') = ?incs"
    by (simp add: assms(2) List.map_filter_simps)
  have "length ?incs = length rqs" using counts by (simp add: traffic_labels_def)
  then have "sum_list (map snd (counter_samples ?labels ?incs)) = int (length rqs)" by (simp add: counter_samples_total)
  moreover have "map_of (counter_samples ?labels ?incs) ls =
      (let n = count_list ?incs ls in if n = 0 then None else Some (int n))" for ls
    by (simp add: map_of_counter_samples Let_def count_list_0_iff)
  moreover have "list_all registered (w_events w')" using counts by (simp add: assms(2))
  moreover note render_requests [of "w_events w'", unfolded incs, unfolded metric_prefix_def, simplified]
  ultimately show ?thesis by (simp add: metrics_def ok_response_def)
qed

definition demo_framework :: framework where
  "demo_framework =
     \<lparr>fw_malformed = (\<lambda>_ _. None), fw_policy = (\<lambda>_. Inl ''not a policy''), fw_update = (\<lambda>_. Inr no_update),
      fw_active_only = (\<lambda>_. Inr True), fw_uuid = (\<lambda>_. Inr 1), fw_identity = (\<lambda>_. Inl ''not an identity''),
      fw_sync = (\<lambda>_. Inr (None, None, None)), fw_unrouted = (\<lambda>_. (None, 404, ''Not Found''))\<rparr>"

definition demo_backends :: backends where
  "demo_backends = \<lparr>be_db_ping = Inr (), be_redis_ping = Inl ''down'', be_fetch = (\<lambda>_. Inl ''down''), be_decode = (\<lambda>_. Inl ''down''),
     be_respond = (\<lambda>_ _ _ _. Inl ''down'')\<rparr>"

definition plain_request :: "string \<Rightarrow> string \<Rightarrow> raw_request" where
  "plain_request m p = \<lparr>rq_method = m, rq_path = p, rq_headers = Map.empty, rq_client = None, rq_body = []\<rparr>"

lemma health_routed:
  "find_route api_router ''GET'' ''/health'' = Some (Route ''GET'' ''/health'' Unguarded ''health'', [])"
  by code_simp

lemma health_served: "rs_status (fst (serve I demo_framework be (plain_request ''GET'' ''/health'') a b w)) = 200"
  by (simp add: serve_def routed_def routed_request_def plain_request_def health_routed demo_framework_def endpoint_def Route_def
      handle_exception_def dispatch_def Let_def health_def)

theorem metrics_account_for_traffic_witness:
  "\<exists>w'. snd (serve_all demo_inst demo_framework demo_backends
      [(plain_request ''GET'' ''/health'', 0, 1), (plain_request ''GET'' ''/health'', 2, 3)] (demo_world\<lparr>w_events := []\<rparr>)) = w' \<and>
    (\<exists>samples. map_of (render_metrics (w_events w')) ''distributed_rate_limiter_http_requests_total'' = Some (CounterSamples samples) \<and>
      map_of samples [''GET'', ''/health'', ''200''] = Some 2)"
proof -
  let ?q = "plain_request ''GET'' ''/health''" and ?w = "demo_world\<lparr>w_events := []\<rparr>"
  obtain p w1 where 1: "serve demo_inst demo_framework demo_backends ?q 0 1 ?w = (p, w1)" by (rule prod.exhaust)
  obtain p2 w2 where 2: "serve demo_inst demo_framework demo_backends ?q 2 3 w1 = (p2, w2)" by (rule prod.exhaust)
  have ok: "rs_status p = 200" "rs_status p2 = 200" using health_served 1 2 by (metis fst_conv)+
  have run: "serve_all demo_inst demo_framework demo_backends [(?q, 0, 1), (?q, 2, 3)] ?w = ([p, p2], w2)" by (simp add: 1 2)
  have "route_label demo_framework ?q = ''/health''"
    by (simp add: route_label_def plain_request_def routed_request_def health_routed Route_def)
  then have "traffic_labels demo_framework [(?q, 0, 1), (?q, 2, 3)] [p, p2] = [[''GET'', ''/health'', ''200''], [''GET'', ''/health'', ''200'']]"
    using ok by (simp add: traffic_labels_def) (simp add: plain_request_def, code_simp)
  with metrics_account_for_traffic [OF run] show ?thesis unfolding run by (auto simp: Let_def)
qed

definition carries_token :: "settings \<Rightarrow> route \<Rightarrow> raw_request \<Rightarrow> bool" where
  "carries_token S rt rq \<longleftrightarrow>
     (case ep_guard rt of
        AdminToken \<Rightarrow> rq_headers rq ''X-Admin-Token'' = Some (set_admin_token S)
      | ServiceToken \<Rightarrow> rq_headers rq ''X-Service-Token'' = Some (set_service_token S)
      | _ \<Rightarrow> False)"

lemma routed_headers: "routed_request m p hs c = Some (rt, r) \<Longrightarrow> rt \<in> set api_router \<and> ep_method rt = m \<and> req_headers r = hs"
  by (auto simp: routed_request_def dest: find_route_sound split: option.splits)

lemma endpoint_writes:
  assumes "rt \<in> set api_router" "w_db (snd (endpoint I fw be rt r rq w)) \<noteq> w_db w" "req_headers r = rq_headers rq"
  shows "carries_token (i_settings I) rt rq \<and>
    ep_endpoint rt \<in> {''create_policy'', ''update_policy'', ''delete_policy'', ''sync_policy_from_config_control''}"
proof (cases "ep_guard rt")
  case AdminToken
  let ?g = "require_admin_token (i_settings I) r"
  have "?g = Inr ()" using assms(2) by (cases ?g) (simp_all add: endpoint_def AdminToken guarded_def)
  moreover from this have "w_db (snd (admin_endpoint I fw (ep_endpoint rt) r rq w)) \<noteq> w_db w"
    using assms(2) by (simp add: endpoint_def AdminToken guarded_def)
  moreover have "ep_endpoint rt \<in> {''create_policy'', ''list_policies'', ''get_policy'', ''update_policy'', ''delete_policy''}"
  proof -
    have "list_all (\<lambda>x. ep_guard x = AdminToken \<longrightarrow>
        ep_endpoint x \<in> {''create_policy'', ''list_policies'', ''get_policy'', ''update_policy'', ''delete_policy''}) api_router" by code_simp
    with assms(1) AdminToken show ?thesis unfolding list_all_iff by blast
  qed
  ultimately show ?thesis
    using assms(3) by (cases "fw_active_only fw rq") (auto simp: carries_token_def AdminToken admin_endpoint_def admin_call_of_def
        require_admin_token_def dest!: require_token_ok split: sum.splits)
next
  case ServiceToken
  let ?g = "require_service_token (i_settings I) r"
  have g: "?g = Inr ()" using assms(2) by (cases ?g) (simp_all add: endpoint_def ServiceToken guarded_def)
  then have "w_db (snd (internal_endpoint I fw be (ep_endpoint rt) rq w)) \<noteq> w_db w"
    using assms(2) by (simp add: endpoint_def ServiceToken guarded_def)
  then have "ep_endpoint rt \<noteq> ''evaluate_rate_limit''"
    using reads_internal_evaluate [of w I] by (auto simp: internal_endpoint_def reads_def split: sum.splits)
  moreover have "ep_endpoint rt \<in> {''evaluate_rate_limit'', ''sync_policy_from_config_control''}"
  proof -
    have "list_all (\<lambda>x. ep_guard x = ServiceToken \<longrightarrow>
        ep_endpoint x \<in> {''evaluate_rate_limit'', ''sync_policy_from_config_control''}) api_router" by code_simp
    with assms(1) ServiceToken show ?thesis unfolding list_all_iff by blast
  qed
  ultimately show ?thesis
    using g assms(3) by (auto simp: carries_token_def ServiceToken require_service_token_def dest!: require_token_ok)
qed (use assms reads_limited [of w I "ep_endpoint rt" r] in \<open>simp_all add: endpoint_def reads_def Let_def\<close>)

text \<open>Without the token the guard refuses, and the handler is not reached.\<close>

lemma endpoint_refuses:
  assumes "ep_guard rt \<in> {AdminToken, ServiceToken}" "\<not> carries_token (i_settings I) rt rq" "req_headers r = rq_headers rq"
  shows "\<exists>e. endpoint I fw be rt r rq w = (Inl e, w) \<and> error_status e \<in> {401, 500}"
proof -
  have refuse: "\<exists>e. require_token o' t d = Inl e \<and> error_status e \<in> {401, 500}" if "o' \<noteq> Some t" for o' t d
    using that by (auto simp: require_token_def compare_digest_def error_status_def split: option.split)
  from assms(1) show ?thesis
  proof (elim insertE emptyE)
    assume g: "ep_guard rt = AdminToken"
    with assms(2,3) have "req_headers r ''X-Admin-Token'' \<noteq> Some (set_admin_token (i_settings I))" by (simp add: carries_token_def)
    from refuse [OF this] obtain e where "require_admin_token (i_settings I) r = Inl e" "error_status e \<in> {401, 500}"
      unfolding require_admin_token_def by blast
    with g show ?thesis by (simp add: endpoint_def guarded_def)
  next
    assume g: "ep_guard rt = ServiceToken"
    with assms(2,3) have "req_headers r ''X-Service-Token'' \<noteq> Some (set_service_token (i_settings I))" by (simp add: carries_token_def)
    from refuse [OF this] obtain e where "require_service_token (i_settings I) r = Inl e" "error_status e \<in> {401, 500}"
      unfolding require_service_token_def by blast
    with g show ?thesis by (simp add: endpoint_def guarded_def)
  qed
qed

lemma status_after_exception: "(case handle_exception (Inl e) of Inl _ \<Rightarrow> 500 | Inr q \<Rightarrow> rs_status q) = error_status e"
  by (cases e) (simp_all add: handle_exception_def error_status_def)

text \<open>The statuses without a token: those of the guard, or what the framework says of the body.\<close>

definition refused_status :: "framework \<Rightarrow> route \<Rightarrow> raw_request \<Rightarrow> int \<Rightarrow> bool" where
  "refused_status fw rt rq status \<longleftrightarrow>
     status = 401 \<or> status = 500 \<or> map_option fst (fw_malformed fw rt rq) = Some status"

lemma routed_effect:
  assumes "routed I fw be rq w = (r, result, w1)"
  shows "find_route api_router (rq_method rq) (rq_path rq) = None \<Longrightarrow> w1 = w"
    and "find_route api_router (rq_method rq) (rq_path rq) = Some (rt, ps) \<Longrightarrow> route_label fw rq = ep_path rt \<and>
      (w_db w1 \<noteq> w_db w \<longrightarrow> carries_token (i_settings I) rt rq \<and>
        ep_endpoint rt \<in> {''create_policy'', ''update_policy'', ''delete_policy'', ''sync_policy_from_config_control''}) \<and>
      (ep_guard rt \<in> {AdminToken, ServiceToken} \<longrightarrow> \<not> carries_token (i_settings I) rt rq \<longrightarrow>
        w1 = w \<and> refused_status fw rt rq (case result of Inl _ \<Rightarrow> 500 | Inr q \<Rightarrow> rs_status q))"
proof -
  assume "find_route api_router (rq_method rq) (rq_path rq) = None"
  then show "w1 = w" using assms by (simp add: routed_def routed_request_def split: prod.splits)
next
  assume found: "find_route api_router (rq_method rq) (rq_path rq) = Some (rt, ps)"
  then obtain q where q: "routed_request (rq_method rq) (rq_path rq) (rq_headers rq) (rq_client rq) = Some (rt, q)"
    by (simp add: routed_request_def)
  note rt = routed_headers [OF q]
  have label: "route_label fw rq = ep_path rt" by (simp add: route_label_def q)
  show "route_label fw rq = ep_path rt \<and>
      (w_db w1 \<noteq> w_db w \<longrightarrow> carries_token (i_settings I) rt rq \<and>
        ep_endpoint rt \<in> {''create_policy'', ''update_policy'', ''delete_policy'', ''sync_policy_from_config_control''}) \<and>
      (ep_guard rt \<in> {AdminToken, ServiceToken} \<longrightarrow> \<not> carries_token (i_settings I) rt rq \<longrightarrow>
        w1 = w \<and> refused_status fw rt rq (case result of Inl _ \<Rightarrow> 500 | Inr q \<Rightarrow> rs_status q))"
  proof (cases "fw_malformed fw rt rq")
    case (Some x)
    obtain status detail where x: "x = (status, detail)" by (rule prod.exhaust)
    have "w1 = w" "result = handle_exception (Inl (HTTPException status detail []))"
      using assms by (simp_all add: routed_def q Some x)
    then show ?thesis using label by (simp add: handle_exception_def refused_status_def Some x)
  next
    case None
    then have served: "w1 = snd (endpoint I fw be rt q rq w)" "result = handle_exception (fst (endpoint I fw be rt q rq w))"
      using assms by (cases "endpoint I fw be rt q rq w"; simp add: routed_def q)+
    have "w1 = w \<and> refused_status fw rt rq (case result of Inl _ \<Rightarrow> 500 | Inr q \<Rightarrow> rs_status q)"
      if g: "ep_guard rt \<in> {AdminToken, ServiceToken}" "\<not> carries_token (i_settings I) rt rq"
    proof -
      obtain e where e: "endpoint I fw be rt q rq w = (Inl e, w)" "error_status e \<in> {401, 500}"
        using endpoint_refuses [OF g] rt by blast
      have "(case result of Inl _ \<Rightarrow> 500 | Inr q \<Rightarrow> rs_status q) = error_status e"
        unfolding served(2) e(1) fst_conv by (rule status_after_exception)
      with e served(1) show ?thesis by (auto simp: refused_status_def)
    qed
    then show ?thesis using endpoint_writes [of rt I fw be q rq w] rt label served(1) by blast
  qed
qed

text \<open>
  C23. Policies change only for who holds a token: a request after which the database differs was
  routed to a writing admin endpoint and carried the configured admin token, or to the sync
  endpoint with the service token. A request to a token-guarded endpoint without its token is
  answered with 401 or 500, or with the status the framework gives a body it cannot read, which
  it does before any guard runs, and leaves nothing behind but its own observation.
\<close>

theorem policies_change_only_with_token:
  assumes "serve I fw be rq started ended w = (p, w')"
  shows "(w_db w' \<noteq> w_db w \<longrightarrow>
      (\<exists>rt ps. find_route api_router (rq_method rq) (rq_path rq) = Some (rt, ps) \<and> carries_token (i_settings I) rt rq \<and>
        ep_endpoint rt \<in> {''create_policy'', ''update_policy'', ''delete_policy'', ''sync_policy_from_config_control''})) \<and>
    (\<forall>rt ps. find_route api_router (rq_method rq) (rq_path rq) = Some (rt, ps) \<longrightarrow> ep_guard rt \<in> {AdminToken, ServiceToken} \<longrightarrow>
      \<not> carries_token (i_settings I) rt rq \<longrightarrow>
      (rs_status p \<in> {401, 500} \<or> (\<exists>detail. fw_malformed fw rt rq = Some (rs_status p, detail))) \<and> (\<exists>x l n. w' = emit (observe_http_request (rq_method rq) (ep_path rt) (rs_status p) x @ [Log l n]) w))"
proof -
  obtain r result w1 es l n where run: "routed I fw be rq w = (r, result, w1)" "w' = emit es w1"
    "es = observe_http_request (rq_method rq) (route_label fw rq) (rs_status p) (fl (ended - started)) @ [Log l n]"
    "rs_status p = (case result of Inl _ \<Rightarrow> 500 | Inr q \<Rightarrow> rs_status q)"
    using serve_observed [OF assms] by (elim exE conjE)
  show ?thesis
  proof (cases "find_route api_router (rq_method rq) (rq_path rq)")
    case None
    then show ?thesis using routed_effect(1) [OF run(1) None] run(2) by simp
  next
    case (Some x)
    obtain rt ps where x: "x = (rt, ps)" by (rule prod.exhaust)
    from routed_effect(2) [OF run(1) Some [unfolded x]] show ?thesis
      unfolding run(2,3) Some x run(4) [symmetric] by (auto simp: refused_status_def)
  qed
qed

lemma deletion_routed:
  "find_route api_router ''DELETE'' ''/admin/policies/1'' =
     Some (Route ''DELETE'' ''/admin/policies/{policy_id}'' AdminToken ''delete_policy'', [(''policy_id'', ''1'')])"
  by code_simp

theorem policies_change_only_with_token_witness:
  "let (p, w') = serve demo_inst demo_framework demo_backends (plain_request ''DELETE'' ''/admin/policies/1'') 0 1 demo_world
   in rs_status p \<in> {401, 500} \<and> w_db w' = w_db demo_world \<and> w_redis w' = w_redis demo_world"
proof -
  let ?q = "plain_request ''DELETE'' ''/admin/policies/1''"
  obtain p w' where run: "serve demo_inst demo_framework demo_backends ?q 0 1 demo_world = (p, w')" by (rule prod.exhaust)
  have "find_route api_router (rq_method ?q) (rq_path ?q) =
      Some (Route ''DELETE'' ''/admin/policies/{policy_id}'' AdminToken ''delete_policy'', [(''policy_id'', ''1'')])"
    by (simp add: plain_request_def deletion_routed)
  moreover have "\<not> carries_token S (Route ''DELETE'' ''/admin/policies/{policy_id}'' AdminToken ''delete_policy'') ?q" for S
    by (simp add: carries_token_def Route_def plain_request_def)
  moreover have "ep_guard (Route ''DELETE'' ''/admin/policies/{policy_id}'' AdminToken ''delete_policy'') \<in> {AdminToken, ServiceToken}"
    by (simp add: Route_def)
  moreover have "fw_malformed demo_framework rt rq = None" for rt rq by (simp add: demo_framework_def)
  ultimately have "rs_status p \<in> {401, 500} \<and> (\<exists>es. w' = emit es demo_world)"
    using policies_change_only_with_token [OF run] by (metis option.distinct(1))
  then show ?thesis by (auto simp: run)
qed

end
