(* ===== verification/Multi_Region.thy ===== *)
theory Multi_Region
  imports Prelude
begin

text \<open>
  \<open>app/services/multi_region.py\<close>: the simulation of two regional replicas that decide on what
  they know and replicate their counts with a lag. The event queue of \<open>heapq\<close> is a sorted list:
  the smallest event is popped, and events that compare equal cannot be told apart.
\<close>

section \<open>Data\<close>

datatype region_name = India | US

datatype event_kind = Request | Replication

datatype sim_event = SimEvent (ev_time_ms: int) (ev_priority: int) (ev_kind: event_kind) (ev_region: region_name)

record regional_decision =
  rd_region :: region_name
  rd_kind :: event_kind
  rd_time_ms :: int
  rd_accepted :: bool
  rd_known_global_before_decision :: int
  rd_actual_global_before_decision :: int
  rd_observed_remote_count :: int

record region_snapshot =
  rs_name :: region_name
  rs_local_accepted :: int
  rs_remote_observed :: int
  rs_allowed_requests :: int
  rs_blocked_requests :: int

record multi_region_summary =
  ms_configured_limit :: int
  ms_replication_lag_ms :: int
  ms_request_spacing_ms :: int
  ms_india_requests_sent :: int
  ms_us_requests_sent :: int
  ms_india_allowed :: int
  ms_india_blocked :: int
  ms_us_allowed :: int
  ms_us_blocked :: int
  ms_total_allowed :: int
  ms_oversubscription :: int
  ms_stale_allowed_decisions :: int
  ms_max_replication_queue_depth :: int

section \<open>The order of events\<close>

text \<open>
  \<open>_Event\<close> is a dataclass with \<open>order=True\<close>: time, priority, then the strings of kind and
  region, so ``replication'' comes before ``request'' and ``india'' before ``us''.
\<close>

definition region_rank :: "region_name \<Rightarrow> int" where
  "region_rank r = (case r of India \<Rightarrow> 0 | US \<Rightarrow> 1)"

definition kind_rank :: "event_kind \<Rightarrow> int" where
  "kind_rank k = (case k of Replication \<Rightarrow> 0 | Request \<Rightarrow> 1)"

definition event_key :: "sim_event \<Rightarrow> int \<times> int \<times> int \<times> int" where
  "event_key e = (ev_time_ms e, ev_priority e, kind_rank (ev_kind e), region_rank (ev_region e))"

lemma event_key_inj: "event_key e = event_key f \<Longrightarrow> e = f"
  by (cases e; cases f)
    (auto simp: event_key_def kind_rank_def region_rank_def split: event_kind.splits region_name.splits)

instantiation sim_event :: linorder
begin

definition less_eq_sim_event :: "sim_event \<Rightarrow> sim_event \<Rightarrow> bool" where
  "e \<le> f \<longleftrightarrow> event_key e \<le> event_key f"

definition less_sim_event :: "sim_event \<Rightarrow> sim_event \<Rightarrow> bool" where
  "e < f \<longleftrightarrow> event_key e < event_key f"

instance
  by standard (auto simp: less_eq_sim_event_def less_sim_event_def intro: event_key_inj)

end

section \<open>The simulation\<close>

record simulation =
  sim_india :: region_snapshot
  sim_us :: region_snapshot
  sim_queue :: "sim_event list"
  sim_decisions :: "regional_decision list"
  sim_stale_allowed :: int
  sim_max_queue_depth :: int

definition region_of :: "region_name \<Rightarrow> simulation \<Rightarrow> region_snapshot" where
  "region_of r s = (case r of India \<Rightarrow> sim_india s | US \<Rightarrow> sim_us s)"

definition put_region :: "region_name \<Rightarrow> region_snapshot \<Rightarrow> simulation \<Rightarrow> simulation" where
  "put_region r x s = (case r of India \<Rightarrow> s\<lparr>sim_india := x\<rparr> | US \<Rightarrow> s\<lparr>sim_us := x\<rparr>)"

definition other_region :: "region_name \<Rightarrow> region_name" where
  "other_region r = (if r = India then US else India)"

definition heappush :: "sim_event \<Rightarrow> simulation \<Rightarrow> simulation" where
  "heappush e s = s\<lparr>sim_queue := insort e (sim_queue s)\<rparr>"

definition replicate_counts :: "sim_event \<Rightarrow> simulation \<Rightarrow> simulation" where
  "replicate_counts e s =
     (let source = region_of (ev_region e) s; t = other_region (ev_region e); target = region_of t s
      in put_region t (target\<lparr>rs_remote_observed := max (rs_remote_observed target) (rs_local_accepted source)\<rparr>) s)"

definition serve_request :: "int \<Rightarrow> int \<Rightarrow> sim_event \<Rightarrow> simulation \<Rightarrow> simulation" where
  "serve_request limit lag e s =
     (let region = region_of (ev_region e) s;
          actual_global = rs_local_accepted (sim_india s) + rs_local_accepted (sim_us s);
          known_global = rs_local_accepted region + rs_remote_observed region;
          accepted = (known_global < limit);
          region' = (if accepted
                     then region\<lparr>rs_local_accepted := rs_local_accepted region + 1,
                                 rs_allowed_requests := rs_allowed_requests region + 1\<rparr>
                     else region\<lparr>rs_blocked_requests := rs_blocked_requests region + 1\<rparr>);
          s1 = (if accepted \<and> limit \<le> actual_global then s\<lparr>sim_stale_allowed := sim_stale_allowed s + 1\<rparr> else s);
          s2 = put_region (ev_region e) region' s1;
          s3 = (if accepted then heappush (SimEvent (ev_time_ms e + lag) 0 Replication (ev_region e)) s2 else s2)
      in s3\<lparr>sim_decisions := sim_decisions s3 @
           [\<lparr>rd_region = ev_region e, rd_kind = ev_kind e, rd_time_ms = ev_time_ms e, rd_accepted = accepted,
             rd_known_global_before_decision = known_global, rd_actual_global_before_decision = actual_global,
             rd_observed_remote_count = rs_remote_observed region'\<rparr>]\<rparr>)"

text \<open>One turn of the loop, on a queue that is not empty.\<close>

definition turn :: "int \<Rightarrow> int \<Rightarrow> simulation \<Rightarrow> simulation" where
  "turn limit lag s =
     (let e = hd (sim_queue s);
          s1 = s\<lparr>sim_max_queue_depth := max (sim_max_queue_depth s) (int (length (sim_queue s))),
                 sim_queue := tl (sim_queue s)\<rparr>
      in if ev_kind e = Replication then replicate_counts e s1 else serve_request limit lag e s1)"

text \<open>A request may leave one replication behind, a replication leaves nothing: the queue empties.\<close>

definition pending_work :: "simulation \<Rightarrow> nat" where
  "pending_work s = sum_list (map (\<lambda>e. if ev_kind e = Request then 2 else 1) (sim_queue s))"

lemma region_simps [simp]:
  "region_of India s = sim_india s" "region_of US s = sim_us s"
  "put_region India x s = s\<lparr>sim_india := x\<rparr>" "put_region US x s = s\<lparr>sim_us := x\<rparr>"
  "other_region India = US" "other_region US = India"
  by (simp_all add: region_of_def put_region_def other_region_def)

lemma put_region_frame [simp]:
  "sim_queue (put_region r x s) = sim_queue s" "sim_decisions (put_region r x s) = sim_decisions s"
  "sim_stale_allowed (put_region r x s) = sim_stale_allowed s" "sim_max_queue_depth (put_region r x s) = sim_max_queue_depth s"
  by (cases r; simp)+

lemma sum_list_insort: "sum_list (map f (insort x xs)) = (f x + sum_list (map f xs) :: nat)"
  by (induction xs) auto

lemma turn_queue:
  "sim_queue (turn limit lag s) =
    (let e = hd (sim_queue s); r = region_of (ev_region e) s
     in if ev_kind e = Request \<and> rs_local_accepted r + rs_remote_observed r < limit
        then insort (SimEvent (ev_time_ms e + lag) 0 Replication (ev_region e)) (tl (sim_queue s))
        else tl (sim_queue s))"
  by (cases "ev_kind (hd (sim_queue s))"; cases "ev_region (hd (sim_queue s))")
    (simp_all add: turn_def replicate_counts_def serve_request_def heappush_def Let_def)

lemma turn_decreases: "sim_queue s \<noteq> [] \<Longrightarrow> pending_work (turn limit lag s) < pending_work s"
  by (cases "sim_queue s") (simp_all add: pending_work_def turn_queue Let_def sum_list_insort)

function run_events :: "int \<Rightarrow> int \<Rightarrow> simulation \<Rightarrow> simulation" where
  "run_events limit lag s = (if sim_queue s = [] then s else run_events limit lag (turn limit lag s))"
  by auto
termination
  by (relation "measure (\<lambda>(_, _, s). pending_work s)") (simp_all add: turn_decreases)

declare run_events.simps [simp del]

definition fresh_region :: "region_name \<Rightarrow> region_snapshot" where
  "fresh_region r = \<lparr>rs_name = r, rs_local_accepted = 0, rs_remote_observed = 0, rs_allowed_requests = 0, rs_blocked_requests = 0\<rparr>"

definition push_requests :: "int \<Rightarrow> int \<Rightarrow> region_name \<Rightarrow> simulation \<Rightarrow> simulation" where
  "push_requests n spacing r s =
     fold (\<lambda>index. heappush (SimEvent (int index * spacing) 1 Request r)) [0..<nat n] s"

definition start_simulation :: "int \<Rightarrow> int \<Rightarrow> int \<Rightarrow> simulation" where
  "start_simulation india_requests us_requests spacing =
     (let s0 = \<lparr>sim_india = fresh_region India, sim_us = fresh_region US, sim_queue = [], sim_decisions = [],
                sim_stale_allowed = 0, sim_max_queue_depth = 0\<rparr>;
          s1 = push_requests us_requests spacing US (push_requests india_requests spacing India s0)
      in s1\<lparr>sim_max_queue_depth := int (length (sim_queue s1))\<rparr>)"

definition summarize :: "int \<Rightarrow> int \<Rightarrow> int \<Rightarrow> int \<Rightarrow> int \<Rightarrow> simulation \<Rightarrow> multi_region_summary" where
  "summarize limit lag india_requests us_requests spacing s =
     (let total_allowed = rs_allowed_requests (sim_india s) + rs_allowed_requests (sim_us s)
      in \<lparr>ms_configured_limit = limit, ms_replication_lag_ms = lag, ms_request_spacing_ms = spacing,
          ms_india_requests_sent = india_requests, ms_us_requests_sent = us_requests,
          ms_india_allowed = rs_allowed_requests (sim_india s), ms_india_blocked = rs_blocked_requests (sim_india s),
          ms_us_allowed = rs_allowed_requests (sim_us s), ms_us_blocked = rs_blocked_requests (sim_us s),
          ms_total_allowed = total_allowed, ms_oversubscription = max 0 (total_allowed - limit),
          ms_stale_allowed_decisions = sim_stale_allowed s, ms_max_replication_queue_depth = sim_max_queue_depth s\<rparr>)"

definition simulate_multi_region_limit ::
  "int \<Rightarrow> int \<Rightarrow> int \<Rightarrow> int \<Rightarrow> int \<Rightarrow> py_error + multi_region_summary \<times> regional_decision list" where
  "simulate_multi_region_limit limit lag india_requests us_requests spacing =
     (if limit \<le> 0 then Inl (ValueError ''configured_limit must be positive'')
      else if lag < 0 then Inl (ValueError ''replication_lag_ms cannot be negative'')
      else let s = run_events limit lag (start_simulation india_requests us_requests spacing)
           in Inr (summarize limit lag india_requests us_requests spacing s, sim_decisions s))"

section \<open>Lemmas: the loop\<close>

lemma run_events_invariant:
  assumes "P s" "\<And>s. P s \<Longrightarrow> sim_queue s \<noteq> [] \<Longrightarrow> P (turn limit lag s)"
  shows "P (run_events limit lag s) \<and> sim_queue (run_events limit lag s) = []"
  using assms(1)
proof (induction "pending_work s" arbitrary: s rule: less_induct)
  case less
  show ?case
  proof (cases "sim_queue s = []")
    case False
    with less assms(2) [OF less.prems False] turn_decreases [OF False] show ?thesis
      by (simp add: run_events.simps [of limit lag s])
  qed (simp add: less.prems run_events.simps [of limit lag s])
qed

definition requests_of :: "region_name \<Rightarrow> sim_event list \<Rightarrow> int" where
  "requests_of r q = int (length (filter (\<lambda>e. ev_kind e = Request \<and> ev_region e = r) q))"

lemma requests_of_simps [simp]:
  "requests_of r [] = 0"
  "requests_of r (e # q) = (if ev_kind e = Request \<and> ev_region e = r then 1 else 0) + requests_of r q"
  by (simp_all add: requests_of_def)

lemma requests_of_insort [simp]:
  "requests_of r (insort e q) = (if ev_kind e = Request \<and> ev_region e = r then 1 else 0) + requests_of r q"
  by (induction q) auto

lemma requests_of_nonneg [simp]: "0 \<le> requests_of r q"
  by (simp add: requests_of_def)

definition decided :: "region_name \<Rightarrow> bool \<Rightarrow> regional_decision list \<Rightarrow> int" where
  "decided r ok ds = int (length (filter (\<lambda>d. rd_region d = r \<and> rd_accepted d = ok) ds))"

lemma decided_simps [simp]:
  "decided r ok [] = 0"
  "decided r ok (ds @ [d]) = decided r ok ds + (if rd_region d = r \<and> rd_accepted d = ok then 1 else 0)"
  by (simp_all add: decided_def)

definition total_accepted :: "simulation \<Rightarrow> int" where
  "total_accepted s = rs_local_accepted (sim_india s) + rs_local_accepted (sim_us s)"

text \<open>The books of one region: its counters, its decisions, its pending requests.\<close>

definition region_books :: "int \<Rightarrow> int \<Rightarrow> region_name \<Rightarrow> simulation \<Rightarrow> bool" where
  "region_books limit n r s \<longleftrightarrow>
     (let x = region_of r s; y = region_of (other_region r) s
      in rs_allowed_requests x = rs_local_accepted x \<and> 0 \<le> rs_local_accepted x \<and> rs_local_accepted x \<le> limit \<and>
         0 \<le> rs_blocked_requests x \<and> 0 \<le> rs_remote_observed x \<and> rs_remote_observed x \<le> rs_local_accepted y \<and>
         rs_local_accepted x + rs_blocked_requests x + requests_of r (sim_queue s) = n \<and>
         decided r True (sim_decisions s) = rs_local_accepted x \<and> decided r False (sim_decisions s) = rs_blocked_requests x)"

definition books :: "int \<Rightarrow> int \<Rightarrow> int \<Rightarrow> simulation \<Rightarrow> bool" where
  "books limit n m s \<longleftrightarrow> 0 < limit \<and> region_books limit n India s \<and> region_books limit m US s \<and>
     sim_stale_allowed s = max 0 (total_accepted s - limit) \<and>
     (0 < rs_blocked_requests (sim_india s) + rs_blocked_requests (sim_us s) \<longrightarrow> limit \<le> total_accepted s)"

lemma books_turn: "books limit n m s \<Longrightarrow> sim_queue s \<noteq> [] \<Longrightarrow> books limit n m (turn limit lag s)"
  by (cases "sim_queue s"; cases "ev_kind (hd (sim_queue s))"; cases "ev_region (hd (sim_queue s))")
    (auto simp: books_def region_books_def total_accepted_def turn_def replicate_counts_def serve_request_def
      heappush_def Let_def)

text \<open>The queue never grows: a turn takes one event and puts back at most one.\<close>

definition depth_fixed :: "int \<Rightarrow> simulation \<Rightarrow> bool" where
  "depth_fixed n s \<longleftrightarrow> sim_max_queue_depth s = n \<and> int (length (sim_queue s)) \<le> n"

lemma depth_turn: "depth_fixed n s \<Longrightarrow> sim_queue s \<noteq> [] \<Longrightarrow> depth_fixed n (turn limit lag s)"
  by (cases "sim_queue s"; cases "ev_kind (hd (sim_queue s))"; cases "ev_region (hd (sim_queue s))")
    (auto simp: depth_fixed_def turn_def replicate_counts_def serve_request_def heappush_def Let_def)

section \<open>Lemmas: the start\<close>

definition plain_requests :: "sim_event list \<Rightarrow> bool" where
  "plain_requests q \<longleftrightarrow> (\<forall>e\<in>set q. ev_kind e = Request \<and> ev_priority e = 1)"

lemma plain_requests_simps [simp]:
  "plain_requests []" "plain_requests (e # q) = (ev_kind e = Request \<and> ev_priority e = 1 \<and> plain_requests q)"
  "plain_requests (insort e q) = (ev_kind e = Request \<and> ev_priority e = 1 \<and> plain_requests q)"
  by (auto simp: plain_requests_def set_insort_key)

definition pushes_done :: "int \<Rightarrow> region_name \<Rightarrow> simulation \<Rightarrow> simulation \<Rightarrow> bool" where
  "pushes_done n r s s' \<longleftrightarrow>
     sim_india s' = sim_india s \<and> sim_us s' = sim_us s \<and> sim_decisions s' = sim_decisions s \<and>
     sim_stale_allowed s' = sim_stale_allowed s \<and> int (length (sim_queue s')) = int (length (sim_queue s)) + n \<and>
     (\<forall>r'. requests_of r' (sim_queue s') = requests_of r' (sim_queue s) + (if r' = r then n else 0)) \<and>
     (sorted (sim_queue s) \<longrightarrow> sorted (sim_queue s')) \<and>
     (plain_requests (sim_queue s) \<longrightarrow> plain_requests (sim_queue s'))"

lemma pushes_done_Suc: "pushes_done n r s s' \<Longrightarrow> pushes_done (n + 1) r s (heappush (SimEvent t 1 Request r) s')"
  unfolding pushes_done_def heappush_def
  by (elim conjE, intro conjI) (simp_all add: sorted_insort set_insort_key)

lemma pushes_done_refl: "pushes_done 0 r s s"
  by (simp add: pushes_done_def)

lemma pushes_done_fold: "pushes_done (int k) r s (fold (\<lambda>i. heappush (SimEvent (int i * spacing) 1 Request r)) [0..<k] s)"
proof (induction k)
  case (Suc k)
  from pushes_done_Suc [OF Suc, of "int k * spacing"] show ?case by (simp add: add.commute)
qed (simp add: pushes_done_refl)

lemma push_requests_done: "pushes_done (max 0 n) r s (push_requests n spacing r s)"
  using pushes_done_fold [of "nat n" r s spacing] unfolding push_requests_def by (simp add: max_def split: if_splits)

lemma start_facts:
  assumes "s = start_simulation n m spacing"
  shows "sim_india s = fresh_region India" "sim_us s = fresh_region US" "sim_decisions s = []" "sim_stale_allowed s = 0"
    "int (length (sim_queue s)) = max 0 n + max 0 m" "sim_max_queue_depth s = max 0 n + max 0 m"
    "requests_of India (sim_queue s) = max 0 n" "requests_of US (sim_queue s) = max 0 m" "sorted (sim_queue s)"
    "plain_requests (sim_queue s)"
proof -
  define s0 where "s0 = \<lparr>sim_india = fresh_region India, sim_us = fresh_region US, sim_queue = [], sim_decisions = [],
    sim_stale_allowed = 0, sim_max_queue_depth = 0\<rparr>"
  define s1 where "s1 = push_requests n spacing India s0"
  define s2 where "s2 = push_requests m spacing US s1"
  have s: "s = s2\<lparr>sim_max_queue_depth := int (length (sim_queue s2))\<rparr>"
    unfolding assms start_simulation_def Let_def s2_def s1_def s0_def ..
  have 1: "pushes_done (max 0 n) India s0 s1" "pushes_done (max 0 m) US s1 s2" unfolding s1_def s2_def by (rule push_requests_done)+
  have 0: "sim_india s0 = fresh_region India" "sim_us s0 = fresh_region US" "sim_queue s0 = []" "sim_decisions s0 = []" "sim_stale_allowed s0 = 0"
    by (simp_all add: s0_def)
  from 1 0 show "sim_india s = fresh_region India" "sim_us s = fresh_region US" "sim_decisions s = []" "sim_stale_allowed s = 0"
    "int (length (sim_queue s)) = max 0 n + max 0 m" "sim_max_queue_depth s = max 0 n + max 0 m"
    "requests_of India (sim_queue s) = max 0 n" "requests_of US (sim_queue s) = max 0 m" "sorted (sim_queue s)"
    "plain_requests (sim_queue s)"
    unfolding s by (simp_all add: pushes_done_def)
qed

text \<open>The state in which the loop ends.\<close>

lemma final_state:
  assumes "0 < limit" "s = run_events limit lag (start_simulation n m spacing)"
  shows "books limit (max 0 n) (max 0 m) s" "depth_fixed (max 0 n + max 0 m) s" "sim_queue s = []"
proof -
  note start = start_facts [OF refl, of n m spacing]
  have "books limit (max 0 n) (max 0 m) (start_simulation n m spacing)"
    using assms(1) start by (simp add: books_def region_books_def total_accepted_def fresh_region_def)
  from run_events_invariant [of "books limit (max 0 n) (max 0 m)", OF this books_turn] assms(2)
  show "books limit (max 0 n) (max 0 m) s" "sim_queue s = []" by simp_all
  have "depth_fixed (max 0 n + max 0 m) (start_simulation n m spacing)" using start by (simp add: depth_fixed_def)
  from run_events_invariant [of "depth_fixed (max 0 n + max 0 m)", OF this depth_turn] assms(2)
  show "depth_fixed (max 0 n + max 0 m) s" by simp
qed

section \<open>Lemmas: no lag\<close>

text \<open>
  Without lag a replication is always the next event: the regions agree whenever a request
  is served.
\<close>

definition in_sync :: "region_name \<Rightarrow> simulation \<Rightarrow> bool" where
  "in_sync r s \<longleftrightarrow> rs_remote_observed (region_of r s) = rs_local_accepted (region_of (other_region r) s)"

definition agreed :: "int \<Rightarrow> simulation \<Rightarrow> bool" where
  "agreed limit s \<longleftrightarrow>
     sorted (sim_queue s) \<and> plain_requests (tl (sim_queue s)) \<and> total_accepted s \<le> limit \<and>
     (in_sync India s \<or> (sim_queue s \<noteq> [] \<and> ev_kind (hd (sim_queue s)) = Replication \<and> ev_region (hd (sim_queue s)) = US)) \<and>
     (in_sync US s \<or> (sim_queue s \<noteq> [] \<and> ev_kind (hd (sim_queue s)) = Replication \<and> ev_region (hd (sim_queue s)) = India)) \<and>
     0 \<le> rs_local_accepted (sim_india s) \<and> 0 \<le> rs_local_accepted (sim_us s) \<and>
     rs_remote_observed (sim_india s) \<le> rs_local_accepted (sim_us s) \<and> rs_remote_observed (sim_us s) \<le> rs_local_accepted (sim_india s)"

lemma insort_first: "\<forall>f\<in>set q. e \<le> f \<Longrightarrow> insort e q = e # q"
  by (cases q) auto

lemma agreed_turn:
  assumes "agreed limit s" "sim_queue s \<noteq> []"
  shows "agreed limit (turn limit 0 s)"
proof -
  obtain e q where q: "sim_queue s = e # q" using assms(2) by (cases "sim_queue s") simp_all
  have all: "\<forall>f\<in>set q. e \<le> f \<and> ev_kind f = Request \<and> ev_priority f = 1" "sorted q"
    using assms(1) q by (auto simp: agreed_def plain_requests_def)
  have first: "insort (SimEvent (ev_time_ms e) 0 Replication (ev_region e)) q = SimEvent (ev_time_ms e) 0 Replication (ev_region e) # q"
  proof (intro insort_first ballI)
    fix f assume "f \<in> set q"
    with all show "SimEvent (ev_time_ms e) 0 Replication (ev_region e) \<le> f"
      by (force simp: less_eq_sim_event_def event_key_def less_eq_prod_def)
  qed
  have least: "\<forall>f\<in>set q. SimEvent (ev_time_ms e) 0 Replication (ev_region e) \<le> f"
  proof
    fix f assume "f \<in> set q"
    with all show "SimEvent (ev_time_ms e) 0 Replication (ev_region e) \<le> f"
      by (force simp: less_eq_sim_event_def event_key_def less_eq_prod_def)
  qed
  have tails: "plain_requests q" "plain_requests (tl q)" "q \<noteq> [] \<Longrightarrow> ev_kind (hd q) = Request"
    using all by (cases q; auto simp: plain_requests_def)+
  show ?thesis
    using assms(1) q all(2) first least tails all(1)
    by (cases "ev_kind e"; cases "ev_region e"; cases q)
      (auto simp: agreed_def in_sync_def total_accepted_def turn_def replicate_counts_def serve_request_def
        heappush_def Let_def)
qed

lemma simulate_eq:
  "0 < limit \<Longrightarrow> 0 \<le> lag \<Longrightarrow> simulate_multi_region_limit limit lag n m spacing =
     Inr (summarize limit lag n m spacing (run_events limit lag (start_simulation n m spacing)),
          sim_decisions (run_events limit lag (start_simulation n m spacing)))"
  by (simp add: simulate_multi_region_limit_def Let_def)

section \<open>Properties\<close>

text \<open>
  The simulation ends and its books balance: every request sent to a region is allowed or
  blocked there, the decisions list each of them, and the oversubscription is the excess over
  the limit. The reported replication queue depth is always the number of requests sent,
  whatever the lag: the queue holds the requests too and never grows past its first length.
\<close>

theorem multi_region_books:
  assumes "0 < limit" "0 \<le> lag" "0 \<le> n" "0 \<le> m"
  shows "\<exists>sm ds. simulate_multi_region_limit limit lag n m spacing = Inr (sm, ds) \<and>
    ms_india_allowed sm + ms_india_blocked sm = n \<and> ms_us_allowed sm + ms_us_blocked sm = m \<and>
    ms_total_allowed sm = ms_india_allowed sm + ms_us_allowed sm \<and>
    decided India True ds = ms_india_allowed sm \<and> decided India False ds = ms_india_blocked sm \<and>
    decided US True ds = ms_us_allowed sm \<and> decided US False ds = ms_us_blocked sm \<and>
    ms_oversubscription sm = max 0 (ms_total_allowed sm - limit) \<and>
    ms_max_replication_queue_depth sm = n + m"
proof -
  note final = final_state [OF assms(1) refl, where lag = lag and n = n and m = m and spacing = spacing]
  show ?thesis
    using final assms unfolding simulate_eq [OF assms(1,2)]
    by (auto simp: books_def region_books_def depth_fixed_def summarize_def Let_def)
qed

theorem multi_region_books_witness:
  "\<exists>sm ds. simulate_multi_region_limit 2 200 3 3 10 = Inr (sm, ds) \<and> ms_max_replication_queue_depth sm = 6"
  using multi_region_books [of 2 200 3 3 10] by auto

text \<open>
  C20. Two replicas that decide alone let through at most twice the limit, each region at most
  the limit, and never fewer than the limit while requests are refused: the total lies between
  the smaller of limit and load and the smaller of twice the limit and load. A decision counts
  as stale exactly when it oversubscribes: the stale decisions are the excess over the limit.
\<close>

theorem multi_region_bounds:
  assumes "simulate_multi_region_limit limit lag n m spacing = Inr (sm, ds)" "0 \<le> n" "0 \<le> m"
  shows "min limit (n + m) \<le> ms_total_allowed sm \<and> ms_total_allowed sm \<le> min (2 * limit) (n + m) \<and>
    ms_india_allowed sm \<le> limit \<and> ms_us_allowed sm \<le> limit \<and>
    ms_stale_allowed_decisions sm = ms_oversubscription sm"
proof -
  have pos: "0 < limit" "0 \<le> lag" using assms(1) by (auto simp: simulate_multi_region_limit_def split: if_splits)
  note final = final_state [OF pos(1) refl, where lag = lag and n = n and m = m and spacing = spacing]
  have sm: "sm = summarize limit lag n m spacing (run_events limit lag (start_simulation n m spacing))"
    using assms(1) by (simp add: simulate_eq [OF pos])
  let ?s = "run_events limit lag (start_simulation n m spacing)"
  have counts: "ms_india_allowed sm = rs_local_accepted (sim_india ?s)" "ms_us_allowed sm = rs_local_accepted (sim_us ?s)"
    "ms_total_allowed sm = total_accepted ?s" "ms_stale_allowed_decisions sm = ms_oversubscription sm"
    using final(1) by (simp_all add: sm summarize_def Let_def books_def region_books_def total_accepted_def)
  have region: "rs_local_accepted (sim_india ?s) \<le> limit" "rs_local_accepted (sim_us ?s) \<le> limit"
    "rs_local_accepted (sim_india ?s) + rs_blocked_requests (sim_india ?s) = n"
    "rs_local_accepted (sim_us ?s) + rs_blocked_requests (sim_us ?s) = m"
    "0 \<le> rs_blocked_requests (sim_india ?s)" "0 \<le> rs_blocked_requests (sim_us ?s)"
    using final(1,3) assms(2,3) by (simp_all add: books_def region_books_def Let_def)
  have refused: "0 < rs_blocked_requests (sim_india ?s) + rs_blocked_requests (sim_us ?s) \<Longrightarrow> limit \<le> total_accepted ?s"
    using final(1) by (simp add: books_def)
  have "min limit (n + m) \<le> total_accepted ?s" "total_accepted ?s \<le> min (2 * limit) (n + m)"
    using region refused by (cases "0 < rs_blocked_requests (sim_india ?s) + rs_blocked_requests (sim_us ?s)"; simp add: total_accepted_def)+
  with counts region(1,2) show ?thesis by simp
qed

text \<open>
  C19. Without replication lag the two replicas are one limiter: for any spacing of the
  requests they let through exactly the limit or the whole load, whichever is smaller, and no
  decision is stale.
\<close>

theorem multi_region_zero_lag_exact:
  assumes "0 < limit" "0 \<le> n" "0 \<le> m"
  shows "\<exists>sm ds. simulate_multi_region_limit limit 0 n m spacing = Inr (sm, ds) \<and>
    ms_total_allowed sm = min limit (n + m) \<and> ms_oversubscription sm = 0 \<and> ms_stale_allowed_decisions sm = 0"
proof -
  let ?s = "run_events limit 0 (start_simulation n m spacing)"
  note final = final_state [OF assms(1) refl, where lag = 0 and n = n and m = m and spacing = spacing]
  have "agreed limit (start_simulation n m spacing)"
    using start_facts [OF refl, of n m spacing] assms(1)
    by (cases "sim_queue (start_simulation n m spacing)") (simp_all add: agreed_def in_sync_def total_accepted_def fresh_region_def)
  from run_events_invariant [of "agreed limit", OF this agreed_turn] have "agreed limit ?s" by blast
  then have "total_accepted ?s \<le> limit" by (simp add: agreed_def)
  with final assms show ?thesis
    unfolding simulate_eq [OF assms(1) order_refl]
    by (auto simp: books_def region_books_def total_accepted_def summarize_def Let_def min_def)
qed

theorem multi_region_zero_lag_exact_witness:
  "\<exists>sm ds. simulate_multi_region_limit 10 0 8 8 20 = Inr (sm, ds) \<and> ms_total_allowed sm = 10"
  using multi_region_zero_lag_exact [of 10 8 8 20] by auto

theorem multi_region_bounds_witness:
  "\<exists>sm ds. simulate_multi_region_limit 2 200 3 3 10 = Inr (sm, ds) \<and> 2 \<le> ms_total_allowed sm \<and> ms_total_allowed sm \<le> 4"
proof -
  obtain sm ds where run: "simulate_multi_region_limit 2 200 3 3 10 = Inr (sm, ds)"
    by (cases "simulate_multi_region_limit 2 200 3 3 10") (simp_all add: simulate_multi_region_limit_def Let_def)
  from multi_region_bounds [OF run] run show ?thesis by simp
qed

end
