(* ===== verification/Scripts.thy ===== *)
theory Scripts
  imports Gateway Multi_Region
begin

text \<open>
  The scripts around the service: the seeding of the demo policies
  (\<open>scripts/seed_demo_policies.py\<close>), the benchmark runner's scenarios, policies, error report
  and accounting (\<open>scripts/run_benchmark.py\<close>), and the report of the multi-region simulation
  (\<open>scripts/run_multi_region_simulation.py\<close>). Texts are ASCII here.
\<close>

section \<open>Seeding\<close>

definition seed_policy ::
  "string \<Rightarrow> string \<Rightarrow> rate_limit_algorithm \<Rightarrow> int \<Rightarrow> int option \<Rightarrow> string \<Rightarrow> string option \<Rightarrow> failure_mode \<Rightarrow> policy_base" where
  "seed_policy name description alg rate burst_capacity route user mode =
     \<lparr>pol_name = name, pol_description = Some description, pol_algorithm = alg, pol_rate = rate,
      pol_window_seconds = 60, pol_burst_capacity = burst_capacity, pol_active = True, pol_priority = 0,
      pol_route = Some route, pol_user_id = user, pol_ip_address = None, pol_tenant_id = None,
      pol_api_key = None, pol_failure_mode = mode\<rparr>"

definition seed_policies :: "policy_base list" where
  "seed_policies =
     [seed_policy ''demo-public-route'' ''Fail-open public route policy for demos.''
        TOKEN_BUCKET 30 (Some 60) ''/demo/public'' None FAIL_OPEN,
      seed_policy ''demo-protected-route'' ''Fail-closed protected route policy.''
        TOKEN_BUCKET 10 (Some 15) ''/demo/protected'' None FAIL_CLOSED,
      seed_policy ''vip-user-route'' ''User-specific override for the demo user route.''
        SLIDING_WINDOW_LOG 20 None ''/demo/user/{user_id}'' (Some ''vip-user'') FAIL_CLOSED,
      seed_policy ''platform-auth-service'' ''Platform auth service login throttling policy.''
        TOKEN_BUCKET 25 (Some 25) ''/services/auth/session'' None FAIL_CLOSED,
      seed_policy ''platform-payments-service'' ''Platform payments service authorization policy.''
        SLIDING_WINDOW_LOG 12 None ''/services/payments/authorize'' None FAIL_CLOSED,
      seed_policy ''platform-search-service'' ''Platform search service query throttling policy.''
        FIXED_WINDOW 40 None ''/services/search/query'' None FAIL_CLOSED]"

fun seed_loop ::
  "('d, 'k) inst \<Rightarrow> string set \<Rightarrow> policy_base list \<Rightarrow> ('d, 'k) world \<Rightarrow> (app_error + unit) \<times> ('d, 'k) world" where
  "seed_loop I existing [] w = (Inr (), w)"
| "seed_loop I existing (b # bs) w =
     (if pol_name b \<in> existing then seed_loop I existing bs w
      else (case create_policy I b w of
              (Inl e, w1) \<Rightarrow> (Inl e, w1)
            | (Inr _, w1) \<Rightarrow> seed_loop I existing bs w1))"

definition seed_demo_policies :: "('d, 'k) inst \<Rightarrow> ('d, 'k) world \<Rightarrow> (app_error + unit) \<times> ('d, 'k) world" where
  "seed_demo_policies I w =
     (case list_policies I False (w_db w) of
        Inl e \<Rightarrow> (Inl e, w)
      | Inr ps \<Rightarrow> seed_loop I (pol_name ` set ps) seed_policies w)"

section \<open>Benchmark: hosts and scenarios\<close>

definition parse_target_hosts :: "string \<Rightarrow> py_error + string list" where
  "parse_target_hosts raw_hosts =
     (let hosts = map (\<lambda>host. rstrip_slash (strip host)) (filter (\<lambda>host. strip host \<noteq> []) (split_on CHR '','' raw_hosts))
      in if hosts = [] then Inl (ValueError ''At least one target host is required.'') else Inr hosts)"

definition scenario_aliases :: "(string \<times> string) list" where
  "scenario_aliases =
     [(''mixed'', ''mixed''), (''shared-quota'', ''shared-protected''), (''shared-protected'', ''shared-protected''),
      (''burst-route'', ''protected-burst''), (''protected-burst'', ''protected-burst''),
      (''user-hotspot'', ''user-hotspot''), (''ip-hotspot'', ''ip-hotspot''), (''platform-services'', ''platform-services'')]"

definition scenario_labels :: "(string \<times> string) list" where
  "scenario_labels =
     [(''mixed'', ''mixed''), (''shared-protected'', ''shared-quota''), (''protected-burst'', ''burst-route''),
      (''user-hotspot'', ''user-hotspot''), (''ip-hotspot'', ''ip-hotspot''), (''platform-services'', ''platform-services'')]"

definition normalize_scenario :: "string \<Rightarrow> py_error + string" where
  "normalize_scenario raw_scenario =
     (case map_of scenario_aliases (lower (strip raw_scenario)) of
        Some s \<Rightarrow> Inr s
      | None \<Rightarrow>
          Inl (ValueError (''Unsupported scenario '' @ single_quote raw_scenario @ ''. Choose one of: '' @
            join '', '' [''mixed'', ''shared-quota'', ''burst-route'', ''user-hotspot'', ''ip-hotspot'', ''platform-services''])))"

definition display_scenario_name :: "string \<Rightarrow> py_error + string" where
  "display_scenario_name internal_scenario =
     (case map_of scenario_labels internal_scenario of None \<Rightarrow> Inl (KeyError internal_scenario) | Some l \<Rightarrow> Inr l)"

section \<open>Benchmark: policies\<close>

definition bench_payload ::
  "string \<Rightarrow> string \<Rightarrow> string \<Rightarrow> int \<Rightarrow> int option \<Rightarrow> string \<Rightarrow> (string \<times> json) list \<Rightarrow> (string \<times> json) list" where
  "bench_payload name description algorithm rate burst_capacity route selectors =
     [(''name'', JStr name), (''description'', JStr description), (''algorithm'', JStr algorithm),
      (''rate'', JInt rate), (''window_seconds'', JInt 60)] @
     (case burst_capacity of None \<Rightarrow> [] | Some b \<Rightarrow> [(''burst_capacity'', JInt b)]) @
     [(''route'', JStr route)] @ selectors @ [(''failure_mode'', JStr ''fail_closed'')]"

definition benchmark_policy_payloads :: "string \<Rightarrow> (string \<times> json) list list" where
  "benchmark_policy_payloads scenario =
     (if scenario \<in> {''protected-burst'', ''shared-protected''} then
        [bench_payload ''benchmark-shared-protected'' ''Benchmark policy for protected route burst traffic.''
           ''token_bucket'' 120 (Some 120) ''/demo/protected'' []]
      else if scenario = ''user-hotspot'' then
        [bench_payload ''benchmark-user-hotspot'' ''Benchmark policy for user-scoped route traffic.''
           ''token_bucket'' 90 (Some 90) ''/demo/user/{user_id}'' [(''user_id'', JStr ''vip-user'')]]
      else if scenario = ''ip-hotspot'' then
        [bench_payload ''benchmark-ip-hotspot'' ''Benchmark policy for a single forwarded IP.''
           ''fixed_window'' 60 None ''/demo/protected'' [(''ip_address'', JStr ''203.0.113.10'')]]
      else if scenario = ''platform-services'' then
        [bench_payload ''benchmark-auth-service'' ''Benchmark policy for the auth platform service.''
           ''token_bucket'' 80 (Some 80) ''/services/auth/session'' [],
         bench_payload ''benchmark-payments-service'' ''Benchmark policy for the payments platform service.''
           ''sliding_window_log'' 45 None ''/services/payments/authorize'' [],
         bench_payload ''benchmark-search-service'' ''Benchmark policy for the search platform service.''
           ''fixed_window'' 120 None ''/services/search/query'' []]
      else
        [bench_payload ''benchmark-public-mixed'' ''Mixed benchmark route policy for protected endpoint.''
           ''token_bucket'' 120 (Some 120) ''/demo/protected'' [],
         bench_payload ''benchmark-user-mixed'' ''Mixed benchmark route policy for user endpoint.''
           ''sliding_window_log'' 90 None ''/demo/user/{user_id}'' [(''user_id'', JStr ''vip-user'')]])"

text \<open>
  The client talks to the admin API; \<open>decode_create\<close> and \<open>decode_update\<close> stand for the parsing of
  the two body schemas. \<open>raise_for_status\<close> raises with the status of an error response, which
  is the result here.
\<close>

definition post_policy ::
  "('d, 'k) inst \<Rightarrow> ((string \<times> json) list \<Rightarrow> string + policy_base) \<Rightarrow> http_request \<Rightarrow> (string \<times> json) list \<Rightarrow>
   ('d, 'k) world \<Rightarrow> (int + unit) \<times> ('d, 'k) world" where
  "post_policy I decode_create r payload w =
     (case decode_create payload of
        Inl _ \<Rightarrow> (Inl 422, w)
      | Inr b \<Rightarrow>
          (case admin_api I r (PostPolicy b) w of
             (Inl e, w1) \<Rightarrow> (Inl (error_status e), w1) | (Inr _, w1) \<Rightarrow> (Inr (), w1)))"

definition put_policy ::
  "('d, 'k) inst \<Rightarrow> ((string \<times> json) list \<Rightarrow> string + policy_update) \<Rightarrow> http_request \<Rightarrow> uuid \<Rightarrow> (string \<times> json) list \<Rightarrow>
   ('d, 'k) world \<Rightarrow> (int + unit) \<times> ('d, 'k) world" where
  "put_policy I decode_update r i payload w =
     (case decode_update payload of
        Inl _ \<Rightarrow> (Inl 422, w)
      | Inr u \<Rightarrow>
          (case admin_api I r (PutPolicy i u) w of
             (Inl e, w1) \<Rightarrow> (Inl (error_status e), w1) | (Inr _, w1) \<Rightarrow> (Inr (), w1)))"

fun prepare_loop ::
  "((string \<times> json) list \<Rightarrow> ('d, 'k) world \<Rightarrow> (int + unit) \<times> ('d, 'k) world) \<Rightarrow>
   (uuid \<Rightarrow> (string \<times> json) list \<Rightarrow> ('d, 'k) world \<Rightarrow> (int + unit) \<times> ('d, 'k) world) \<Rightarrow>
   (string \<rightharpoonup> uuid) \<Rightarrow> (string \<times> json) list list \<Rightarrow> ('d, 'k) world \<Rightarrow> (int + unit) \<times> ('d, 'k) world" where
  "prepare_loop post put existing [] w = (Inr (), w)"
| "prepare_loop post put existing (payload # payloads) w =
     (case (case map_of payload ''name'' of Some (JStr n) \<Rightarrow> existing n | _ \<Rightarrow> None) of
        None \<Rightarrow>
          (case post payload w of
             (Inl status, w1) \<Rightarrow> (Inl status, w1) | (Inr _, w1) \<Rightarrow> prepare_loop post put existing payloads w1)
      | Some i \<Rightarrow>
          (case put i payload w of
             (Inl status, w1) \<Rightarrow> (Inl status, w1) | (Inr _, w1) \<Rightarrow> prepare_loop post put existing payloads w1))"

definition prepare_benchmark_policies ::
  "('d, 'k) inst \<Rightarrow> ((string \<times> json) list \<Rightarrow> string + policy_base) \<Rightarrow> ((string \<times> json) list \<Rightarrow> string + policy_update) \<Rightarrow>
   http_request \<Rightarrow> string \<Rightarrow> ('d, 'k) world \<Rightarrow> (int + unit) \<times> ('d, 'k) world" where
  "prepare_benchmark_policies I decode_create decode_update r scenario w =
     (case admin_api I r (ListPolicies True) w of
        (Inl e, w1) \<Rightarrow> (Inl (error_status e), w1)
      | (Inr response, w1) \<Rightarrow>
          let items = (case response of PolicyListBody _ ps _ \<Rightarrow> ps | _ \<Rightarrow> []);
              existing = map_of (rev (map (\<lambda>p. (pol_name p, pol_id p)) items))
          in prepare_loop (post_policy I decode_create r) (put_policy I decode_update r) existing
               (benchmark_policy_payloads scenario) w1)"

section \<open>Benchmark: the error report\<close>

text \<open>
  The match of \<open>^\s*(\d+)\s+(.+?)\s*$\<close> on a line: blanks, digits, at least one blank, and a
  message without its trailing blanks. When only blanks follow the digits, two of them are
  enough for a match whose message is the last one.
\<close>

definition match_occurrences :: "string \<Rightarrow> (int \<times> string) option" where
  "match_occurrences line =
     (let s = dropWhile is_space line; digits = takeWhile is_digit s; rest = dropWhile is_digit s;
          blanks = takeWhile is_space rest; message = rstrip (dropWhile is_space rest)
      in if digits = [] \<or> blanks = [] then None
         else if message \<noteq> [] then Some (digits_value digits, message)
         else if 2 \<le> length blanks then Some (digits_value digits, [last blanks])
         else None)"

definition count_line :: "string \<Rightarrow> int \<times> int \<Rightarrow> int \<times> int" where
  "count_line line counts =
     (case counts of
        (blocked_requests, error_requests) \<Rightarrow>
          (case match_occurrences line of
             None \<Rightarrow> (blocked_requests, error_requests)
           | Some (occurrences, error_message) \<Rightarrow>
               if contains ''rate_limit_blocked'' error_message then (blocked_requests + occurrences, error_requests)
               else if \<not> contains ''Error report'' error_message \<and> \<not> contains ''# occurrences'' error_message
               then (blocked_requests, error_requests + occurrences)
               else (blocked_requests, error_requests)))"

text \<open>The log is the list of its lines, or missing.\<close>

definition parse_error_report :: "string list option \<Rightarrow> int \<times> int" where
  "parse_error_report report = (case report of None \<Rightarrow> (0, 0) | Some lines \<Rightarrow> fold count_line lines (0, 0))"

section \<open>Benchmark: the summary\<close>

record benchmark_summary =
  bs_scenario :: string
  bs_correctness_test_count :: int
  bs_target_hosts :: "string list"
  bs_api_instances :: int
  bs_concurrent_users :: int
  bs_spawn_rate :: rat
  bs_run_time :: string
  bs_total_requests :: int
  bs_allowed_requests :: int
  bs_blocked_requests :: int
  bs_error_requests :: int
  bs_avg_latency_ms :: "rat option"
  bs_p95_latency_ms :: "rat option"
  bs_requests_per_second :: "rat option"
  bs_notes :: "string option"
  bs_generated_at_utc :: string

text \<open>
  \<open>summarize_result\<close>, after the console summary has been parsed into total, failures and the
  three optional figures.
\<close>

definition summarize_result ::
  "string \<Rightarrow> int \<Rightarrow> string list \<Rightarrow> int \<Rightarrow> int \<Rightarrow> rat \<Rightarrow> string \<Rightarrow> string option \<Rightarrow>
   int \<times> int \<times> rat option \<times> rat option \<times> rat option \<Rightarrow> string list option \<Rightarrow> string \<Rightarrow> benchmark_summary" where
  "summarize_result scenario test_count hosts api_instances users spawn_rate run_time notes console report now =
     (case console of
        (total_requests, total_failures, avg_latency_ms, p95_latency_ms, requests_per_second) \<Rightarrow>
          (case parse_error_report report of
             (reported_blocked, reported_errors) \<Rightarrow>
               let blocked_requests = (if reported_blocked = 0 \<and> reported_errors = 0 \<and> total_failures > 0
                                       then total_failures else reported_blocked);
                   error_requests = max 0 (total_failures - blocked_requests);
                   allowed_requests = max 0 (total_requests - total_failures)
               in \<lparr>bs_scenario = scenario, bs_correctness_test_count = test_count, bs_target_hosts = hosts,
                   bs_api_instances = api_instances, bs_concurrent_users = users, bs_spawn_rate = spawn_rate,
                   bs_run_time = run_time, bs_total_requests = total_requests,
                   bs_allowed_requests = allowed_requests, bs_blocked_requests = blocked_requests,
                   bs_error_requests = error_requests, bs_avg_latency_ms = avg_latency_ms,
                   bs_p95_latency_ms = p95_latency_ms, bs_requests_per_second = requests_per_second,
                   bs_notes = notes, bs_generated_at_utc = now\<rparr>))"

section \<open>The report of the simulation\<close>

definition render_markdown :: "multi_region_summary \<Rightarrow> string" where
  "render_markdown s =
     join newline
       [''# Multi-Region Consistency Simulation'',
        [],
        ''This run simulates two regional replicas, one in India and one in the US,'',
        ''making local allow/block decisions before asynchronous replication arrives.'',
        [],
        ''| Field | Value |'',
        ''| --- | ---: |'',
        ''| Configured limit | '' @ int_str (ms_configured_limit s) @ '' |'',
        ''| Replication lag (ms) | '' @ int_str (ms_replication_lag_ms s) @ '' |'',
        ''| India requests sent | '' @ int_str (ms_india_requests_sent s) @ '' |'',
        ''| US requests sent | '' @ int_str (ms_us_requests_sent s) @ '' |'',
        ''| India allowed | '' @ int_str (ms_india_allowed s) @ '' |'',
        ''| US allowed | '' @ int_str (ms_us_allowed s) @ '' |'',
        ''| Total allowed | '' @ int_str (ms_total_allowed s) @ '' |'',
        ''| Oversubscription | '' @ int_str (ms_oversubscription s) @ '' |'',
        ''| Stale allowed decisions | '' @ int_str (ms_stale_allowed_decisions s) @ '' |'',
        [],
        ''Oversubscription and stale decisions are the consistency cost of active-active'',
        ''regional replicas with replication lag. The main service avoids this problem by'',
        ''sending rate-limit decisions to one shared Redis coordination layer.'',
        []]"

section \<open>Lemmas: seeding\<close>

lemma seed_policies_ok: "\<forall>b\<in>set seed_policies. policy_ok b"
  by (simp add: seed_policies_def seed_policy_def policy_ok_def validate_policy_def to_policy_payload_def
      field_checks_def failed_checks_def gt_zero_def length_at_most_def validate_algorithm_specifics_def)

definition named :: "string \<Rightarrow> (uuid \<rightharpoonup> policy) \<Rightarrow> bool" where
  "named n t \<longleftrightarrow> (\<exists>i p. t i = Some p \<and> pol_name p = n)"

lemma named_mono: "t \<subseteq>\<^sub>m t' \<Longrightarrow> named n t \<Longrightarrow> named n t'"
  by (metis named_def domI map_le_def)

context policy_database
begin

lemma create_adds:
  assumes "i_db I = D" "ok (w_db w)" "policy_ok b" "create_policy I b w = (Inr p, w')"
  shows "rows (w_db w) \<subseteq>\<^sub>m rows (w_db w')" "named (pol_name b) (rows (w_db w'))" "ok (w_db w')"
proof -
  obtain q d where ins: "db_insert D b (w_db w) = Inr (q, d)" "w_db w' = d"
    using assms(1,4) by (auto simp: create_policy_def split: sum.splits)
  note law = insert_law [OF assms(2) ins(1)]
  then have "pol_name q = pol_name b" by (auto simp: policy_base.defs)
  with law ins(2) show "rows (w_db w) \<subseteq>\<^sub>m rows (w_db w')" "named (pol_name b) (rows (w_db w'))" "ok (w_db w')"
    by (auto simp: map_le_def named_def)
qed

lemma seed_loop_done:
  assumes "i_db I = D"
  shows "ok (w_db w) \<Longrightarrow> \<forall>b\<in>set bs. policy_ok b \<Longrightarrow> \<forall>n\<in>existing. named n (rows (w_db w)) \<Longrightarrow>
    seed_loop I existing bs w = (Inr (), w') \<Longrightarrow>
    ok (w_db w') \<and> rows (w_db w) \<subseteq>\<^sub>m rows (w_db w') \<and> (\<forall>b\<in>set bs. named (pol_name b) (rows (w_db w')))"
proof (induction bs arbitrary: w)
  case (Cons b bs)
  show ?case
  proof (cases "pol_name b \<in> existing")
    case True
    with Cons.IH [of w] Cons.prems show ?thesis by (auto intro: named_mono)
  next
    case False
    then obtain p w1 where run: "create_policy I b w = (Inr p, w1)" "seed_loop I existing bs w1 = (Inr (), w')"
      using Cons.prems(4) by (auto split: prod.splits sum.splits)
    have "policy_ok b" using Cons.prems(2) by simp
    note add = create_adds [OF assms Cons.prems(1) this run(1)]
    have "\<forall>n\<in>existing. named n (rows (w_db w1))" using Cons.prems(3) add(1) by (auto intro: named_mono)
    from Cons.IH [OF add(3) _ this run(2)] Cons.prems(2) add(1,2) show ?thesis
      by (auto intro: named_mono map_le_trans)
  qed
qed simp

end

lemma seed_loop_nothing: "\<forall>b\<in>set bs. pol_name b \<in> existing \<Longrightarrow> seed_loop I existing bs w = (Inr (), w)"
  by (induction bs) auto

section \<open>Properties\<close>

text \<open>
  Seeding adds and repeats harmlessly: a run that succeeds keeps every row that was
  there, leaves a row for each of the six demo names, and a second run creates nothing.
\<close>

theorem seeding_is_idempotent:
  assumes "policy_database (i_db I) rows ok" "ok (w_db w)" "seed_demo_policies I w = (Inr (), w')"
    and "db_select (i_db I) (w_db w') = Inr rs" "\<forall>p\<in>set rs. policy_ok p"
  shows "rows (w_db w) \<subseteq>\<^sub>m rows (w_db w') \<and>
    (\<forall>b\<in>set seed_policies. \<exists>i p. rows (w_db w') i = Some p \<and> pol_name p = pol_name b) \<and>
    seed_demo_policies I w' = (Inr (), w')"
proof -
  obtain ps where ps: "list_policies I False (w_db w) = Inr ps" "seed_loop I (pol_name ` set ps) seed_policies w = (Inr (), w')"
    using assms(3) by (auto simp: seed_demo_policies_def split: sum.splits)
  have "named n (rows (w_db w))" if "n \<in> pol_name ` set ps" for n
  proof -
    obtain rs0 where "db_select (i_db I) (w_db w) = Inr rs0" "set ps = set rs0" using list_policies_cases [OF ps(1)] by auto
    with policy_database.select_law [OF assms(1,2)] have "set ps = ran (rows (w_db w))" by simp
    with that show ?thesis by (auto simp: named_def ran_def)
  qed
  with policy_database.seed_loop_done [OF assms(1) refl assms(2) seed_policies_ok _ ps(2)]
  have done': "ok (w_db w')" "rows (w_db w) \<subseteq>\<^sub>m rows (w_db w')" "\<forall>b\<in>set seed_policies. named (pol_name b) (rows (w_db w'))"
    by blast+
  obtain qs where qs: "list_policies I False (w_db w') = Inr qs" using list_policies_succeeds [OF assms(4,5)] by blast
  have "set qs = ran (rows (w_db w'))"
    using list_policies_cases [OF qs] policy_database.select_law [OF assms(1) done'(1) assms(4)] assms(4) by auto
  with done'(3) have "\<forall>b\<in>set seed_policies. pol_name b \<in> pol_name ` set qs"
    by (force simp: named_def ran_def)
  with done' qs show ?thesis
    by (simp add: seed_demo_policies_def seed_loop_nothing named_def)
qed

definition half_seeded :: "(memory_db, keyspace) world" where
  "half_seeded = demo_world\<lparr>w_db :=
     \<lparr>md_rows = map (\<lambda>(i, b). policy_base.extend b (policy.fields i 1 0 0)) (zip [1, 2, 3, 4, 5] seed_policies),
      md_ids = [9], md_now = 0\<rparr>\<rparr>"

lemma stored_policy_ok: "policy_ok (policy_base.extend b (policy.fields i v c u)) \<longleftrightarrow> policy_ok b"
proof -
  have "policy_base.truncate (policy_base.extend b (policy.fields i v c u)) = b"
    by (cases b) (simp add: policy_base.defs policy.defs)
  then show ?thesis using policy_ok_truncate [of "policy_base.extend b (policy.fields i v c u)"] by simp
qed

lemma half_seeded_rows:
  "md_ok (w_db half_seeded)" "\<forall>p\<in>set (md_rows (w_db half_seeded)). policy_ok p"
  "pol_name ` set (md_rows (w_db half_seeded)) = set (map pol_name (butlast seed_policies))"
proof -
  show "md_ok (w_db half_seeded)" by (simp add: half_seeded_def md_ok_def seed_policies_def seed_policy_def policy_base.defs policy.defs)
  show "pol_name ` set (md_rows (w_db half_seeded)) = set (map pol_name (butlast seed_policies))"
    by (simp add: half_seeded_def seed_policies_def seed_policy_def policy_base.defs policy.defs)
  show "\<forall>p\<in>set (md_rows (w_db half_seeded)). policy_ok p"
    using seed_policies_ok by (auto simp: half_seeded_def stored_policy_ok dest!: set_zip_rightD)
qed

lemma half_seeded_run:
  "\<exists>w'. seed_demo_policies demo_inst half_seeded = (Inr (), w') \<and> (\<forall>p\<in>set (md_rows (w_db w')). policy_ok p)"
proof -
  let ?b = "last seed_policies"
  let ?q = "policy_base.extend ?b (policy.fields 9 1 0 0)"
  have sel: "db_select (i_db demo_inst) (w_db half_seeded) = Inr (md_rows (w_db half_seeded))" by (simp add: memory_database_def)
  obtain ps where ps: "list_policies demo_inst False (w_db half_seeded) = Inr ps"
    using list_policies_succeeds [OF sel half_seeded_rows(2)] by blast
  then have names: "pol_name ` set ps = set (map pol_name (butlast seed_policies))"
    using list_policies_cases [OF ps] sel half_seeded_rows(3) by auto
  have seq: "seed_policies = butlast seed_policies @ [?b]" by (simp add: seed_policies_def)
  have new: "pol_name ?b \<notin> set (map pol_name (butlast seed_policies))" by (simp add: seed_policies_def seed_policy_def)
  have skip: "\<forall>b\<in>set bs. pol_name b \<in> E \<Longrightarrow> seed_loop I E (bs @ cs) w = seed_loop I E cs w" for bs E cs w and I :: "(memory_db, keyspace) inst"
    by (induction bs) auto
  have "policy_ok ?b" using seed_policies_ok by (simp add: seed_policies_def)
  then have q: "policy_ok ?q" by (simp only: stored_policy_ok)
  have "md_insert ?b (w_db half_seeded) = Inr (?q, (w_db half_seeded)\<lparr>md_rows := md_rows (w_db half_seeded) @ [?q], md_ids := []\<rparr>)"
    using new half_seeded_rows(3)
    by (simp add: md_insert_def Let_def half_seeded_def seed_policies_def seed_policy_def policy_base.defs policy.defs)
  then have "create_policy demo_inst ?b half_seeded = (Inr ?q, invalidate_policy_cache demo_inst ''create'' (uuid_str 9)
      (half_seeded\<lparr>w_db := (w_db half_seeded)\<lparr>md_rows := md_rows (w_db half_seeded) @ [?q], md_ids := []\<rparr>\<rparr>))"
    by (simp add: create_policy_def memory_database_def read_policy_ok [OF q]) (simp add: policy_base.defs policy.defs)
  moreover have "seed_demo_policies demo_inst half_seeded = seed_loop demo_inst (pol_name ` set ps) [?b] half_seeded"
    unfolding seed_demo_policies_def ps sum.case by (subst seq) (rule skip, simp add: names)
  ultimately show ?thesis using new q half_seeded_rows(2) by (simp add: names)
qed

theorem seeding_is_idempotent_witness:
  "\<exists>w'. seed_demo_policies demo_inst half_seeded = (Inr (), w') \<and> seed_demo_policies demo_inst w' = (Inr (), w')"
proof -
  obtain w' where run: "seed_demo_policies demo_inst half_seeded = (Inr (), w')" "\<forall>p\<in>set (md_rows (w_db w')). policy_ok p"
    using half_seeded_run by blast
  have sel: "db_select (i_db demo_inst) (w_db w') = Inr (md_rows (w_db w'))" by (simp add: memory_database_def)
  from seeding_is_idempotent [where rows = md_row and ok = md_ok, OF _ half_seeded_rows(1) run(1) sel run(2)] memory_database.policy_database_axioms run(1)
  show ?thesis by auto
qed

text \<open>
  Scenario names survive the round trip through their public label: what an accepted name
  stands for has a label, and that label is accepted again and stands for the same scenario.
\<close>

theorem scenario_label_roundtrip:
  assumes "normalize_scenario raw = Inr s"
  shows "\<exists>l. display_scenario_name s = Inr l \<and> normalize_scenario l = Inr s"
proof -
  have "map_of scenario_aliases (lower (strip raw)) = Some s" using assms by (auto simp: normalize_scenario_def split: option.splits)
  then have "(lower (strip raw), s) \<in> set scenario_aliases" by (rule map_of_SomeD)
  then have "s \<in> snd ` set scenario_aliases" by force
  moreover have "\<forall>t\<in>snd ` set scenario_aliases. (case map_of scenario_labels t of None \<Rightarrow> False
      | Some l \<Rightarrow> map_of scenario_aliases (lower (strip l)) = Some t)" by code_simp
  ultimately obtain l where "map_of scenario_labels s = Some l" "map_of scenario_aliases (lower (strip l)) = Some s"
    by (auto split: option.splits)
  then show ?thesis by (simp add: display_scenario_name_def normalize_scenario_def)
qed

theorem scenario_label_roundtrip_witness:
  "\<exists>l. display_scenario_name ''shared-protected'' = Inr l \<and> normalize_scenario l = Inr ''shared-protected''"
proof -
  have "normalize_scenario '' Shared-Quota'' = Inr ''shared-protected''" by code_simp
  then show ?thesis by (rule scenario_label_roundtrip)
qed

text \<open>
  The totals of a benchmark summary: with no more failures than requests and no more
  reported blocked requests than failures, allowed, blocked and error requests add up to the
  total; the error lines of the report count only when they are all there is.
\<close>

theorem benchmark_totals_add_up:
  assumes "sm = summarize_result scenario n hosts a u sp rt notes (sent, failures, lat, p95, rps) report now"
    and "0 \<le> failures" "failures \<le> sent" "0 \<le> fst (parse_error_report report)" "fst (parse_error_report report) \<le> failures"
  shows "bs_allowed_requests sm + bs_blocked_requests sm + bs_error_requests sm = bs_total_requests sm \<and>
    bs_blocked_requests sm \<le> failures"
  using assms(2-5) unfolding assms(1) by (auto simp: summarize_result_def Let_def split: prod.split)

theorem benchmark_totals_add_up_witness:
  "\<exists>sm. sm = summarize_result ''shared-quota'' 1 [] 1 1 1 ''1s'' None (10, 5, None, None, None)
       (Some [''   3 rate_limit_blocked'', ''   2 unexpected server error 500'']) ''now'' \<and>
     bs_allowed_requests sm + bs_blocked_requests sm + bs_error_requests sm = 10"
proof -
  let ?r = "Some [''   3 rate_limit_blocked'', ''   2 unexpected server error 500'']"
  have report: "parse_error_report ?r = (3, 2)" by code_simp
  let ?sm = "summarize_result ''shared-quota'' 1 [] 1 1 1 ''1s'' None (10, 5, None, None, None) ?r ''now''"
  have "bs_total_requests ?sm = 10" by (simp add: summarize_result_def report)
  with benchmark_totals_add_up [of ?sm "''shared-quota''" 1 "[]" 1 1 1 "''1s''" None 10 5 None None None ?r "''now''"] report
  show ?thesis by simp
qed

definition switched_off :: policy where
  "switched_off = example_policy\<lparr>pol_name := ''benchmark-shared-protected'', pol_active := False\<rparr>"

text \<open>
  Preparing a benchmark trips over a policy that was switched off: the list of existing
  policies has only the active ones, so a policy of the right name that is inactive is not
  seen, the script posts it again, the unique name is violated, and the run ends on a 500
  with nothing changed.
\<close>

theorem prepare_fails_on_inactive_policy:
  "prepare_benchmark_policies demo_inst strict_decode decode_update (token_request (Some ''change-me'')) ''shared-protected''
     (demo_world\<lparr>w_db := \<lparr>md_rows = [switched_off], md_ids = [2], md_now = 0\<rparr>\<rparr>) =
   (Inl 500, demo_world\<lparr>w_db := \<lparr>md_rows = [switched_off], md_ids = [2], md_now = 0\<rparr>\<rparr>)"
proof -
  let ?w = "demo_world\<lparr>w_db := \<lparr>md_rows = [switched_off], md_ids = [2], md_now = 0\<rparr>\<rparr>"
  let ?p = "bench_payload ''benchmark-shared-protected'' ''Benchmark policy for protected route burst traffic.''
    ''token_bucket'' 120 (Some 120) ''/demo/protected'' []"
  let ?r = "token_request (Some ''change-me'')"
  have guard: "require_admin_token default_settings ?r = Inr ()" by code_simp
  have none: "list_policies demo_inst True \<lparr>md_rows = [switched_off], md_ids = [2], md_now = 0\<rparr> = Inr []"
    by (simp add: list_policies_def memory_database_def switched_off_def)
  obtain b where dec: "strict_decode ?p = Inr b" "pol_name b = ''benchmark-shared-protected''"
  proof -
    have "(case strict_decode ?p of Inl _ \<Rightarrow> False | Inr b \<Rightarrow> pol_name b = ''benchmark-shared-protected'')" by code_simp
    with that show ?thesis by (auto split: sum.splits)
  qed
  have "create_policy demo_inst b ?w = (Inl (DatabaseError IntegrityError), ?w)"
    by (simp add: create_policy_def memory_database_def md_insert_def dec(2) switched_off_def)
  then have post: "post_policy demo_inst strict_decode ?r ?p ?w = (Inl 500, ?w)"
    by (simp add: post_policy_def dec(1) admin_api_def guarded_def guard error_status_def)
  have name: "map_of ?p ''name'' = Some (JStr ''benchmark-shared-protected'')" by (simp add: bench_payload_def)
  have "benchmark_policy_payloads ''shared-protected'' = [?p]" by (simp add: benchmark_policy_payloads_def)
  then show ?thesis
    by (simp add: prepare_benchmark_policies_def admin_api_def guarded_def guard none name post)
qed

end
