(* ===== verification/Load_Test.thy ===== *)
theory Load_Test
  imports Routes Scripts
begin

text \<open>
  The load test (\<open>loadtests/locustfile.py\<close>): its settings from the environment, the simulated
  user with its weighted tasks, the verdict on a response and the counting of statuses. The
  random draws are arguments: the index of a choice, the number drawn from a range.
\<close>

section \<open>Settings\<close>

definition getenv :: "(string \<rightharpoonup> string) \<Rightarrow> string \<Rightarrow> string \<Rightarrow> string" where
  "getenv env name otherwise = (case env name of None \<Rightarrow> otherwise | Some v \<Rightarrow> v)"

definition env_target_hosts :: "(string \<rightharpoonup> string) \<Rightarrow> string list" where
  "env_target_hosts env =
     map strip (filter (\<lambda>host. strip host \<noteq> []) (split_on CHR '','' (getenv env ''RATE_LIMIT_TARGET_HOSTS'' [])))"

definition env_scenario :: "(string \<rightharpoonup> string) \<Rightarrow> string" where
  "env_scenario env = lower (strip (getenv env ''RATE_LIMIT_SCENARIO'' ''mixed''))"

text \<open>\<open>random.choice\<close> of a non-empty list, by the drawn index.\<close>

definition choice :: "'a list \<Rightarrow> nat \<Rightarrow> 'a" where
  "choice xs draw = xs ! (draw mod length xs)"

definition selected_base_url :: "string list \<Rightarrow> nat \<Rightarrow> string \<Rightarrow> string" where
  "selected_base_url target_hosts draw default_host =
     (if target_hosts \<noteq> [] then choice target_hosts draw else rstrip_slash default_host)"

section \<open>The simulated user\<close>

record load_user =
  lu_user_id :: string
  lu_tenant_id :: string
  lu_forwarded_for :: string

definition user_ids :: "string list" where
  "user_ids = [''alice'', ''bob'', ''vip-user'', ''charlie'']"

definition tenant_ids :: "string list" where
  "tenant_ids = [''tenant-a'', ''tenant-b'']"

definition on_start :: "nat \<Rightarrow> nat \<Rightarrow> int \<Rightarrow> load_user" where
  "on_start user_draw tenant_draw octet =
     \<lparr>lu_user_id = choice user_ids user_draw, lu_tenant_id = choice tenant_ids tenant_draw,
      lu_forwarded_for = ''203.0.113.'' @ int_str octet\<rparr>"

definition load_headers :: "load_user \<Rightarrow> string \<rightharpoonup> string" where
  "load_headers u = [''X-Tenant-Id'' \<mapsto> lu_tenant_id u, ''X-Forwarded-For'' \<mapsto> lu_forwarded_for u]"

record load_request =
  lr_method :: string
  lr_path :: string
  lr_name :: string
  lr_headers :: "string \<rightharpoonup> string"

datatype task =
    PublicEndpoint
  | ProtectedEndpoint
  | UserEndpoint
  | IpHotspotEndpoint
  | ProtectedBurstEndpoint
  | AuthServiceEndpoint
  | PaymentsServiceEndpoint
  | SearchServiceEndpoint

definition all_tasks :: "task list" where
  "all_tasks =
     [PublicEndpoint, ProtectedEndpoint, UserEndpoint, IpHotspotEndpoint, ProtectedBurstEndpoint,
      AuthServiceEndpoint, PaymentsServiceEndpoint, SearchServiceEndpoint]"

fun task_weight :: "task \<Rightarrow> nat" where
  "task_weight PublicEndpoint = 2"
| "task_weight ProtectedEndpoint = 4"
| "task_weight UserEndpoint = 4"
| "task_weight IpHotspotEndpoint = 3"
| "task_weight ProtectedBurstEndpoint = 3"
| "task_weight AuthServiceEndpoint = 3"
| "task_weight PaymentsServiceEndpoint = 2"
| "task_weight SearchServiceEndpoint = 4"

definition request :: "string \<Rightarrow> string \<Rightarrow> string \<Rightarrow> load_user \<Rightarrow> load_request option \<times> load_user" where
  "request method path name u = (Some \<lparr>lr_method = method, lr_path = path, lr_name = name, lr_headers = load_headers u\<rparr>, u)"

text \<open>One run of a task: the request it sends, unless the scenario switches it off.\<close>

fun run_task :: "string \<Rightarrow> task \<Rightarrow> load_user \<Rightarrow> load_request option \<times> load_user" where
  "run_task scenario PublicEndpoint u =
     (if scenario \<notin> {''mixed'', ''public-heavy''} then (None, u) else request ''GET'' ''/demo/public'' ''/demo/public'' u)"
| "run_task scenario ProtectedEndpoint u =
     (if scenario \<notin> {''mixed'', ''protected-burst'', ''shared-protected''} then (None, u)
      else request ''GET'' ''/demo/protected'' ''/demo/protected'' u)"
| "run_task scenario UserEndpoint u =
     (if scenario \<notin> {''mixed'', ''user-hotspot''} then (None, u)
      else request ''GET'' (''/demo/user/'' @ lu_user_id u) ''/demo/user/{user_id}'' u)"
| "run_task scenario IpHotspotEndpoint u =
     (if scenario \<noteq> ''ip-hotspot'' then (None, u)
      else request ''GET'' ''/demo/protected'' ''/demo/protected[ip-hotspot]'' (u\<lparr>lu_forwarded_for := ''203.0.113.10''\<rparr>))"
| "run_task scenario ProtectedBurstEndpoint u =
     (if scenario \<notin> {''protected-burst'', ''shared-protected''} then (None, u)
      else request ''GET'' ''/demo/protected'' ''/demo/protected[burst]'' u)"
| "run_task scenario AuthServiceEndpoint u =
     (if scenario \<noteq> ''platform-services'' then (None, u)
      else request ''POST'' ''/services/auth/session'' ''/services/auth/session'' u)"
| "run_task scenario PaymentsServiceEndpoint u =
     (if scenario \<noteq> ''platform-services'' then (None, u)
      else request ''POST'' ''/services/payments/authorize'' ''/services/payments/authorize'' u)"
| "run_task scenario SearchServiceEndpoint u =
     (if scenario \<noteq> ''platform-services'' then (None, u)
      else request ''GET'' ''/services/search/query'' ''/services/search/query'' u)"

section \<open>Statuses\<close>

datatype verdict = Success | Failure string

definition response_verdict :: "int \<Rightarrow> verdict" where
  "response_verdict status_code =
     (if status_code = 429 then Failure ''rate_limit_blocked''
      else if status_code \<ge> 500 then Failure (''unexpected server error '' @ int_str status_code)
      else Success)"

text \<open>A counter is the list of its keys in the order of their first use, with their counts.\<close>

type_synonym status_counts = "(string \<times> int) list"

fun record_status :: "string \<Rightarrow> status_counts \<Rightarrow> status_counts" where
  "record_status s [] = [(s, 1)]"
| "record_status s ((k, n) # counts) = (if k = s then (k, n + 1) # counts else (k, n) # record_status s counts)"

text \<open>
  A response arrives with its status, or the client raises and the exception goes on to locust,
  which makes it a failure with its text.
\<close>

definition finish_request :: "string + int \<Rightarrow> status_counts \<Rightarrow> verdict \<times> status_counts" where
  "finish_request response counts =
     (case response of
        Inl e \<Rightarrow> (Failure e, record_status ''EXCEPTION'' counts)
      | Inr status_code \<Rightarrow> (response_verdict status_code, record_status (int_str status_code) counts))"

definition status_report :: "string \<Rightarrow> status_counts \<Rightarrow> string" where
  "status_report scenario counts =
     json_dumps_indent (JObj
       [(''scenario'', JStr scenario), (''status_counts'', JObj (map (\<lambda>(k, n). (k, JInt n)) (sort_key fst counts)))]) @ newline"

text \<open>What is written on quitting: nothing without an output path.\<close>

definition write_status_counts :: "string option \<Rightarrow> string \<Rightarrow> status_counts \<Rightarrow> (string \<times> string) option" where
  "write_status_counts output_path scenario counts =
     (case output_path of
        Some (c # cs) \<Rightarrow> Some (c # cs, status_report scenario counts)
      | _ \<Rightarrow> None)"

section \<open>Lemmas\<close>

text \<open>A request falls under a policy that was prepared for the scenario.\<close>

definition covered :: "string \<Rightarrow> http_request \<Rightarrow> bool" where
  "covered scenario r \<longleftrightarrow>
     list_ex (\<lambda>payload. case strict_decode payload of
         Inl _ \<Rightarrow> False
       | Inr b \<Rightarrow> policy_matches (policy_base.extend b (policy.fields 0 1 0 0)) (build_request_identity r))
       (benchmark_policy_payloads scenario)"

definition selectors :: "(string \<times> json) list \<Rightarrow> (string option \<times> string option \<times> string option \<times> string option \<times> string option) option" where
  "selectors payload =
     (case strict_decode payload of
        Inl _ \<Rightarrow> None
      | Inr b \<Rightarrow> Some (pol_route b, pol_user_id b, pol_ip_address b, pol_tenant_id b, pol_api_key b))"

definition selectors_match ::
  "request_identity \<Rightarrow> (string option \<times> string option \<times> string option \<times> string option \<times> string option) option \<Rightarrow> bool" where
  "selectors_match i x =
     (case x of
        None \<Rightarrow> False
      | Some (route, user, ip, tenant, key) \<Rightarrow>
          selector_ok route (Some (id_route i)) \<and> selector_ok user (id_user_id i) \<and> selector_ok ip (id_ip_address i) \<and>
          selector_ok tenant (id_tenant_id i) \<and> selector_ok key (id_api_key i))"

lemma covered_selectors:
  "covered scenario r = list_ex (selectors_match (build_request_identity r)) (map selectors (benchmark_policy_payloads scenario))"
proof -
  have "(case strict_decode x of Inl _ \<Rightarrow> False
      | Inr b \<Rightarrow> policy_matches (policy_base.extend b (policy.fields 0 1 0 0)) (build_request_identity r)) =
    selectors_match (build_request_identity r) (selectors x)" for x
    by (auto simp: selectors_def selectors_match_def policy_matches_iff policy_base.defs policy.defs split: sum.split)
  then show ?thesis by (simp add: covered_def list_ex_iff)
qed

lemma bench_selectors:
  "map selectors (benchmark_policy_payloads ''shared-protected'') = [Some (Some ''/demo/protected'', None, None, None, None)]"
  "map selectors (benchmark_policy_payloads ''protected-burst'') = [Some (Some ''/demo/protected'', None, None, None, None)]"
  "map selectors (benchmark_policy_payloads ''user-hotspot'') = [Some (Some ''/demo/user/{user_id}'', Some ''vip-user'', None, None, None)]"
  "map selectors (benchmark_policy_payloads ''ip-hotspot'') = [Some (Some ''/demo/protected'', None, Some ''203.0.113.10'', None, None)]"
  "map selectors (benchmark_policy_payloads ''platform-services'') =
     [Some (Some ''/services/auth/session'', None, None, None, None), Some (Some ''/services/payments/authorize'', None, None, None, None),
      Some (Some ''/services/search/query'', None, None, None, None)]"
  "map selectors (benchmark_policy_payloads ''mixed'') =
     [Some (Some ''/demo/protected'', None, None, None, None), Some (Some ''/demo/user/{user_id}'', Some ''vip-user'', None, None, None)]"
  by code_simp+

lemma hotspot_ip: "strip (before_comma ''203.0.113.10'') = ''203.0.113.10''"
  by code_simp

text \<open>The routes the tasks ask for.\<close>

lemma task_routes:
  "find_route api_router ''GET'' ''/demo/public'' = Some (Route ''GET'' ''/demo/public'' RateLimit ''demo_public'', [])"
  "find_route api_router ''GET'' ''/demo/protected'' = Some (Route ''GET'' ''/demo/protected'' RateLimit ''demo_protected'', [])"
  "find_route api_router ''POST'' ''/services/auth/session'' = Some (Route ''POST'' ''/services/auth/session'' RateLimit ''auth_session'', [])"
  "find_route api_router ''POST'' ''/services/payments/authorize'' =
     Some (Route ''POST'' ''/services/payments/authorize'' RateLimit ''payments_authorize'', [])"
  "find_route api_router ''GET'' ''/services/search/query'' = Some (Route ''GET'' ''/services/search/query'' RateLimit ''search_query'', [])"
  by code_simp+

lemma user_routes:
  "uid \<in> set user_ids \<Longrightarrow>
     find_route api_router ''GET'' (''/demo/user/'' @ uid) = Some (Route ''GET'' ''/demo/user/{user_id}'' RateLimit ''demo_user'', [(''user_id'', uid)])"
proof -
  have "list_all (\<lambda>uid. find_route api_router ''GET'' (''/demo/user/'' @ uid) =
      Some (Route ''GET'' ''/demo/user/{user_id}'' RateLimit ''demo_user'', [(''user_id'', uid)])) user_ids" by code_simp
  then show "uid \<in> set user_ids \<Longrightarrow>
     find_route api_router ''GET'' (''/demo/user/'' @ uid) = Some (Route ''GET'' ''/demo/user/{user_id}'' RateLimit ''demo_user'', [(''user_id'', uid)])"
    unfolding list_all_iff by blast
qed

lemma user_ids_nonempty: "uid \<in> set user_ids \<Longrightarrow> uid \<noteq> []"
  by (auto simp: user_ids_def)

lemma runner_scenarios:
  "snd ` set scenario_aliases =
     {''mixed'', ''shared-protected'', ''protected-burst'', ''user-hotspot'', ''ip-hotspot'', ''platform-services''}"
  by (auto simp: scenario_aliases_def)

section \<open>Properties\<close>

lemma routed_endpoint:
  assumes "find_route api_router m p = Some (r, ps)"
  shows "routed_request m p hs client =
    Some (r, \<lparr>req_route_path = Some (ep_path r), req_url_path = p, req_headers = hs, req_path_params = map_of ps, req_client_host = client\<rparr>)"
  using assms by (simp add: routed_request_def)

lemmas coverage_eval = covered_selectors bench_selectors selectors_match_def selector_ok_def build_request_identity_def
  route_template_def Route_def

lemma service_traffic_covered:
  assumes "run_task scenario t u = (Some q, u')" "t \<in> {AuthServiceEndpoint, PaymentsServiceEndpoint, SearchServiceEndpoint}"
  shows "\<exists>rt h. routed_request (lr_method q) (lr_path q) (lr_headers q) client = Some (rt, h) \<and> ep_guard rt = RateLimit \<and>
    covered scenario h"
proof -
  have "scenario = ''platform-services''"
    "(lr_method q, lr_path q) \<in> {(''POST'', ''/services/auth/session''), (''POST'', ''/services/payments/authorize''),
      (''GET'', ''/services/search/query'')}"
    using assms by (auto simp: request_def split: if_splits)
  then show ?thesis
    by (elim insertE emptyE) (simp_all add: routed_endpoint [OF task_routes(3)] routed_endpoint [OF task_routes(4)]
        routed_endpoint [OF task_routes(5)] coverage_eval)
qed

text \<open>
  C35. The load test exercises what the runner prepared: in every scenario the runner can start,
  each request a task sends reaches a route behind the limiter, and it falls under a prepared
  policy, except the requests to the public route in the mixed scenario and those to the user
  route by a user other than the one with a policy.
\<close>

theorem scenario_traffic_covered:
  assumes "scenario \<in> snd ` set scenario_aliases" "lu_user_id u \<in> set user_ids" "run_task scenario t u = (Some q, u')"
  shows "\<exists>rt h. routed_request (lr_method q) (lr_path q) (lr_headers q) client = Some (rt, h) \<and> ep_guard rt = RateLimit \<and>
    (covered scenario h \<longleftrightarrow> t \<noteq> PublicEndpoint \<and> (t = UserEndpoint \<longrightarrow> lu_user_id u = ''vip-user''))"
proof -
  have uid: "lu_user_id u \<noteq> []" by (rule user_ids_nonempty [OF assms(2)])
  note task = assms(3)
  show ?thesis
  proof (cases t)
    case PublicEndpoint
    then have "scenario = ''mixed''" "q = \<lparr>lr_method = ''GET'', lr_path = ''/demo/public'', lr_name = ''/demo/public'', lr_headers = load_headers u\<rparr>"
      using assms(1) task by (auto simp: runner_scenarios request_def split: if_splits)
    then show ?thesis using PublicEndpoint by (simp add: routed_endpoint [OF task_routes(1)] coverage_eval)
  next
    case ProtectedEndpoint
    then have "scenario \<in> {''mixed'', ''protected-burst'', ''shared-protected''}" "lr_method q = ''GET''" "lr_path q = ''/demo/protected''"
      using task by (auto simp: request_def split: if_splits)
    then show ?thesis using ProtectedEndpoint by (elim insertE emptyE) (simp_all add: routed_endpoint [OF task_routes(2)] coverage_eval)
  next
    case UserEndpoint
    then have "scenario \<in> {''mixed'', ''user-hotspot''}" "lr_method q = ''GET''" "lr_path q = ''/demo/user/'' @ lu_user_id u"
      using task by (auto simp: request_def split: if_splits)
    then show ?thesis using UserEndpoint uid
      by (elim insertE emptyE) (simp_all only: routed_endpoint [OF user_routes [OF assms(2)]], auto simp: coverage_eval or_str_def)
  next
    case IpHotspotEndpoint
    then have "scenario = ''ip-hotspot''" "lr_method q = ''GET''" "lr_path q = ''/demo/protected''"
      "lr_headers q = load_headers (u\<lparr>lu_forwarded_for := ''203.0.113.10''\<rparr>)"
      using task by (auto simp: request_def split: if_splits)
    then show ?thesis using IpHotspotEndpoint
      by (simp add: routed_endpoint [OF task_routes(2)] coverage_eval extract_client_ip_def load_headers_def hotspot_ip)
  next
    case ProtectedBurstEndpoint
    then have "scenario \<in> {''protected-burst'', ''shared-protected''}" "lr_method q = ''GET''" "lr_path q = ''/demo/protected''"
      using task by (auto simp: request_def split: if_splits)
    then show ?thesis using ProtectedBurstEndpoint by (elim insertE emptyE) (simp_all add: routed_endpoint [OF task_routes(2)] coverage_eval)
  next
    case AuthServiceEndpoint then show ?thesis using service_traffic_covered [OF task] by simp
  next
    case PaymentsServiceEndpoint then show ?thesis using service_traffic_covered [OF task] by simp
  next
    case SearchServiceEndpoint then show ?thesis using service_traffic_covered [OF task] by simp
  qed
qed

theorem scenario_traffic_covered_witness:
  "\<exists>rt h. routed_request ''GET'' ''/demo/protected'' (load_headers (on_start 0 0 7\<lparr>lu_forwarded_for := ''203.0.113.10''\<rparr>)) None = Some (rt, h) \<and>
     covered ''ip-hotspot'' h"
proof -
  have scenario: "''ip-hotspot'' \<in> snd ` set scenario_aliases" by (simp add: runner_scenarios)
  have user: "lu_user_id (on_start 0 0 7) \<in> set user_ids" by (simp add: on_start_def choice_def user_ids_def)
  have task: "run_task ''ip-hotspot'' IpHotspotEndpoint (on_start 0 0 7) =
      (Some \<lparr>lr_method = ''GET'', lr_path = ''/demo/protected'', lr_name = ''/demo/protected[ip-hotspot]'',
         lr_headers = load_headers (on_start 0 0 7\<lparr>lu_forwarded_for := ''203.0.113.10''\<rparr>)\<rparr>,
       on_start 0 0 7\<lparr>lu_forwarded_for := ''203.0.113.10''\<rparr>)" by (simp add: request_def)
  from scenario_traffic_covered [OF scenario user task, where client = None] show ?thesis
    by (simp only: load_request.simps task.distinct simp_thms) blast
qed

text \<open>The requests of a run, one after the other under the lock, from an empty counter.\<close>

definition count_requests :: "(string + int) list \<Rightarrow> verdict list \<times> status_counts" where
  "count_requests rs =
     fold (\<lambda>r (vs, counts). case finish_request r counts of (v, counts') \<Rightarrow> (vs @ [v], counts')) rs ([], [])"

definition count_of :: "status_counts \<Rightarrow> string \<Rightarrow> int" where
  "count_of counts k = (case map_of counts k of None \<Rightarrow> 0 | Some n \<Rightarrow> n)"

lemma count_of_record: "count_of (record_status s counts) k = count_of counts k + (if k = s then 1 else 0)"
  by (induction s counts rule: record_status.induct) (auto simp: count_of_def)

lemma record_status_sum: "sum_list (map snd (record_status s counts)) = sum_list (map snd counts) + 1"
  by (induction s counts rule: record_status.induct) auto

lemma record_status_keys: "fst ` set (record_status s counts) = insert s (fst ` set counts)"
  by (induction s counts rule: record_status.induct) auto

lemma record_status_distinct: "distinct (map fst counts) \<Longrightarrow> distinct (map fst (record_status s counts))"
proof (induction s counts rule: record_status.induct)
  case (2 s k n counts)
  have "k \<notin> fst ` set (record_status s counts)" if "k \<noteq> s" using 2(2) that by (simp add: record_status_keys)
  with 2 show ?case by auto
qed simp

lemma int_str_eq_iff [simp]: "int_str a = int_str b \<longleftrightarrow> a = b"
  by (metis option.inject parse_int_str)

lemma int_str_not_exception [simp]: "int_str a \<noteq> ''EXCEPTION''" "''EXCEPTION'' \<noteq> int_str a"
proof -
  have "parse_int ''EXCEPTION'' = None" by code_simp
  then show "int_str a \<noteq> ''EXCEPTION''" "''EXCEPTION'' \<noteq> int_str a" by (metis option.discI parse_int_str)+
qed

definition failed_response :: "string + int \<Rightarrow> bool" where
  "failed_response r = (case r of Inl _ \<Rightarrow> True | Inr status_code \<Rightarrow> status_code = 429 \<or> status_code \<ge> 500)"

lemma count_requests_snoc:
  "count_requests (rs @ [r]) =
     (case count_requests rs of (vs, counts) \<Rightarrow> case finish_request r counts of (v, counts') \<Rightarrow> (vs @ [v], counts'))"
  by (simp add: count_requests_def)

text \<open>
  Every request of a load test is counted once, under its status or as an exception: the
  counts add up to the requests, each count is the number of responses with that status, the
  report lists every key with its count, and locust is told of a failure exactly for a 429, a
  status from 500 on and an exception; any other refusal counts as a success.
\<close>

theorem statuses_accounted:
  "case count_requests rs of
     (vs, counts) \<Rightarrow>
       distinct (map fst counts) \<and> sum_list (map snd counts) = int (length rs) \<and>
       (\<forall>status_code. count_of counts (int_str status_code) = int (count_list rs (Inr status_code))) \<and>
       count_of counts ''EXCEPTION'' = int (length (filter (\<lambda>r. \<not> is_ok r) rs)) \<and>
       set (sort_key fst counts) = set counts \<and>
       map (\<lambda>v. v \<noteq> Success) vs = map failed_response rs"
proof (induction rs rule: rev_induct)
  case Nil
  show ?case by (simp add: count_requests_def count_of_def)
next
  case (snoc r rs)
  obtain vs counts where before: "count_requests rs = (vs, counts)" by (cases "count_requests rs")
  have verdict: "(response_verdict c \<noteq> Success) = (c = 429 \<or> c \<ge> 500)" for c by (simp add: response_verdict_def)
  show ?case
    using snoc
    by (cases r)
       (simp_all add: before count_requests_snoc finish_request_def count_of_record record_status_sum record_status_distinct
          failed_response_def verdict)
qed

end
