(* ===== verification/Script_Runs.thy ===== *)
theory Script_Runs
  imports Scripts
begin

text \<open>
  The two scripts that leave a result directory behind, from their options to their files:
  \<open>scripts/run_benchmark.py\<close> and \<open>scripts/run_multi_region_simulation.py\<close>. What they start (pytest,
  locust) and what they talk to (the admin API) is an argument: a process is a function of its
  command line and environment on the file system.

  \<open>argparse\<close> splits the command line; here are the options it is told of, with their defaults and
  conversions, over the texts given for them.
\<close>

section \<open>Files\<close>

record file_system =
  fs_dirs :: "string list"
  fs_files :: "string \<rightharpoonup> string"

datatype run_failure =
    ArgumentError string
  | PyError py_error
  | FileExistsError string
  | FileNotFoundError string
  | HTTPStatusError int
  | RuntimeError string

definition child :: "string \<Rightarrow> string \<Rightarrow> string" where
  "child dir name = dir @ ''/'' @ name"

definition ancestors :: "string \<Rightarrow> string list" where
  "ancestors p = map (\<lambda>n. take n p) (filter (\<lambda>n. 0 < n \<and> p ! n = CHR ''/'') [0..<length p])"

text \<open>\<open>mkdir(parents=True, exist_ok=False)\<close>\<close>

definition make_dir :: "string \<Rightarrow> file_system \<Rightarrow> run_failure + file_system" where
  "make_dir p fs =
     (if p \<in> set (fs_dirs fs) \<or> fs_files fs p \<noteq> None then Inl (FileExistsError p)
      else Inr (fs\<lparr>fs_dirs := fs_dirs fs @ filter (\<lambda>a. a \<notin> set (fs_dirs fs)) (ancestors p) @ [p]\<rparr>))"

definition write_text :: "string \<Rightarrow> string \<Rightarrow> file_system \<Rightarrow> file_system" where
  "write_text p s fs = fs\<lparr>fs_files := (fs_files fs)(p \<mapsto> s)\<rparr>"

definition read_text :: "string \<Rightarrow> file_system \<Rightarrow> run_failure + string" where
  "read_text p fs = (case fs_files fs p of None \<Rightarrow> Inl (FileNotFoundError p) | Some s \<Rightarrow> Inr s)"

text \<open>\<open>str.splitlines()\<close>: the line ends of these code points, a carriage return with its line feed as one.\<close>

definition is_line_end :: "char \<Rightarrow> bool" where
  "is_line_end c = (let n = of_char c :: nat in (10 \<le> n \<and> n \<le> 13) \<or> (28 \<le> n \<and> n \<le> 30) \<or> n = 133)"

fun splitlines :: "string \<Rightarrow> string list" where
  "splitlines [] = []"
| "splitlines (c # s) =
     (if c = CHR 0x0D \<and> starts_with newline s then splitlines s
      else if is_line_end c then [] # splitlines s
      else case s of
             [] \<Rightarrow> [[c]]
           | d # _ \<Rightarrow>
               if is_line_end d then (case splitlines s of [] \<Rightarrow> [[c]] | l # ls \<Rightarrow> (c # l) # ls)
               else (case splitlines s of [] \<Rightarrow> [[c]] | l # ls \<Rightarrow> (c # l) # ls))"

section \<open>Benchmark: options\<close>

record benchmark_args =
  ba_target_hosts :: string
  ba_scenario :: string
  ba_users :: int
  ba_spawn_rate :: rat
  ba_run_time :: string
  ba_api_instances :: int
  ba_admin_token :: string
  ba_output_dir :: string
  ba_notes :: "string option"
  ba_skip_prepare :: bool

definition text_option :: "(string \<rightharpoonup> string) \<Rightarrow> string \<Rightarrow> string \<Rightarrow> string" where
  "text_option given name otherwise = (case given name of None \<Rightarrow> otherwise | Some s \<Rightarrow> s)"

text \<open>A conversion that raises \<open>ValueError\<close> ends the program with a usage message.\<close>

definition converted_option :: "(string \<Rightarrow> py_error + 'a) \<Rightarrow> (string \<rightharpoonup> string) \<Rightarrow> string \<Rightarrow> 'a \<Rightarrow> run_failure + 'a" where
  "converted_option conv given name otherwise =
     (case given name of
        None \<Rightarrow> Inr otherwise
      | Some s \<Rightarrow> (case conv s of Inl _ \<Rightarrow> Inl (ArgumentError name) | Inr v \<Rightarrow> Inr v))"

definition parse_args :: "(string \<rightharpoonup> string) \<Rightarrow> string \<Rightarrow> (string \<rightharpoonup> string) \<Rightarrow> bool \<Rightarrow> run_failure + benchmark_args" where
  "parse_args env base given skip_prepare =
     (case (converted_option py_int given ''--users'' 40, converted_option py_float given ''--spawn-rate'' 10,
            converted_option py_int given ''--api-instances'' 1) of
        (Inr users, Inr spawn_rate, Inr api_instances) \<Rightarrow>
          Inr \<lparr>ba_target_hosts = text_option given ''--target-hosts'' ''http://localhost:8000'',
               ba_scenario = text_option given ''--scenario'' ''shared-quota'', ba_users = users, ba_spawn_rate = spawn_rate,
               ba_run_time = text_option given ''--run-time'' ''30s'', ba_api_instances = api_instances,
               ba_admin_token = text_option given ''--admin-token'' (text_option env ''ADMIN_TOKEN'' ''super-secret-admin-token''),
               ba_output_dir = text_option given ''--output-dir'' (child base ''benchmark_results''),
               ba_notes = given ''--notes'', ba_skip_prepare = skip_prepare\<rparr>
      | (Inl e, _, _) \<Rightarrow> Inl e
      | (_, Inl e, _) \<Rightarrow> Inl e
      | (_, _, Inl e) \<Rightarrow> Inl e)"

section \<open>Benchmark: counting the tests\<close>

text \<open>\<open>(\d+)\s+tests?\s+collected\<close> at the start of a text, and its first match in a text.\<close>

definition collected_here :: "string \<Rightarrow> int option" where
  "collected_here s =
     (let ds = takeWhile is_digit s; r = dropWhile is_digit s; r1 = dropWhile is_space r;
          r2 = (if starts_with ''tests'' r1 then drop 5 r1 else drop 4 r1)
      in if ds \<noteq> [] \<and> takeWhile is_space r \<noteq> [] \<and> starts_with ''test'' r1 \<and> takeWhile is_space r2 \<noteq> [] \<and>
            starts_with ''collected'' (dropWhile is_space r2)
         then Some (digits_value ds) else None)"

fun search_collected :: "string \<Rightarrow> int option" where
  "search_collected [] = None"
| "search_collected (c # s) =
     (case collected_here (c # s) of Some n \<Rightarrow> Some n | None \<Rightarrow> search_collected s)"

text \<open>
  \<open>^\s*(?:async\s+def|def)\s+(test_[a-zA-Z0-9_]+)\s*\(\<close>. The pattern is compiled without
  \<open>re.MULTILINE\<close>: the anchor is the start of the text, so \<open>findall\<close> finds one match at most.
\<close>

definition is_word :: "char \<Rightarrow> bool" where
  "is_word c =
     (let n = of_char c :: nat in (97 \<le> n \<and> n \<le> 122) \<or> (65 \<le> n \<and> n \<le> 90) \<or> (48 \<le> n \<and> n \<le> 57) \<or> n = 95)"

definition after_spaces :: "string \<Rightarrow> string option" where
  "after_spaces s = (if takeWhile is_space s = [] then None else Some (dropWhile is_space s))"

definition test_def_here :: "string \<Rightarrow> bool" where
  "test_def_here source =
     (let s = dropWhile is_space source;
          s1 = (if starts_with ''async'' s then after_spaces (drop 5 s) else Some s)
      in case s1 of
           None \<Rightarrow> False
         | Some t \<Rightarrow>
             starts_with ''def'' t \<and>
             (case after_spaces (drop 3 t) of
                None \<Rightarrow> False
              | Some u \<Rightarrow>
                  starts_with ''test_'' u \<and> takeWhile is_word (drop 5 u) \<noteq> [] \<and>
                  starts_with ''('' (dropWhile is_space (dropWhile is_word (drop 5 u)))))"

definition test_matches :: "string \<Rightarrow> int" where
  "test_matches source = (if test_def_here source then 1 else 0)"

definition collect_test_count :: "string \<Rightarrow> string \<Rightarrow> string list \<Rightarrow> int" where
  "collect_test_count stdout stderr sources =
     (case search_collected (join newline [stdout, stderr]) of
        Some n \<Rightarrow> n
      | None \<Rightarrow> sum_list (map test_matches sources))"

section \<open>Benchmark: running locust\<close>

record process_result =
  pr_returncode :: int
  pr_stdout :: string
  pr_stderr :: string

type_synonym process = "string list \<Rightarrow> (string \<rightharpoonup> string) \<Rightarrow> file_system \<Rightarrow> process_result \<times> file_system"

definition create_results_dir :: "string \<Rightarrow> string \<Rightarrow> string \<Rightarrow> file_system \<Rightarrow> run_failure + string \<times> file_system" where
  "create_results_dir base timestamp scenario fs =
     (let result_dir = child base (timestamp @ ''_'' @ scenario) in map_sum id (Pair result_dir) (make_dir result_dir fs))"

definition locust_command :: "string \<Rightarrow> string \<Rightarrow> string \<Rightarrow> string \<Rightarrow> int \<Rightarrow> rat \<Rightarrow> string \<Rightarrow> string list" where
  "locust_command executable base result_dir host users spawn_rate run_time =
     [executable, ''-m'', ''locust'', ''-f'', child (child base ''loadtests'') ''locustfile.py'', ''--headless'', ''--host'', host,
      ''--users'', int_str users, ''--spawn-rate'', py_repr_float spawn_rate, ''--run-time'', run_time,
      ''--csv'', child result_dir ''locust'', ''--html'', child result_dir ''locust_report.html'', ''--only-summary'']"

definition locust_env :: "(string \<rightharpoonup> string) \<Rightarrow> string list \<Rightarrow> string \<Rightarrow> string \<Rightarrow> string \<rightharpoonup> string" where
  "locust_env env target_hosts scenario result_dir =
     env(''RATE_LIMIT_TARGET_HOSTS'' \<mapsto> join '','' target_hosts, ''RATE_LIMIT_SCENARIO'' \<mapsto> scenario,
         ''RATE_LIMIT_STATUS_OUTPUT'' \<mapsto> child result_dir ''status_counts.json'')"

definition run_locust ::
  "process \<Rightarrow> (string \<rightharpoonup> string) \<Rightarrow> string \<Rightarrow> string \<Rightarrow> string \<Rightarrow> string list \<Rightarrow> string \<Rightarrow> int \<Rightarrow> rat \<Rightarrow> string \<Rightarrow> file_system \<Rightarrow>
   (run_failure + unit) \<times> file_system" where
  "run_locust proc env executable base result_dir target_hosts scenario users spawn_rate run_time fs =
     (case target_hosts of
        [] \<Rightarrow> (Inl (PyError IndexError), fs)
      | host # _ \<Rightarrow>
          let command = locust_command executable base result_dir host users spawn_rate run_time;
              fs1 = write_text (child result_dir ''command.txt'') (join '' '' command @ newline) fs
          in case proc command (locust_env env target_hosts scenario result_dir) fs1 of
               (completed, fs2) \<Rightarrow>
                 let fs3 = write_text (child result_dir ''locust_stderr.log'') (pr_stderr completed)
                             (write_text (child result_dir ''locust_stdout.log'') (pr_stdout completed) fs2)
                 in if pr_returncode completed \<in> {0, 1} then (Inr (), fs3)
                    else (Inl (RuntimeError ''Locust benchmark failed. See locust_stdout.log and locust_stderr.log in the result directory.''), fs3))"

section \<open>Benchmark: the console summary\<close>

definition item_at :: "'a list \<Rightarrow> nat \<Rightarrow> py_error + 'a" where
  "item_at xs n = (if n < length xs then Inr (xs ! n) else Inl IndexError)"

text \<open>\<open>then_do r f\<close>: the first exception, or what \<open>f\<close> makes of the value.\<close>

definition then_do :: "'e + 'a \<Rightarrow> ('a \<Rightarrow> 'e + 'b) \<Rightarrow> 'e + 'b" where
  "then_do r f = (case r of Inl e \<Rightarrow> Inl e | Inr v \<Rightarrow> f v)"

definition rounded :: "string \<Rightarrow> py_error + rat" where
  "rounded s = then_do (py_float s) (\<lambda>x. Inr (py_round x 3))"

record console_stats =
  cs_total_requests :: "int option"
  cs_total_failures :: "int option"
  cs_avg_latency_ms :: "rat option"
  cs_requests_per_second :: "rat option"
  cs_p95_latency_ms :: "rat option"

definition no_stats :: console_stats where
  "no_stats = \<lparr>cs_total_requests = None, cs_total_failures = None, cs_avg_latency_ms = None, cs_requests_per_second = None,
     cs_p95_latency_ms = None\<rparr>"

definition aggregated_row :: "string \<Rightarrow> console_stats \<Rightarrow> py_error + console_stats" where
  "aggregated_row line st =
     (let segments = map strip (split_on CHR ''|'' line) in
      then_do (item_at segments 0) (\<lambda>s0. then_do (item_at segments 1) (\<lambda>s1. then_do (item_at segments 2) (\<lambda>s2.
        let request_segment = split_words s0; latency_segment = split_words s1; throughput_segment = split_words s2 in
        then_do (item_at request_segment 1) (\<lambda>n. then_do (py_int n) (\<lambda>total_requests.
        then_do (item_at request_segment 2) (\<lambda>f. then_do (py_int (hd (split_on CHR ''('' f))) (\<lambda>total_failures.
        then_do (item_at latency_segment 0) (\<lambda>l. then_do (rounded l) (\<lambda>avg_latency_ms.
        then_do (item_at throughput_segment 0) (\<lambda>r. then_do (rounded r) (\<lambda>requests_per_second.
          Inr (st\<lparr>cs_total_requests := Some total_requests, cs_total_failures := Some total_failures,
                  cs_avg_latency_ms := Some avg_latency_ms, cs_requests_per_second := Some requests_per_second\<rparr>)))))))))))))"

definition percentile_row :: "string \<Rightarrow> console_stats \<Rightarrow> py_error + console_stats" where
  "percentile_row stripped st =
     (let tokens = split_words stripped
      in if length tokens \<ge> 13 then then_do (rounded (tokens ! 6)) (\<lambda>p. Inr (st\<lparr>cs_p95_latency_ms := Some p\<rparr>)) else Inr st)"

definition console_line :: "string \<Rightarrow> console_stats \<Rightarrow> py_error + console_stats" where
  "console_line line st =
     (let stripped = strip line in
      then_do (if starts_with ''Aggregated'' stripped \<and> contains ''|'' line then aggregated_row line st else Inr st)
        (\<lambda>st1. if starts_with ''Aggregated'' stripped \<and> \<not> contains ''|'' line then percentile_row stripped st1 else Inr st1))"

fun console_lines :: "string list \<Rightarrow> console_stats \<Rightarrow> py_error + console_stats" where
  "console_lines [] st = Inr st"
| "console_lines (line # lines) st = then_do (console_line line st) (console_lines lines)"

definition parse_locust_console_summary ::
  "string \<Rightarrow> file_system \<Rightarrow> run_failure + int \<times> int \<times> rat option \<times> rat option \<times> rat option" where
  "parse_locust_console_summary log_path fs =
     then_do (read_text log_path fs) (\<lambda>s.
       (case console_lines (splitlines s) no_stats of
          Inl e \<Rightarrow> Inl (PyError e)
        | Inr st \<Rightarrow>
            (case (cs_total_requests st, cs_total_failures st) of
               (Some total_requests, Some total_failures) \<Rightarrow>
                 Inr (total_requests, total_failures, cs_avg_latency_ms st, cs_p95_latency_ms st, cs_requests_per_second st)
             | _ \<Rightarrow> Inl (PyError (ValueError (''Could not parse final aggregate stats from '' @ log_path))))))"

section \<open>Benchmark: the files of a run\<close>

definition opt_float :: "rat option \<Rightarrow> json" where
  "opt_float x = (case x of None \<Rightarrow> JNull | Some v \<Rightarrow> JFloat v)"

definition opt_str :: "string option \<Rightarrow> json" where
  "opt_str x = (case x of None \<Rightarrow> JNull | Some s \<Rightarrow> JStr s)"

text \<open>\<open>asdict(summary)\<close>\<close>

definition summary_payload :: "benchmark_summary \<Rightarrow> json" where
  "summary_payload s =
     JObj [(''scenario'', JStr (bs_scenario s)), (''correctness_test_count'', JInt (bs_correctness_test_count s)),
       (''target_hosts'', JArr (map JStr (bs_target_hosts s))), (''api_instances'', JInt (bs_api_instances s)),
       (''concurrent_users'', JInt (bs_concurrent_users s)), (''spawn_rate'', JFloat (bs_spawn_rate s)),
       (''run_time'', JStr (bs_run_time s)), (''total_requests'', JInt (bs_total_requests s)),
       (''allowed_requests'', JInt (bs_allowed_requests s)), (''blocked_requests'', JInt (bs_blocked_requests s)),
       (''error_requests'', JInt (bs_error_requests s)), (''avg_latency_ms'', opt_float (bs_avg_latency_ms s)),
       (''p95_latency_ms'', opt_float (bs_p95_latency_ms s)), (''requests_per_second'', opt_float (bs_requests_per_second s)),
       (''notes'', opt_str (bs_notes s)), (''generated_at_utc'', JStr (bs_generated_at_utc s))]"

definition fmt_float :: "rat option \<Rightarrow> string" where
  "fmt_float x = (case x of None \<Rightarrow> ''None'' | Some v \<Rightarrow> py_repr_float v)"

definition md_item :: "string \<Rightarrow> string \<Rightarrow> string \<Rightarrow> string" where
  "md_item label value unit = ''- '' @ label @ '': `'' @ value @ ''`'' @ unit"

definition summary_markdown :: "benchmark_summary \<Rightarrow> string" where
  "summary_markdown s =
     join newline
       [''# Benchmark Summary'',
        [],
        md_item ''Scenario'' (bs_scenario s) [],
        md_item ''Correctness tests available'' (int_str (bs_correctness_test_count s)) [],
        md_item ''Target hosts'' (join '', '' (bs_target_hosts s)) [],
        md_item ''API instances'' (int_str (bs_api_instances s)) [],
        md_item ''Concurrent users'' (int_str (bs_concurrent_users s)) [],
        md_item ''Spawn rate'' (py_repr_float (bs_spawn_rate s)) '' users/s'',
        md_item ''Run time'' (bs_run_time s) [],
        md_item ''Total requests'' (int_str (bs_total_requests s)) [],
        md_item ''Allowed requests'' (int_str (bs_allowed_requests s)) [],
        md_item ''Blocked requests'' (int_str (bs_blocked_requests s)) [],
        md_item ''Error requests'' (int_str (bs_error_requests s)) [],
        md_item ''Average latency'' (fmt_float (bs_avg_latency_ms s)) '' ms'',
        md_item ''P95 latency'' (fmt_float (bs_p95_latency_ms s)) '' ms'',
        md_item ''Requests per second'' (fmt_float (bs_requests_per_second s)) [],
        md_item ''Generated at'' (bs_generated_at_utc s) [],
        md_item ''Notes'' (case or_str (bs_notes s) None of None \<Rightarrow> ''n/a'' | Some n \<Rightarrow> n) [],
        [],
        ''Use this report as the source of truth for resume numbers. Avoid copying values from ad-hoc terminal runs.''] @ newline"

definition write_summary :: "string \<Rightarrow> benchmark_summary \<Rightarrow> file_system \<Rightarrow> file_system" where
  "write_summary result_dir s fs =
     write_text (child result_dir ''summary.md'') (summary_markdown s)
       (write_text (child result_dir ''summary.json'') (json_dumps_indent (summary_payload s) @ newline) fs)"

definition metadata_payload :: "string \<Rightarrow> int \<Rightarrow> string list \<Rightarrow> benchmark_args \<Rightarrow> json" where
  "metadata_payload scenario_label test_count hosts a =
     JObj [(''scenario'', JStr scenario_label), (''correctness_test_count'', JInt test_count),
       (''target_hosts'', JArr (map JStr hosts)), (''api_instances'', JInt (ba_api_instances a)),
       (''concurrent_users'', JInt (ba_users a)), (''spawn_rate'', JFloat (ba_spawn_rate a)), (''run_time'', JStr (ba_run_time a)),
       (''notes'', opt_str (ba_notes a)), (''prepared_policies'', JBool (\<not> ba_skip_prepare a))]"

section \<open>Benchmark: the run\<close>

text \<open>
  What a run meets outside: the process environment, the interpreter, the root of the
  repository, the two processes, the texts of the test files, the clock at its two readings, and
  the answer of the admin API to the preparation (an error status, or none).
\<close>

record surroundings =
  sr_env :: "string \<rightharpoonup> string"
  sr_executable :: string
  sr_base :: string
  sr_pytest :: process_result
  sr_sources :: "string list"
  sr_prepare :: "string \<Rightarrow> string \<Rightarrow> string \<Rightarrow> int + unit"
  sr_locust :: process
  sr_timestamp :: string
  sr_now :: string

definition benchmark_main :: "surroundings \<Rightarrow> benchmark_args \<Rightarrow> file_system \<Rightarrow> (run_failure + benchmark_summary) \<times> file_system" where
  "benchmark_main W a fs =
     (case (parse_target_hosts (ba_target_hosts a), normalize_scenario (ba_scenario a)) of
        (Inl e, _) \<Rightarrow> (Inl (PyError e), fs)
      | (_, Inl e) \<Rightarrow> (Inl (PyError e), fs)
      | (Inr target_hosts, Inr internal_scenario) \<Rightarrow>
          (case display_scenario_name internal_scenario of
             Inl e \<Rightarrow> (Inl (PyError e), fs)
           | Inr scenario_label \<Rightarrow>
               let test_count = collect_test_count (pr_stdout (sr_pytest W)) (pr_stderr (sr_pytest W)) (sr_sources W) in
               (case create_results_dir (ba_output_dir a) (sr_timestamp W) scenario_label fs of
                  Inl e \<Rightarrow> (Inl e, fs)
                | Inr (result_dir, fs1) \<Rightarrow>
                    let fs2 = write_text (child result_dir ''metadata.json'')
                                (json_dumps_indent (metadata_payload scenario_label test_count target_hosts a) @ newline) fs1 in
                    (case (if ba_skip_prepare a then Inr () else sr_prepare W (hd target_hosts) (ba_admin_token a) internal_scenario) of
                       Inl status \<Rightarrow> (Inl (HTTPStatusError status), fs2)
                     | Inr _ \<Rightarrow>
                         (case run_locust (sr_locust W) (sr_env W) (sr_executable W) (sr_base W) result_dir target_hosts
                                 internal_scenario (ba_users a) (ba_spawn_rate a) (ba_run_time a) fs2 of
                            (Inl e, fs3) \<Rightarrow> (Inl e, fs3)
                          | (Inr _, fs3) \<Rightarrow>
                              (case parse_locust_console_summary (child result_dir ''locust_stderr.log'') fs3 of
                                 Inl e \<Rightarrow> (Inl e, fs3)
                               | Inr console \<Rightarrow>
                                   let s = summarize_result scenario_label test_count target_hosts (ba_api_instances a) (ba_users a)
                                             (ba_spawn_rate a) (ba_run_time a) (ba_notes a) console
                                             (map_option splitlines (fs_files fs3 (child result_dir ''locust_stderr.log''))) (sr_now W)
                                   in (Inr s, write_summary result_dir s fs3)))))))"

text \<open>The exit code of the program: usage errors end it with 2, other exceptions with 1.\<close>

definition benchmark_exit :: "surroundings \<Rightarrow> (string \<rightharpoonup> string) \<Rightarrow> bool \<Rightarrow> file_system \<Rightarrow> int \<times> file_system" where
  "benchmark_exit W given skip_prepare fs =
     (case parse_args (sr_env W) (sr_base W) given skip_prepare of
        Inl _ \<Rightarrow> (2, fs)
      | Inr a \<Rightarrow> (case benchmark_main W a fs of (r, fs') \<Rightarrow> (if is_ok r then 0 else 1, fs')))"

section \<open>The simulation script\<close>

record simulation_args =
  sa_limit :: int
  sa_replication_lag_ms :: int
  sa_india_requests :: int
  sa_us_requests :: int
  sa_request_spacing_ms :: int
  sa_output_dir :: string

definition parse_simulation_args :: "string \<Rightarrow> (string \<rightharpoonup> string) \<Rightarrow> run_failure + simulation_args" where
  "parse_simulation_args base given =
     (let opt = (\<lambda>name otherwise. converted_option py_int given name otherwise) in
      then_do (opt ''--limit'' 10) (\<lambda>limit. then_do (opt ''--replication-lag-ms'' 180) (\<lambda>lag.
      then_do (opt ''--india-requests'' 8) (\<lambda>india. then_do (opt ''--us-requests'' 8) (\<lambda>us.
      then_do (opt ''--request-spacing-ms'' 20) (\<lambda>spacing.
        Inr \<lparr>sa_limit = limit, sa_replication_lag_ms = lag, sa_india_requests = india, sa_us_requests = us,
             sa_request_spacing_ms = spacing, sa_output_dir = text_option given ''--output-dir'' (child base ''benchmark_results'')\<rparr>))))))"

definition simulation_payload :: "multi_region_summary \<Rightarrow> string \<Rightarrow> json" where
  "simulation_payload s now =
     JObj [(''configured_limit'', JInt (ms_configured_limit s)), (''replication_lag_ms'', JInt (ms_replication_lag_ms s)),
       (''request_spacing_ms'', JInt (ms_request_spacing_ms s)), (''india_requests_sent'', JInt (ms_india_requests_sent s)),
       (''us_requests_sent'', JInt (ms_us_requests_sent s)), (''india_allowed'', JInt (ms_india_allowed s)),
       (''india_blocked'', JInt (ms_india_blocked s)), (''us_allowed'', JInt (ms_us_allowed s)),
       (''us_blocked'', JInt (ms_us_blocked s)), (''total_allowed'', JInt (ms_total_allowed s)),
       (''oversubscription'', JInt (ms_oversubscription s)), (''stale_allowed_decisions'', JInt (ms_stale_allowed_decisions s)),
       (''max_replication_queue_depth'', JInt (ms_max_replication_queue_depth s)),
       (''generated_at_utc'', JStr now), (''regions'', JArr [JStr ''india'', JStr ''us''])]"

fun region_str :: "region_name \<Rightarrow> string" where
  "region_str India = ''india''"
| "region_str US = ''us''"

fun kind_str :: "event_kind \<Rightarrow> string" where
  "kind_str Request = ''request''"
| "kind_str Replication = ''replication''"

definition decision_payload :: "regional_decision \<Rightarrow> json" where
  "decision_payload d =
     JObj [(''region'', JStr (region_str (rd_region d))), (''kind'', JStr (kind_str (rd_kind d))), (''time_ms'', JInt (rd_time_ms d)),
       (''accepted'', JBool (rd_accepted d)), (''known_global_before_decision'', JInt (rd_known_global_before_decision d)),
       (''actual_global_before_decision'', JInt (rd_actual_global_before_decision d)),
       (''observed_remote_count'', JInt (rd_observed_remote_count d))]"

definition simulation_main :: "string \<Rightarrow> string \<Rightarrow> simulation_args \<Rightarrow> file_system \<Rightarrow> (run_failure + string) \<times> file_system" where
  "simulation_main timestamp now a fs =
     (case simulate_multi_region_limit (sa_limit a) (sa_replication_lag_ms a) (sa_india_requests a) (sa_us_requests a)
             (sa_request_spacing_ms a) of
        Inl e \<Rightarrow> (Inl (PyError e), fs)
      | Inr (summary, decisions) \<Rightarrow>
          (case create_results_dir (sa_output_dir a) timestamp ''multi_region_consistency'' fs of
             Inl e \<Rightarrow> (Inl e, fs)
           | Inr (result_dir, fs1) \<Rightarrow>
               (Inr result_dir,
                write_text (child result_dir ''summary.md'') (render_markdown summary)
                  (write_text (child result_dir ''decisions.json'') (json_dumps_indent (JArr (map decision_payload decisions)) @ newline)
                    (write_text (child result_dir ''summary.json'') (json_dumps_indent (simulation_payload summary now) @ newline) fs1)))))"

section \<open>Lemmas: words and segments\<close>

definition blank :: "string \<Rightarrow> bool" where
  "blank s \<longleftrightarrow> list_all is_space s"

definition token :: "string \<Rightarrow> bool" where
  "token t \<longleftrightarrow> t \<noteq> [] \<and> list_all (\<lambda>c. \<not> is_space c) t"

lemma split_words_blank: "blank b \<Longrightarrow> split_words (b @ s) = split_words s"
  by (induction b) (auto simp: blank_def)

lemma split_words_token: "token t \<Longrightarrow> s = [] \<or> is_space (hd s) \<Longrightarrow> split_words (t @ s) = t # split_words s"
proof (induction t)
  case (Cons c t)
  show ?case
  proof (cases t)
    case Nil
    with Cons.prems show ?thesis by (cases s) (auto simp: token_def)
  next
    case (Cons d u)
    with Cons.prems have "token t" "\<not> is_space c" "\<not> is_space d" by (simp_all add: token_def)
    with Cons.IH Cons.prems(2) Cons show ?thesis by auto
  qed
qed (simp add: token_def)

lemma split_words_trailing: "blank b \<Longrightarrow> split_words (s @ b) = split_words s"
proof (induction s rule: split_words.induct)
  case 1
  then show ?case using split_words_blank [of b "[]"] by simp
next
  case (2 c s)
  show ?case
  proof (cases s)
    case Nil
    have "split_words b = []" using split_words_blank [of b "[]"] 2 by simp
    with Nil 2 show ?thesis by (cases b) (auto simp: blank_def)
  next
    case (Cons d u)
    with 2 show ?thesis by (auto split: list.split)
  qed
qed

lemma blank_takeWhile: "blank (takeWhile is_space s)"
  by (simp add: blank_def list_all_iff) (metis set_takeWhileD)

lemma split_words_strip: "split_words (strip s) = split_words s"
proof -
  have left: "split_words (dropWhile is_space s) = split_words s"
    using split_words_blank [OF blank_takeWhile [of s], of "dropWhile is_space s"] by simp
  have right: "split_words (rstrip t) = split_words t" for t
  proof -
    have "t = rstrip t @ rev (takeWhile is_space (rev t))"
      unfolding rstrip_def by (metis rev_append rev_rev_ident takeWhile_dropWhile_id)
    moreover have "blank (rev (takeWhile is_space (rev t)))" using blank_takeWhile [of "rev t"] by (simp add: blank_def)
    ultimately show ?thesis using split_words_trailing by metis
  qed
  show ?thesis by (simp add: strip_def left right)
qed

lemma split_on_append: "c \<notin> set s \<Longrightarrow> split_on c (s @ c # t) = s # split_on c t"
  by (induction s) auto

lemma split_on_none: "c \<notin> set s \<Longrightarrow> split_on c s = [s]"
  by (induction s) auto

lemma split_on_nonempty: "split_on c s \<noteq> []"
  by (cases s) (auto split: list.split)

lemma hd_split_paren: "CHR ''('' \<notin> set s \<Longrightarrow> hd (split_on CHR ''('' (s @ ''('' @ t)) = s"
  using split_on_append [of "CHR ''(''" s t] by simp

lemma digits_no_char:
  assumes "list_all is_digit s" "\<not> is_digit c"
  shows "c \<notin> set s"
  using assms by (auto simp: list_all_iff)

lemma int_str_digits: "0 \<le> n \<Longrightarrow> list_all is_digit (int_str n) \<and> int_str n \<noteq> []"
  using nat_str_head [of "nat n"] by (auto simp: int_str_nonneg)

lemma digit_chars [simp]: "\<not> is_digit CHR ''(''" "\<not> is_digit CHR ''|''"
  by code_simp+

lemma int_str_token: "0 \<le> n \<Longrightarrow> token (int_str n)"
  using int_str_digits [of n] digits_not_space by (simp add: token_def)

lemma py_int_str: "0 \<le> n \<Longrightarrow> py_int (int_str n) = Inr n"
  using int_str_token [of n] by (simp add: py_int_def token_def strip_id)

text \<open>A row of the request table, as locust prints it, with any blanks between its texts.\<close>

record row_text =
  rt_pad :: string
  rt_gap1 :: string
  rt_gap2 :: string
  rt_percent :: string
  rt_gap3 :: string
  rt_latency :: string
  rt_latency_more :: string
  rt_gap4 :: string
  rt_rate :: string
  rt_rate_more :: string

definition locust_row :: "row_text \<Rightarrow> int \<Rightarrow> int \<Rightarrow> string" where
  "locust_row x sent failures =
     (rt_pad x @ ''Aggregated'' @ rt_gap1 x @ int_str sent @ rt_gap2 x @ int_str failures @ ''('' @ rt_percent x) @ ''|'' @
     (rt_gap3 x @ rt_latency x @ '' '' @ rt_latency_more x) @ ''|'' @ (rt_gap4 x @ rt_rate x @ '' '' @ rt_rate_more x)"

definition row_text_ok :: "row_text \<Rightarrow> bool" where
  "row_text_ok x \<longleftrightarrow>
     blank (rt_pad x) \<and> blank (rt_gap1 x) \<and> rt_gap1 x \<noteq> [] \<and> blank (rt_gap2 x) \<and> rt_gap2 x \<noteq> [] \<and>
     blank (rt_gap3 x) \<and> blank (rt_gap4 x) \<and>
     token (rt_latency x) \<and> token (rt_rate x) \<and>
     list_all (\<lambda>s. CHR ''|'' \<notin> set s) [rt_percent x, rt_latency x, rt_latency_more x, rt_rate x, rt_rate_more x]"

lemma blank_no_bar: "blank s \<Longrightarrow> CHR ''|'' \<notin> set s"
proof -
  have "\<not> is_space CHR ''|''" by code_simp
  then show "blank s \<Longrightarrow> CHR ''|'' \<notin> set s" by (auto simp: blank_def list_all_iff)
qed

lemma blank_head: "blank s \<Longrightarrow> s \<noteq> [] \<Longrightarrow> is_space (hd (s @ t))"
  by (cases s) (simp_all add: blank_def)

lemma contains_middle: "contains n (s @ n @ t)"
proof (induction s)
  case Nil
  have "starts_with n (n @ t)" by (simp add: starts_with_def)
  then show ?case by (cases "n @ t") (simp_all add: starts_with_def)
qed simp

lemma starts_with_strip:
  assumes "blank p" "token w"
  shows "starts_with w (strip (p @ w @ s))"
proof -
  have blank_left: "dropWhile is_space (p @ y) = dropWhile is_space y" for y
    using assms(1) by (induction p) (simp_all add: blank_def)
  have token_id: "dropWhile is_space (v @ y) = v @ y" if "token v" for v y
    using that by (cases v) (simp_all add: token_def)
  have "token (rev w)" using assms(2) by (simp add: token_def)
  then have last: "dropWhile is_space (rev w) = rev w" using token_id [of "rev w" "[]"] by simp
  have "\<exists>t. rstrip (w @ s) = w @ t"
  proof (cases "\<forall>c\<in>set s. is_space c")
    case True
    then have "rstrip (w @ s) = w @ []" using last by (simp add: rstrip_def dropWhile_append)
    then show ?thesis by blast
  next
    case False
    then have "rstrip (w @ s) = w @ rev (dropWhile is_space (rev s))" by (auto simp: rstrip_def dropWhile_append)
    then show ?thesis by blast
  qed
  then show ?thesis using assms(2) by (auto simp: strip_def blank_left token_id starts_with_def)
qed

lemma aggregated_row_segments:
  assumes "split_on CHR ''|'' line = [s0, s1, s2]"
    and "split_words s0 = w # n # f # ws" "split_words s1 = l # ws1" "split_words s2 = r # ws2"
    and "py_int n = Inr sent" "py_int (hd (split_on CHR ''('' f)) = Inr failures" "py_float l = Inr a" "py_float r = Inr b"
  shows "aggregated_row line st =
    Inr (st\<lparr>cs_total_requests := Some sent, cs_total_failures := Some failures, cs_avg_latency_ms := Some (py_round a 3),
            cs_requests_per_second := Some (py_round b 3)\<rparr>)"
  by (simp add: aggregated_row_def assms item_at_def then_do_def split_words_strip rounded_def Let_def)

lemma aggregated_row_values:
  assumes "row_text_ok x" "0 \<le> sent" "0 \<le> failures" "py_float (rt_latency x) = Inr a" "py_float (rt_rate x) = Inr r"
  shows "aggregated_row (locust_row x sent failures) st =
    Inr (st\<lparr>cs_total_requests := Some sent, cs_total_failures := Some failures, cs_avg_latency_ms := Some (py_round a 3),
            cs_requests_per_second := Some (py_round r 3)\<rparr>)"
proof -
  let ?s0 = "rt_pad x @ ''Aggregated'' @ rt_gap1 x @ int_str sent @ rt_gap2 x @ int_str failures @ ''('' @ rt_percent x"
  let ?s1 = "rt_gap3 x @ rt_latency x @ '' '' @ rt_latency_more x" and ?s2 = "rt_gap4 x @ rt_rate x @ '' '' @ rt_rate_more x"
  note ok = assms(1) [unfolded row_text_ok_def]
  have bars: "CHR ''|'' \<notin> set ?s0" "CHR ''|'' \<notin> set ?s1" "CHR ''|'' \<notin> set ?s2"
    using ok int_str_digits [OF assms(2)] int_str_digits [OF assms(3)] by (auto dest: blank_no_bar digits_no_char [OF _ digit_chars(2)])
  have segs: "split_on CHR ''|'' (locust_row x sent failures) = [?s0, ?s1, ?s2]"
  proof -
    have "locust_row x sent failures = ?s0 @ CHR ''|'' # (?s1 @ CHR ''|'' # ?s2)" by (simp add: locust_row_def)
    then show ?thesis by (simp only: split_on_append [OF bars(1)] split_on_append [OF bars(2)] split_on_none [OF bars(3)])
  qed
  have agg: "token ''Aggregated''" by code_simp
  have fail: "\<exists>w ws. split_words (int_str failures @ ''('' @ rt_percent x) = (int_str failures @ ''('' @ w) # ws"
  proof -
    let ?p = "''('' @ rt_percent x"
    have "token (int_str failures @ takeWhile (\<lambda>c. \<not> is_space c) ?p)"
      using int_str_token [OF assms(3)] by (auto simp: token_def list_all_iff dest: set_takeWhileD)
    moreover have "dropWhile (\<lambda>c. \<not> is_space c) ?p = [] \<or> is_space (hd (dropWhile (\<lambda>c. \<not> is_space c) ?p))"
      using hd_dropWhile [of "\<lambda>c. \<not> is_space c" ?p] by blast
    ultimately have "split_words ((int_str failures @ takeWhile (\<lambda>c. \<not> is_space c) ?p) @ dropWhile (\<lambda>c. \<not> is_space c) ?p) =
        (int_str failures @ takeWhile (\<lambda>c. \<not> is_space c) ?p) # split_words (dropWhile (\<lambda>c. \<not> is_space c) ?p)"
      by (rule split_words_token)
    moreover have "\<not> is_space CHR ''(''" by code_simp
    ultimately show ?thesis by (simp flip: append_assoc) auto
  qed
  then obtain w ws where fail: "split_words (int_str failures @ ''('' @ rt_percent x) = (int_str failures @ ''('' @ w) # ws" by blast
  have w0: "split_words ?s0 = ''Aggregated'' # int_str sent # (int_str failures @ ''('' @ w) # ws"
    using ok fail
    by (simp only: split_words_blank split_words_token [OF agg] split_words_token [OF int_str_token [OF assms(2)]] blank_head append_assoc
        simp_thms)
  have sp: "is_space (hd ('' '' @ t))" for t by (simp add: is_space_def)
  have w1: "\<exists>ws. split_words ?s1 = rt_latency x # ws" and w2: "\<exists>ws. split_words ?s2 = rt_rate x # ws"
    using ok by (simp_all only: split_words_blank split_words_token sp simp_thms list.inject ex_simps)
  then obtain ws1 ws2 where w1: "split_words ?s1 = rt_latency x # ws1" and w2: "split_words ?s2 = rt_rate x # ws2" by blast
  have paren: "hd (split_on CHR ''('' (int_str failures @ ''('' @ w)) = int_str failures"
    by (rule hd_split_paren) (use int_str_digits [OF assms(3)] in \<open>auto dest: digits_no_char [OF _ digit_chars(1)]\<close>)
  show ?thesis
    by (rule aggregated_row_segments [OF segs w0 w1 w2]) (simp_all only: paren py_int_str [OF assms(2)] py_int_str [OF assms(3)] assms(4,5))
qed

section \<open>Properties\<close>

text \<open>The aggregated row of the percentile table: cells between blanks, and no bar.\<close>

definition percentile_line :: "string \<Rightarrow> string \<Rightarrow> string" where
  "percentile_line pad cells = pad @ ''Aggregated'' @ cells"

lemma console_lines_append: "console_lines (xs @ ys) st = then_do (console_lines xs st) (console_lines ys)"
  by (induction xs arbitrary: st) (simp_all add: then_do_def split: sum.split)

lemma console_lines_other: "\<forall>l\<in>set ls. \<not> starts_with ''Aggregated'' (strip l) \<Longrightarrow> console_lines ls st = Inr st"
  by (induction ls arbitrary: st) (simp_all add: console_line_def then_do_def)

lemma aggregated_token: "token ''Aggregated''"
  by code_simp

lemma percentile_line_read:
  assumes "blank pad" "cells = [] \<or> is_space (hd cells)" "\<not> contains ''|'' (percentile_line pad cells)"
    and "12 \<le> length (split_words cells)" "py_float (split_words cells ! 5) = Inr q"
  shows "console_line (percentile_line pad cells) st = Inr (st\<lparr>cs_p95_latency_ms := Some (py_round q 3)\<rparr>)"
proof -
  have "split_words (strip (percentile_line pad cells)) = ''Aggregated'' # split_words cells"
    unfolding split_words_strip percentile_line_def
    using split_words_blank [OF assms(1)] split_words_token [OF aggregated_token assms(2)] by metis
  moreover have "starts_with ''Aggregated'' (strip (percentile_line pad cells))"
    unfolding percentile_line_def by (rule starts_with_strip [OF assms(1) aggregated_token])
  ultimately show ?thesis
    using assms(3-5) by (simp add: console_line_def percentile_row_def then_do_def rounded_def Let_def)
qed

text \<open>
  C38. The console summary gives back the numbers locust printed. In a report where the aggregated
  row of the request table is followed by the aggregated row of the percentile table, whatever
  precedes the two without stopping the reading, and whatever other rows stand between and after
  them, the request count, the failure count before the percentage, the average latency and the
  rate are read from the first row and the 95th percentile from the second, as printed, the
  three figures rounded to three places.
\<close>

theorem console_summary_reads_row:
  assumes "row_text_ok x" "0 \<le> sent" "0 \<le> failures" "py_float (rt_latency x) = Inr a" "py_float (rt_rate x) = Inr r"
    and "blank pad" "cells = [] \<or> is_space (hd cells)" "\<not> contains ''|'' (percentile_line pad cells)"
    and "12 \<le> length (split_words cells)" "py_float (split_words cells ! 5) = Inr q"
    and "console_lines before no_stats = Inr st0" "\<forall>l\<in>set (between @ after). \<not> starts_with ''Aggregated'' (strip l)"
  shows "console_lines (before @ locust_row x sent failures # between @ percentile_line pad cells # after) no_stats =
    Inr \<lparr>cs_total_requests = Some sent, cs_total_failures = Some failures, cs_avg_latency_ms = Some (py_round a 3),
         cs_requests_per_second = Some (py_round r 3), cs_p95_latency_ms = Some (py_round q 3)\<rparr>"
proof -
  have "starts_with ''Aggregated'' (strip (locust_row x sent failures))"
    unfolding locust_row_def append_assoc by (intro starts_with_strip aggregated_token) (use assms(1) in \<open>simp add: row_text_ok_def\<close>)
  moreover have "contains ''|'' (locust_row x sent failures)"
    unfolding locust_row_def by (rule contains_middle)
  ultimately have row: "console_line (locust_row x sent failures) st0 =
      Inr (st0\<lparr>cs_total_requests := Some sent, cs_total_failures := Some failures, cs_avg_latency_ms := Some (py_round a 3),
               cs_requests_per_second := Some (py_round r 3)\<rparr>)"
    using aggregated_row_values [OF assms(1-5), of st0] by (simp add: then_do_def console_line_def)
  have "\<forall>l\<in>set between. \<not> starts_with ''Aggregated'' (strip l)" "\<forall>l\<in>set after. \<not> starts_with ''Aggregated'' (strip l)"
    using assms(12) by auto
  then show ?thesis
    by (simp add: console_lines_append assms(11) row percentile_line_read [OF assms(6-10)] console_lines_other then_do_def)
qed

definition example_row :: row_text where
  "example_row =
     \<lparr>rt_pad = [], rt_gap1 = ''         '', rt_gap2 = ''     '', rt_percent = ''5.81%) '', rt_gap3 = ''     '', rt_latency = ''7'',
      rt_latency_more = ''    12    30    12 '', rt_gap4 = ''    '', rt_rate = ''31.25'', rt_rate_more = ''   0.00''\<rparr>"

lemma example_row_text:
  "locust_row example_row 86 5 = ''Aggregated         86     5(5.81%) |     7     12    30    12 |    31.25    0.00''"
  by code_simp

theorem console_summary_reads_row_witness:
  "console_lines
     [''Type Name'', ''Aggregated         86     5(5.81%) |     7     12    30    12 |    31.25    0.00'', ''Response time percentiles'',
      ''Aggregated 86 5(5.81%) 7 12 30 12 31.25 0.00 0 0 0 0'', ''Error report''] no_stats =
   Inr \<lparr>cs_total_requests = Some 86, cs_total_failures = Some 5, cs_avg_latency_ms = Some 7,
        cs_requests_per_second = Some (125 / 4), cs_p95_latency_ms = Some 12\<rparr>"
proof -
  let ?cells = "'' 86 5(5.81%) 7 12 30 12 31.25 0.00 0 0 0 0''"
  have row: "row_text_ok example_row" "py_float (rt_latency example_row) = Inr 7" "py_float (rt_rate example_row) = Inr (125 / 4)"
    and cells: "blank []" "?cells = [] \<or> is_space (hd ?cells)" "\<not> contains ''|'' (percentile_line [] ?cells)"
      "12 \<le> length (split_words ?cells)" "py_float (split_words ?cells ! 5) = Inr 12"
    and lines: "console_lines [''Type Name''] no_stats = Inr no_stats" "\<not> starts_with ''Aggregated'' (strip ''Response time percentiles'')"
      "\<not> starts_with ''Aggregated'' (strip ''Error report'')"
    and round: "py_round 7 3 = 7" "py_round (125 / 4) 3 = 125 / 4" "py_round 12 3 = 12"
    by code_simp+
  from console_summary_reads_row [OF row(1) _ _ row(2,3) cells lines(1), of 86 5 "[''Response time percentiles'']" "[''Error report'']"]
    lines(2,3)
  show ?thesis by (simp add: example_row_text percentile_line_def round)
qed

text \<open>
  Counting the tests by hand counts almost none of them: when pytest's line is not found,
  the pattern matches at the start of a file or nowhere, so a file adds one at most however many
  tests it holds, and a file that starts with an import or a comment adds nothing.
\<close>

theorem fallback_test_count:
  assumes "search_collected (join newline [stdout, stderr]) = None"
  shows "collect_test_count stdout stderr sources = int (length (filter test_def_here sources)) \<and>
    collect_test_count stdout stderr sources \<le> int (length sources) \<and>
    (list_all (\<lambda>s. list_ex (\<lambda>w. starts_with w s) [''from'', ''import'', ''#'']) sources \<longrightarrow> collect_test_count stdout stderr sources = 0)"
proof -
  have count: "sum_list (map test_matches xs) = int (length (filter test_def_here xs))" for xs
    by (induction xs) (simp_all add: test_matches_def)
  have none: "\<not> test_def_here s" if "list_ex (\<lambda>w. starts_with w s) [''from'', ''import'', ''#'']" for s
    using that by (cases s) (auto simp: test_def_here_def starts_with_def is_space_def Let_def)
  have "filter test_def_here sources = []" if "list_all (\<lambda>s. list_ex (\<lambda>w. starts_with w s) [''from'', ''import'', ''#'']) sources"
    using that none by (auto simp: list_all_iff filter_empty_conv)
  then show ?thesis using assms by (simp add: collect_test_count_def count)
qed

definition two_tests :: string where
  "two_tests = ''from app import x'' @ newline @ ''def test_a():'' @ newline @ ''def test_b():'' @ newline"

theorem fallback_test_count_witness:
  "collect_test_count ''no tests ran'' [] [two_tests, ''def test_c():''] = 1"
proof -
  have none: "search_collected (join newline [''no tests ran'', []]) = None" by code_simp
  have "filter test_def_here [two_tests, ''def test_c():''] = [''def test_c():'']" by code_simp
  with fallback_test_count [OF none, of "[two_tests, ''def test_c():'']"] show ?thesis by simp
qed

section \<open>Properties: runs and their files\<close>

lemma opt_json_ok: "(\<forall>v. x = Some v \<longrightarrow> fl v = v) \<Longrightarrow> json_ok (opt_float x)" "json_ok (opt_str y)"
  by (auto simp: opt_float_def opt_str_def split: option.split)

lemma rounded_fl: "rounded s = Inr v \<Longrightarrow> fl v = v"
  by (auto simp: rounded_def then_do_def py_round_def split: sum.splits)

definition stats_fl :: "console_stats \<Rightarrow> bool" where
  "stats_fl st \<longleftrightarrow> (\<forall>v. Some v \<in> {cs_avg_latency_ms st, cs_requests_per_second st, cs_p95_latency_ms st} \<longrightarrow> fl v = v)"

lemma then_do_Inr: "then_do r f = Inr v \<longleftrightarrow> (\<exists>u. r = Inr u \<and> f u = Inr v)"
  by (auto simp: then_do_def split: sum.split)

lemma then_do_E: "then_do r f = Inr v \<Longrightarrow> (\<And>u. r = Inr u \<Longrightarrow> f u = Inr v \<Longrightarrow> P) \<Longrightarrow> P"
  by (auto simp: then_do_Inr)

lemma aggregated_row_fl: "aggregated_row line st = Inr st' \<Longrightarrow> stats_fl st \<Longrightarrow> stats_fl st'"
  unfolding aggregated_row_def Let_def
  by (elim then_do_E, drule rounded_fl, drule rounded_fl) (auto simp: stats_fl_def)

lemma percentile_row_fl: "percentile_row s st = Inr st' \<Longrightarrow> stats_fl st \<Longrightarrow> stats_fl st'"
  unfolding percentile_row_def Let_def
  by (auto simp: then_do_Inr stats_fl_def split: if_splits dest: rounded_fl)

lemma console_line_fl:
  assumes "console_line line st = Inr st'" "stats_fl st"
  shows "stats_fl st'"
proof -
  define A where "A \<longleftrightarrow> starts_with ''Aggregated'' (strip line) \<and> contains ''|'' line"
  define B where "B \<longleftrightarrow> starts_with ''Aggregated'' (strip line) \<and> \<not> contains ''|'' line"
  have "then_do (if A then aggregated_row line st else Inr st) (\<lambda>st1. if B then percentile_row (strip line) st1 else Inr st1) = Inr st'"
    using assms(1) unfolding console_line_def Let_def A_def B_def .
  then obtain st1 where st1: "(if A then aggregated_row line st else Inr st) = Inr st1"
    "(if B then percentile_row (strip line) st1 else Inr st1) = Inr st'" by (rule then_do_E)
  have "stats_fl st1" using st1(1) assms(2) by (cases A) (simp_all add: aggregated_row_fl)
  with st1(2) show ?thesis by (cases B) (simp_all add: percentile_row_fl)
qed

lemma console_lines_fl: "stats_fl st \<Longrightarrow> console_lines ls st = Inr st' \<Longrightarrow> stats_fl st'"
  by (induction ls arbitrary: st) (auto simp: then_do_Inr dest: console_line_fl)

lemma parse_summary_fl:
  assumes "parse_locust_console_summary p fs = Inr (n, f, avg, p95, rps)"
  shows "\<forall>v. Some v \<in> {avg, p95, rps} \<longrightarrow> fl v = v"
proof -
  obtain s where "(case console_lines (splitlines s) no_stats of
      Inl e \<Rightarrow> Inl (PyError e)
    | Inr st \<Rightarrow>
        (case (cs_total_requests st, cs_total_failures st) of
           (Some total_requests, Some total_failures) \<Rightarrow>
             Inr (total_requests, total_failures, cs_avg_latency_ms st, cs_p95_latency_ms st, cs_requests_per_second st)
         | _ \<Rightarrow> Inl (PyError (ValueError (''Could not parse final aggregate stats from '' @ p))))) = Inr (n, f, avg, p95, rps)"
    using assms unfolding parse_locust_console_summary_def by (rule then_do_E)
  then obtain st where st: "console_lines (splitlines s) no_stats = Inr st"
    "avg = cs_avg_latency_ms st" "p95 = cs_p95_latency_ms st" "rps = cs_requests_per_second st"
    by (cases "console_lines (splitlines s) no_stats") (simp_all split: option.splits)
  have "stats_fl no_stats" by (simp add: stats_fl_def no_stats_def)
  from console_lines_fl [OF this st(1)] show ?thesis by (auto simp: stats_fl_def st(2-4))
qed

lemma child_inj [simp]: "child d a = child d b \<longleftrightarrow> a = b"
  by (simp add: child_def)

lemma write_text_files [simp]: "fs_files (write_text p s fs) = (fs_files fs)(p \<mapsto> s)"
  by (simp add: write_text_def)

lemma make_dir_new: "make_dir p fs = Inr fs' \<Longrightarrow> p \<notin> set (fs_dirs fs) \<and> fs_files fs p = None \<and> p \<in> set (fs_dirs fs') \<and> fs_files fs' = fs_files fs"
  by (auto simp: make_dir_def split: if_splits)

lemma benchmark_main_steps:
  assumes "benchmark_main W a fs = (Inr s, fs')"
  shows "\<exists>hosts scenario shown d fs1 fs3 console.
    parse_target_hosts (ba_target_hosts a) = Inr hosts \<and> normalize_scenario (ba_scenario a) = Inr scenario \<and>
    display_scenario_name scenario = Inr shown \<and>
    create_results_dir (ba_output_dir a) (sr_timestamp W) shown fs = Inr (d, fs1) \<and>
    (ba_skip_prepare a \<or> sr_prepare W (hd hosts) (ba_admin_token a) scenario = Inr ()) \<and>
    parse_locust_console_summary (child d ''locust_stderr.log'') fs3 = Inr console \<and>
    s = summarize_result shown (collect_test_count (pr_stdout (sr_pytest W)) (pr_stderr (sr_pytest W)) (sr_sources W)) hosts
          (ba_api_instances a) (ba_users a) (ba_spawn_rate a) (ba_run_time a) (ba_notes a) console
          (map_option splitlines (fs_files fs3 (child d ''locust_stderr.log''))) (sr_now W) \<and>
    fs' = write_summary d s fs3"
  using assms
  by (auto simp: benchmark_main_def Let_def split: prod.splits sum.splits if_splits) blast+

lemma summarize_fields:
  "bs_spawn_rate (summarize_result l n h a u sp rt nt (x, f, avg, p95, rps) r now) = sp"
  "bs_avg_latency_ms (summarize_result l n h a u sp rt nt (x, f, avg, p95, rps) r now) = avg"
  "bs_p95_latency_ms (summarize_result l n h a u sp rt nt (x, f, avg, p95, rps) r now) = p95"
  "bs_requests_per_second (summarize_result l n h a u sp rt nt (x, f, avg, p95, rps) r now) = rps"
  "bs_scenario (summarize_result l n h a u sp rt nt (x, f, avg, p95, rps) r now) = l"
  by (simp_all add: summarize_result_def Let_def split: prod.split)

text \<open>
  C39. A benchmark that succeeds has left its summary behind: in a directory that was not there
  before, \<open>summary.json\<close> is JSON text that reads back as the fields of the summary, floats and
  optional figures included, and the scenario in it is the label of the one that was run.
\<close>

theorem benchmark_summary_on_disk:
  assumes "benchmark_main W a fs = (Inr s, fs')" "fl (ba_spawn_rate a) = ba_spawn_rate a"
  shows "\<exists>d t. d \<notin> set (fs_dirs fs) \<and> fs_files fs d = None \<and>
    fs_files fs' (child d ''summary.json'') = Some t \<and> json_loads t = Some (summary_payload s) \<and>
    fs_files fs' (child d ''summary.md'') = Some (summary_markdown s) \<and>
    then_do (normalize_scenario (ba_scenario a)) display_scenario_name = Inr (bs_scenario s)"
proof -
  obtain hosts scenario shown d fs1 fs3 n f avg p95 rps where run:
    "normalize_scenario (ba_scenario a) = Inr scenario" "display_scenario_name scenario = Inr shown"
    "create_results_dir (ba_output_dir a) (sr_timestamp W) shown fs = Inr (d, fs1)"
    "parse_locust_console_summary (child d ''locust_stderr.log'') fs3 = Inr (n, f, avg, p95, rps)"
    "s = summarize_result shown (collect_test_count (pr_stdout (sr_pytest W)) (pr_stderr (sr_pytest W)) (sr_sources W)) hosts
          (ba_api_instances a) (ba_users a) (ba_spawn_rate a) (ba_run_time a) (ba_notes a) (n, f, avg, p95, rps)
          (map_option splitlines (fs_files fs3 (child d ''locust_stderr.log''))) (sr_now W)"
    "fs' = write_summary d s fs3"
    using benchmark_main_steps [OF assms(1)] by (metis prod_cases5)
  have new: "d \<notin> set (fs_dirs fs)" "fs_files fs d = None"
    using run(3) make_dir_new by (fastforce simp: create_results_dir_def Let_def map_sum_def split: sum.splits)+
  have "json_ok (summary_payload s)"
    using parse_summary_fl [OF run(4)] assms(2) by (auto simp: summary_payload_def run(5) summarize_fields opt_json_ok)
  from json_loads_dumps(3) [OF this] have reads: "json_loads (json_dumps_indent (summary_payload s) @ newline) = Some (summary_payload s)" .
  have "bs_scenario s = shown" by (simp add: run(5) summarize_fields)
  with new reads run(1,2,6) show ?thesis
    by (intro exI [of _ d] exI [of _ "json_dumps_indent (summary_payload s) @ newline"])
       (simp add: write_summary_def then_do_def)
qed

definition example_run :: surroundings where
  "example_run =
     \<lparr>sr_env = Map.empty, sr_executable = ''python'', sr_base = ''/repo'',
      sr_pytest = \<lparr>pr_returncode = 0, pr_stdout = ''3 tests collected in 0.10s'', pr_stderr = []\<rparr>, sr_sources = [],
      sr_prepare = (\<lambda>_ _ _. Inr ()),
      sr_locust = (\<lambda>_ _ fs. (\<lparr>pr_returncode = 1, pr_stdout = [],
         pr_stderr = ''         Aggregated     400  100(25.00%) | 12   3   40   11 | 33.25  8.31''\<rparr>, fs)),
      sr_timestamp = ''20260409T000000Z'', sr_now = ''2026-04-09T00:00:00+00:00''\<rparr>"

definition example_args :: benchmark_args where
  "example_args =
     \<lparr>ba_target_hosts = ''http://localhost:8000/'', ba_scenario = '' Shared-Quota'', ba_users = 40, ba_spawn_rate = 10,
      ba_run_time = ''30s'', ba_api_instances = 1, ba_admin_token = ''t'', ba_output_dir = ''/out'', ba_notes = None,
      ba_skip_prepare = False\<rparr>"

definition no_files :: file_system where
  "no_files = \<lparr>fs_dirs = [], fs_files = Map.empty\<rparr>"

lemma example_console:
  "map_sum id (\<lambda>st. (cs_total_requests st, cs_total_failures st))
     (console_lines (splitlines ''         Aggregated     400  100(25.00%) | 12   3   40   11 | 33.25  8.31'') no_stats) = Inr (Some 400, Some 100)"
  by code_simp

lemma example_front:
  "parse_target_hosts (ba_target_hosts example_args) = Inr [''http://localhost:8000'']"
  "normalize_scenario (ba_scenario example_args) = Inr ''shared-protected''"
  "display_scenario_name ''shared-protected'' = Inr ''shared-quota''"
  "parse_error_report (Some (splitlines ''         Aggregated     400  100(25.00%) | 12   3   40   11 | 33.25  8.31'')) = (0, 0)"
  by code_simp+

definition example_log :: string where
  "example_log = ''         Aggregated     400  100(25.00%) | 12   3   40   11 | 33.25  8.31''"

lemma example_locust:
  "\<exists>g. run_locust (sr_locust example_run) env x b d [h] sc u sp rt f = (Inr (), g) \<and> fs_files g (child d ''locust_stderr.log'') = Some example_log"
  by (simp add: run_locust_def example_run_def Let_def example_log_def)

lemma example_parse:
  assumes "fs_files g p = Some example_log"
  shows "\<exists>avg p95 rps. parse_locust_console_summary p g = Inr (400, 100, avg, p95, rps)"
  using example_console unfolding example_log_def [symmetric]
  by (cases "console_lines (splitlines example_log) no_stats")
     (auto simp: parse_locust_console_summary_def read_text_def assms then_do_def)

lemma example_dir: "\<exists>d fs1. create_results_dir base t n no_files = Inr (d, fs1)"
  by (simp add: create_results_dir_def make_dir_def no_files_def Let_def)

lemma summary_counts:
  assumes "parse_error_report r = (0, 0)"
  shows "bs_allowed_requests (summarize_result l n h a u sp rt nt (400, 100, avg, p95, rps) r now) = 300"
  by (simp add: summarize_result_def assms)

lemma example_benchmark:
  "\<exists>s fs'. benchmark_main example_run example_args no_files = (Inr s, fs') \<and> bs_allowed_requests s = 300"
proof -
  note front = example_front [unfolded example_log_def [symmetric]]
  obtain d fs1 where dir: "create_results_dir (ba_output_dir example_args) (sr_timestamp example_run) ''shared-quota'' no_files = Inr (d, fs1)"
    using example_dir by blast
  have prep: "(if ba_skip_prepare example_args then Inr () else sr_prepare example_run h t sc) = Inr ()" for h t sc
    by (simp add: example_run_def)
  define fs2 where "fs2 = write_text (child d ''metadata.json'')
      (json_dumps_indent (metadata_payload ''shared-quota''
        (collect_test_count (pr_stdout (sr_pytest example_run)) (pr_stderr (sr_pytest example_run)) (sr_sources example_run))
        [''http://localhost:8000''] example_args) @ newline) fs1"
  obtain g where g: "run_locust (sr_locust example_run) (sr_env example_run) (sr_executable example_run) (sr_base example_run) d
      [''http://localhost:8000''] ''shared-protected'' (ba_users example_args) (ba_spawn_rate example_args) (ba_run_time example_args) fs2 = (Inr (), g)"
    "fs_files g (child d ''locust_stderr.log'') = Some example_log" using example_locust by blast
  obtain avg p95 rps where console: "parse_locust_console_summary (child d ''locust_stderr.log'') g = Inr (400, 100, avg, p95, rps)"
    using example_parse [OF g(2)] by blast
  have report: "parse_error_report (map_option splitlines (fs_files g (child d ''locust_stderr.log''))) = (0, 0)"
    using front(4) by (simp add: g(2))
  show ?thesis
    unfolding benchmark_main_def front(1-3) dir Let_def prep fs2_def [symmetric] g(1) console sum.case prod.case
    using summary_counts [OF report] by blast
qed

theorem benchmark_summary_on_disk_witness:
  "\<exists>s fs' t. benchmark_main example_run example_args no_files = (Inr s, fs') \<and> bs_allowed_requests s = 300 \<and>
     json_loads t = Some (summary_payload s) \<and> bs_scenario s = ''shared-quota''"
proof -
  obtain s fs' where run: "benchmark_main example_run example_args no_files = (Inr s, fs')" "bs_allowed_requests s = 300"
    using example_benchmark by blast
  have "fl (ba_spawn_rate example_args) = ba_spawn_rate example_args" by code_simp
  from benchmark_summary_on_disk [OF run(1) this] obtain t where
    "json_loads t = Some (summary_payload s)" "then_do (normalize_scenario (ba_scenario example_args)) display_scenario_name = Inr (bs_scenario s)"
    by blast
  moreover have "then_do (normalize_scenario (ba_scenario example_args)) display_scenario_name = Inr ''shared-quota''" by code_simp
  ultimately show ?thesis using run by auto
qed

text \<open>
  Nothing is measured on policies that were not prepared: when the admin API refuses the
  preparation, or the result directory exists already, the run fails and is the same whatever
  locust would do, and of the result files there is at most the metadata.
\<close>

theorem no_load_without_preparation:
  assumes "benchmark_main W a fs = (Inl e, fs')" "(\<exists>status. e = HTTPStatusError status) \<or> (\<exists>p. e = FileExistsError p)"
  shows "(\<forall>proc. benchmark_main (W\<lparr>sr_locust := proc\<rparr>) a fs = (Inl e, fs')) \<and>
    (\<exists>d t. fs_files fs' = fs_files fs \<or> fs_files fs' = (fs_files fs)(child d ''metadata.json'' \<mapsto> t))"
proof -
  have locust: "\<exists>m. e' = RuntimeError m \<or> e' = PyError IndexError" if "run_locust proc env x b d hs sc u sp rt f = (Inl e', f')" for proc env x b d hs sc u sp rt f e' f'
    using that by (auto simp: run_locust_def Let_def split: list.splits prod.splits if_splits)
  have parse: "\<exists>m. e' = FileNotFoundError m \<or> (\<exists>q. e' = PyError q)" if "parse_locust_console_summary p f = Inl e'" for p f e'
    using that by (auto simp: parse_locust_console_summary_def then_do_def read_text_def split: sum.splits option.splits)
  obtain hosts scenario shown where front: "parse_target_hosts (ba_target_hosts a) = Inr hosts"
    "normalize_scenario (ba_scenario a) = Inr scenario" "display_scenario_name scenario = Inr shown"
    using assms by (auto simp: benchmark_main_def split: sum.splits)
  show ?thesis
  proof (cases "create_results_dir (ba_output_dir a) (sr_timestamp W) shown fs")
    case (Inl e')
    with assms(1) show ?thesis by (simp add: benchmark_main_def front Let_def)
  next
    case (Inr df)
    obtain d fs1 where df: "df = (d, fs1)" by (cases df)
    have files: "fs_files fs1 = fs_files fs"
      using Inr df make_dir_new by (fastforce simp: create_results_dir_def Let_def map_sum_def split: sum.splits)
    let ?prep = "if ba_skip_prepare a then Inr () else sr_prepare W (hd hosts) (ba_admin_token a) scenario"
    show ?thesis
    proof (cases ?prep)
      case (Inl status)
      then have fs': "fs_files fs' = (fs_files fs)(child d ''metadata.json'' \<mapsto> json_dumps_indent (metadata_payload shown
          (collect_test_count (pr_stdout (sr_pytest W)) (pr_stderr (sr_pytest W)) (sr_sources W)) hosts a) @ newline)"
        using assms(1) files by (auto simp: benchmark_main_def front Let_def Inr df)
      have "benchmark_main (W\<lparr>sr_locust := proc\<rparr>) a fs = (Inl e, fs')" for proc
        using Inl assms(1) by (auto simp: benchmark_main_def front Let_def Inr df)
      with fs' show ?thesis by blast
    next
      case prep: (Inr u)
      have False
        using assms prep by (auto simp: benchmark_main_def front Let_def Inr df split: prod.splits sum.splits dest!: locust parse)
      then show ?thesis ..
    qed
  qed
qed

theorem no_load_without_preparation_witness:
  "\<forall>proc. fst (benchmark_main (example_run\<lparr>sr_prepare := \<lambda>_ _ _. Inl 500, sr_locust := proc\<rparr>) example_args no_files) = Inl (HTTPStatusError 500)"
proof -
  let ?W = "example_run\<lparr>sr_prepare := \<lambda>_ _ _. Inl 500\<rparr>"
  have "fst (benchmark_main ?W example_args no_files) = Inl (HTTPStatusError 500)" by code_simp
  then obtain fs' where "benchmark_main ?W example_args no_files = (Inl (HTTPStatusError 500), fs')" by (metis prod.collapse)
  from no_load_without_preparation [OF this] show ?thesis by simp
qed

text \<open>
  The simulation script leaves what it computed: in a directory that was not there before,
  both JSON files read back as the summary and the decisions of the simulation, and a run with
  options outside the simulation's domain writes nothing.
\<close>

theorem simulation_results_on_disk:
  assumes "simulation_main timestamp now a fs = (r, fs')"
  shows "case r of
      Inl e \<Rightarrow> fs' = fs
    | Inr d \<Rightarrow>
        \<exists>summary decisions t u.
          simulate_multi_region_limit (sa_limit a) (sa_replication_lag_ms a) (sa_india_requests a) (sa_us_requests a)
            (sa_request_spacing_ms a) = Inr (summary, decisions) \<and>
          d \<notin> set (fs_dirs fs) \<and> fs_files fs' (child d ''summary.json'') = Some t \<and>
          json_loads t = Some (simulation_payload summary now) \<and>
          fs_files fs' (child d ''decisions.json'') = Some u \<and> json_loads u = Some (JArr (map decision_payload decisions)) \<and>
          fs_files fs' (child d ''summary.md'') = Some (render_markdown summary)"
proof (cases "simulate_multi_region_limit (sa_limit a) (sa_replication_lag_ms a) (sa_india_requests a) (sa_us_requests a) (sa_request_spacing_ms a)")
  case (Inl e)
  with assms show ?thesis by (auto simp: simulation_main_def)
next
  case (Inr x)
  obtain summary decisions where x: "x = (summary, decisions)" by (cases x)
  show ?thesis
  proof (cases "create_results_dir (sa_output_dir a) timestamp ''multi_region_consistency'' fs")
    case (Inl e)
    with assms Inr x show ?thesis by (auto simp: simulation_main_def)
  next
    case dir: (Inr df)
    obtain d fs1 where df: "df = (d, fs1)" by (cases df)
    have new: "d \<notin> set (fs_dirs fs)"
      using dir df make_dir_new by (fastforce simp: create_results_dir_def Let_def map_sum_def split: sum.splits)
    have ok: "json_ok (simulation_payload summary now)" "json_ok (JArr (map decision_payload decisions))"
      by (simp_all add: simulation_payload_def decision_payload_def)
    from assms Inr x dir df have r: "r = Inr d"
      and fs': "fs' = write_text (child d ''summary.md'') (render_markdown summary)
                  (write_text (child d ''decisions.json'') (json_dumps_indent (JArr (map decision_payload decisions)) @ newline)
                    (write_text (child d ''summary.json'') (json_dumps_indent (simulation_payload summary now) @ newline) fs1))"
      by (simp_all add: simulation_main_def)
    show ?thesis
      using json_loads_dumps(3) [OF ok(1)] json_loads_dumps(3) [OF ok(2)] new
      unfolding r fs' sum.case
      by (intro exI [of _ summary] exI [of _ decisions] exI [of _ "json_dumps_indent (simulation_payload summary now) @ newline"]
            exI [of _ "json_dumps_indent (JArr (map decision_payload decisions)) @ newline"]) (simp add: Inr x)
  qed
qed

definition small_simulation :: simulation_args where
  "small_simulation = \<lparr>sa_limit = 2, sa_replication_lag_ms = 100, sa_india_requests = 2, sa_us_requests = 2,
     sa_request_spacing_ms = 10, sa_output_dir = ''/out''\<rparr>"

theorem simulation_results_on_disk_witness:
  "\<exists>d fs' u js. simulation_main ''t'' ''now'' small_simulation no_files = (Inr d, fs') \<and>
     fs_files fs' (child d ''decisions.json'') = Some u \<and> json_loads u = Some (JArr js) \<and> length js = 4"
proof -
  have "case simulation_main ''t'' ''now'' small_simulation no_files of (Inl _, _) \<Rightarrow> False | (Inr _, _) \<Rightarrow> True" by code_simp
  then obtain d fs' where run: "simulation_main ''t'' ''now'' small_simulation no_files = (Inr d, fs')" by (auto split: prod.splits sum.splits)
  have four: "case simulate_multi_region_limit (sa_limit small_simulation) (sa_replication_lag_ms small_simulation)
      (sa_india_requests small_simulation) (sa_us_requests small_simulation) (sa_request_spacing_ms small_simulation) of
        Inl _ \<Rightarrow> False | Inr (_, ds) \<Rightarrow> length ds = 4" by code_simp
  from simulation_results_on_disk [OF run] obtain summary decisions u where
    "simulate_multi_region_limit (sa_limit small_simulation) (sa_replication_lag_ms small_simulation)
      (sa_india_requests small_simulation) (sa_us_requests small_simulation) (sa_request_spacing_ms small_simulation) = Inr (summary, decisions)"
    "fs_files fs' (child d ''decisions.json'') = Some u" "json_loads u = Some (JArr (map decision_payload decisions))" by auto
  with four run show ?thesis by auto
qed

end
