(* ===== verification/Schema.thy ===== *)
theory Schema
  imports Runtime
begin

text \<open>
  The table of policies as the ORM declares it (\<open>app/models/policy.py\<close>) and as the migration
  builds it (\<open>alembic/versions/\<close>), the migration environment (\<open>alembic/env.py\<close>), and which
  policies fit into the table. PostgreSQL enters through what it documents of its types and of
  the data definition commands used here.
\<close>

section \<open>Tables\<close>

datatype sql_type =
    UUID_type
  | String_type nat
  | Text_type
  | Enum_type string "string list"
  | Integer_type
  | Boolean_type
  | DateTime_timezone

datatype server_default = Literal string | SqlTrue | SqlNow

datatype cell =
    NullCell
  | UuidCell uuid
  | TextCell string
  | EnumCell string
  | IntCell int
  | BoolCell bool
  | TimeCell int

text \<open>\<open>col_default\<close> is what the ORM stores when the attribute is not set.\<close>

record column =
  col_name :: string
  col_type :: sql_type
  col_nullable :: bool
  col_primary_key :: bool
  col_default :: "cell option"
  col_server_default :: "server_default option"

record table =
  tb_name :: string
  tb_columns :: "column list"
  tb_unique :: "(string \<times> string list) list"

definition Column :: "string \<Rightarrow> sql_type \<Rightarrow> bool \<Rightarrow> column" where
  "Column name type nullable =
     \<lparr>col_name = name, col_type = type, col_nullable = nullable, col_primary_key = False, col_default = None,
      col_server_default = None\<rparr>"

section \<open>The model\<close>

definition algorithm_type :: sql_type where
  "algorithm_type = Enum_type ''rate_limit_algorithm'' (map algorithm_str [FIXED_WINDOW, SLIDING_WINDOW_LOG, TOKEN_BUCKET])"

definition failure_mode_type :: sql_type where
  "failure_mode_type = Enum_type ''failure_mode'' (map failure_mode_str [FAIL_OPEN, FAIL_CLOSED])"

definition model_columns :: "column list" where
  "model_columns =
     [(Column ''id'' UUID_type False)\<lparr>col_primary_key := True\<rparr>,
      Column ''name'' (String_type 120) False,
      Column ''description'' Text_type True,
      (Column ''algorithm'' algorithm_type False)\<lparr>col_default := Some (EnumCell (algorithm_str TOKEN_BUCKET))\<rparr>,
      Column ''rate'' Integer_type False,
      Column ''window_seconds'' Integer_type False,
      Column ''burst_capacity'' Integer_type True,
      (Column ''active'' Boolean_type False)\<lparr>col_default := Some (BoolCell True)\<rparr>,
      (Column ''priority'' Integer_type False)\<lparr>col_default := Some (IntCell 0)\<rparr>,
      (Column ''version'' Integer_type False)\<lparr>col_default := Some (IntCell 1)\<rparr>,
      Column ''route'' (String_type 255) True,
      Column ''user_id'' (String_type 128) True,
      Column ''ip_address'' (String_type 64) True,
      Column ''tenant_id'' (String_type 128) True,
      Column ''api_key'' (String_type 128) True,
      (Column ''failure_mode'' failure_mode_type False)\<lparr>col_default := Some (EnumCell (failure_mode_str FAIL_CLOSED))\<rparr>,
      (Column ''created_at'' DateTime_timezone False)\<lparr>col_server_default := Some SqlNow\<rparr>,
      (Column ''updated_at'' DateTime_timezone False)\<lparr>col_server_default := Some SqlNow\<rparr>]"

definition rate_limit_policies_model :: table where
  "rate_limit_policies_model =
     \<lparr>tb_name = ''rate_limit_policies'', tb_columns = model_columns,
      tb_unique = [(''uq_rate_limit_policies_name'', [''name''])]\<rparr>"

text \<open>The columns with \<open>index=True\<close>; SQLAlchemy names such an index after table and column.\<close>

definition model_indexes :: "(string \<times> string \<times> string list) list" where
  "model_indexes =
     map (\<lambda>c. (''ix_'' @ tb_name rate_limit_policies_model @ ''_'' @ c, tb_name rate_limit_policies_model, [c]))
       [''name'', ''route'', ''user_id'', ''ip_address'', ''tenant_id'', ''api_key'']"

section \<open>The database schema and its commands\<close>

text \<open>
  A schema has tables, enumerated types, and one name space of indexes, those of unique
  constraints included. The data definition commands raise the errors of PostgreSQL.
\<close>

record schema =
  sc_tables :: "table list"
  sc_types :: "string \<rightharpoonup> string list"
  sc_indexes :: "string \<rightharpoonup> string \<times> string list"

datatype ddl_error =
    DuplicateTable string
  | DuplicateObject string
  | UndefinedTable string
  | UndefinedColumn string
  | UndefinedObject string
  | DependentObjectsStillExist string

datatype migration_op =
    CreateTable table
  | CreateIndex string string "string list"
  | DropIndex string string
  | DropTable string
  | DropEnum string

definition enum_types :: "column list \<Rightarrow> (string \<times> string list) list" where
  "enum_types cs = List.map_filter (\<lambda>c. case col_type c of Enum_type n vs \<Rightarrow> Some (n, vs) | _ \<Rightarrow> None) cs"

fun create_types :: "(string \<times> string list) list \<Rightarrow> (string \<rightharpoonup> string list) \<Rightarrow> ddl_error + (string \<rightharpoonup> string list)" where
  "create_types [] m = Inr m"
| "create_types ((n, vs) # ts) m = (if m n \<noteq> None then Inl (DuplicateObject n) else create_types ts (m(n \<mapsto> vs)))"

fun create_indexes ::
  "string \<Rightarrow> (string \<times> string list) list \<Rightarrow> (string \<rightharpoonup> string \<times> string list) \<Rightarrow> ddl_error + (string \<rightharpoonup> string \<times> string list)" where
  "create_indexes t [] m = Inr m"
| "create_indexes t ((n, cs) # us) m =
     (if m n \<noteq> None then Inl (DuplicateTable n) else create_indexes t us (m(n \<mapsto> (t, cs))))"

definition table_named :: "schema \<Rightarrow> string \<Rightarrow> table option" where
  "table_named s t = find (\<lambda>tb. tb_name tb = t) (sc_tables s)"

definition type_in_use :: "schema \<Rightarrow> string \<Rightarrow> bool" where
  "type_in_use s n \<longleftrightarrow> list_ex (\<lambda>tb. n \<in> fst ` set (enum_types (tb_columns tb))) (sc_tables s)"

text \<open>\<open>DROP TYPE\<close> is only sent when the type exists (\<open>checkfirst=True\<close>).\<close>

fun run_op :: "migration_op \<Rightarrow> schema \<Rightarrow> ddl_error + schema" where
  "run_op (CreateTable t) s =
     (case create_types (enum_types (tb_columns t)) (sc_types s) of
        Inl e \<Rightarrow> Inl e
      | Inr types \<Rightarrow>
          if table_named s (tb_name t) \<noteq> None then Inl (DuplicateTable (tb_name t))
          else (case create_indexes (tb_name t) (tb_unique t) (sc_indexes s) of
                  Inl e \<Rightarrow> Inl e
                | Inr idx \<Rightarrow> Inr \<lparr>sc_tables = sc_tables s @ [t], sc_types = types, sc_indexes = idx\<rparr>))"
| "run_op (CreateIndex n t cs) s =
     (case table_named s t of
        None \<Rightarrow> Inl (UndefinedTable t)
      | Some tb \<Rightarrow>
          (case filter (\<lambda>c. c \<notin> set (map col_name (tb_columns tb))) cs of
             c # _ \<Rightarrow> Inl (UndefinedColumn c)
           | [] \<Rightarrow>
               if sc_indexes s n \<noteq> None then Inl (DuplicateTable n)
               else Inr (s\<lparr>sc_indexes := (sc_indexes s)(n \<mapsto> (t, cs))\<rparr>)))"
| "run_op (DropIndex n t) s =
     (if sc_indexes s n = None then Inl (UndefinedObject n) else Inr (s\<lparr>sc_indexes := (sc_indexes s)(n := None)\<rparr>))"
| "run_op (DropTable t) s =
     (if table_named s t = None then Inl (UndefinedTable t)
      else Inr (s\<lparr>sc_tables := filter (\<lambda>tb. tb_name tb \<noteq> t) (sc_tables s),
                  sc_indexes := (\<lambda>n. case sc_indexes s n of None \<Rightarrow> None | Some (t', cs) \<Rightarrow> if t' = t then None else Some (t', cs))\<rparr>))"
| "run_op (DropEnum n) s =
     (if sc_types s n = None then Inr s
      else if type_in_use s n then Inl (DependentObjectsStillExist n)
      else Inr (s\<lparr>sc_types := (sc_types s)(n := None)\<rparr>))"

fun run_ops :: "migration_op list \<Rightarrow> schema \<Rightarrow> ddl_error + schema" where
  "run_ops [] s = Inr s"
| "run_ops (x # xs) s = (case run_op x s of Inl e \<Rightarrow> Inl e | Inr s' \<Rightarrow> run_ops xs s')"

section \<open>The migration\<close>

definition rate_limit_algorithm_enum :: sql_type where
  "rate_limit_algorithm_enum = Enum_type ''rate_limit_algorithm'' [''fixed_window'', ''sliding_window_log'', ''token_bucket'']"

definition failure_mode_enum :: sql_type where
  "failure_mode_enum = Enum_type ''failure_mode'' [''fail_open'', ''fail_closed'']"

definition migration_table :: table where
  "migration_table =
     \<lparr>tb_name = ''rate_limit_policies'',
      tb_columns =
        [(Column ''id'' UUID_type False)\<lparr>col_primary_key := True\<rparr>,
         Column ''name'' (String_type 120) False,
         Column ''description'' Text_type True,
         Column ''algorithm'' rate_limit_algorithm_enum False,
         Column ''rate'' Integer_type False,
         Column ''window_seconds'' Integer_type False,
         Column ''burst_capacity'' Integer_type True,
         (Column ''active'' Boolean_type False)\<lparr>col_server_default := Some SqlTrue\<rparr>,
         (Column ''priority'' Integer_type False)\<lparr>col_server_default := Some (Literal ''0'')\<rparr>,
         (Column ''version'' Integer_type False)\<lparr>col_server_default := Some (Literal ''1'')\<rparr>,
         Column ''route'' (String_type 255) True,
         Column ''user_id'' (String_type 128) True,
         Column ''ip_address'' (String_type 64) True,
         Column ''tenant_id'' (String_type 128) True,
         Column ''api_key'' (String_type 128) True,
         (Column ''failure_mode'' failure_mode_enum False)\<lparr>col_server_default := Some (Literal ''fail_closed'')\<rparr>,
         (Column ''created_at'' DateTime_timezone False)\<lparr>col_server_default := Some SqlNow\<rparr>,
         (Column ''updated_at'' DateTime_timezone False)\<lparr>col_server_default := Some SqlNow\<rparr>],
      tb_unique = [(''uq_rate_limit_policies_name'', [''name''])]\<rparr>"

definition upgrade :: "migration_op list" where
  "upgrade =
     [CreateTable migration_table,
      CreateIndex ''ix_rate_limit_policies_name'' ''rate_limit_policies'' [''name''],
      CreateIndex ''ix_rate_limit_policies_route'' ''rate_limit_policies'' [''route''],
      CreateIndex ''ix_rate_limit_policies_user_id'' ''rate_limit_policies'' [''user_id''],
      CreateIndex ''ix_rate_limit_policies_ip_address'' ''rate_limit_policies'' [''ip_address''],
      CreateIndex ''ix_rate_limit_policies_tenant_id'' ''rate_limit_policies'' [''tenant_id''],
      CreateIndex ''ix_rate_limit_policies_api_key'' ''rate_limit_policies'' [''api_key'']]"

definition downgrade :: "migration_op list" where
  "downgrade =
     [DropIndex ''ix_rate_limit_policies_api_key'' ''rate_limit_policies'',
      DropIndex ''ix_rate_limit_policies_tenant_id'' ''rate_limit_policies'',
      DropIndex ''ix_rate_limit_policies_ip_address'' ''rate_limit_policies'',
      DropIndex ''ix_rate_limit_policies_user_id'' ''rate_limit_policies'',
      DropIndex ''ix_rate_limit_policies_route'' ''rate_limit_policies'',
      DropIndex ''ix_rate_limit_policies_name'' ''rate_limit_policies'',
      DropTable ''rate_limit_policies'',
      DropEnum ''failure_mode'',
      DropEnum ''rate_limit_algorithm'']"

section \<open>The migration environment\<close>

text \<open>How \<open>alembic/env.py\<close> configures a context: for a script from a URL, or on a connection.\<close>

record context_config =
  ctx_url :: "string option"
  ctx_literal_binds :: bool
  ctx_paramstyle :: "string option"
  ctx_compare_type :: bool

definition offline_config :: "settings \<Rightarrow> context_config" where
  "offline_config S =
     \<lparr>ctx_url = Some (set_database_url S), ctx_literal_binds = True, ctx_paramstyle = Some ''named'', ctx_compare_type = True\<rparr>"

definition online_config :: context_config where
  "online_config = \<lparr>ctx_url = None, ctx_literal_binds = False, ctx_paramstyle = None, ctx_compare_type = True\<rparr>"

text \<open>
  \<open>run\<close> is what \<open>context.run_migrations()\<close> does under a configuration: Alembic chooses the steps
  from the revisions it finds. The block is one transaction of the database.
\<close>

definition do_run_migrations :: "(context_config \<Rightarrow> schema \<Rightarrow> ddl_error + schema) \<Rightarrow> schema \<Rightarrow> (ddl_error + unit) \<times> schema" where
  "do_run_migrations run s =
     (case run online_config s of Inl e \<Rightarrow> (Inl e, s) | Inr s' \<Rightarrow> (Inr (), s'))"

text \<open>The engine is disposed when the migrations have returned; the last component says so.\<close>

definition run_migrations_online ::
  "string + unit \<Rightarrow> (context_config \<Rightarrow> schema \<Rightarrow> ddl_error + schema) \<Rightarrow> schema \<Rightarrow> (string + ddl_error + unit) \<times> schema \<times> bool" where
  "run_migrations_online connect run s =
     (case connect of
        Inl e \<Rightarrow> (Inl e, s, False)
      | Inr _ \<Rightarrow>
          (case do_run_migrations run s of
             (Inl e, s') \<Rightarrow> (Inr (Inl e), s', False)
           | (Inr _, s') \<Rightarrow> (Inr (Inr ()), s', True)))"

section \<open>Rows\<close>

definition opt_cell :: "('a \<Rightarrow> cell) \<Rightarrow> 'a option \<Rightarrow> cell" where
  "opt_cell f x = (case x of None \<Rightarrow> NullCell | Some v \<Rightarrow> f v)"

text \<open>What is written for a policy, in the order of the columns.\<close>

definition policy_cells :: "policy \<Rightarrow> cell list" where
  "policy_cells p =
     [UuidCell (pol_id p), TextCell (pol_name p), opt_cell TextCell (pol_description p),
      EnumCell (algorithm_str (pol_algorithm p)), IntCell (pol_rate p), IntCell (pol_window_seconds p),
      opt_cell IntCell (pol_burst_capacity p), BoolCell (pol_active p), IntCell (pol_priority p),
      IntCell (pol_version p), opt_cell TextCell (pol_route p), opt_cell TextCell (pol_user_id p),
      opt_cell TextCell (pol_ip_address p), opt_cell TextCell (pol_tenant_id p), opt_cell TextCell (pol_api_key p),
      EnumCell (failure_mode_str (pol_failure_mode p)), TimeCell (pol_created_at p), TimeCell (pol_updated_at p)]"

text \<open>
  What PostgreSQL stores under a type: texts up to the length of the type and without the
  character zero, integers of 32 bits, the members of an enumerated type.
\<close>

definition pg_text :: "string \<Rightarrow> bool" where
  "pg_text s \<longleftrightarrow> CHR 0x00 \<notin> set s"

definition int32 :: "int \<Rightarrow> bool" where
  "int32 n \<longleftrightarrow> - (2 ^ 31) \<le> n \<and> n < 2 ^ 31"

fun stores :: "sql_type \<Rightarrow> cell \<Rightarrow> bool" where
  "stores UUID_type (UuidCell _) = True"
| "stores (String_type n) (TextCell s) = (length s \<le> n \<and> pg_text s)"
| "stores Text_type (TextCell s) = pg_text s"
| "stores (Enum_type _ vs) (EnumCell s) = (s \<in> set vs)"
| "stores Integer_type (IntCell n) = int32 n"
| "stores Boolean_type (BoolCell _) = True"
| "stores DateTime_timezone (TimeCell _) = True"
| "stores _ _ = False"

definition column_stores :: "column \<Rightarrow> cell \<Rightarrow> bool" where
  "column_stores c v \<longleftrightarrow> (if v = NullCell then col_nullable c else stores (col_type c) v)"

definition row_stored :: "table \<Rightarrow> cell list \<Rightarrow> bool" where
  "row_stored t vs \<longleftrightarrow> list_all2 column_stores (tb_columns t) vs"

section \<open>Lemmas\<close>

text \<open>What two declarations of a column must agree on; defaults are compared apart.\<close>

definition column_core :: "column \<Rightarrow> string \<times> sql_type \<times> bool \<times> bool" where
  "column_core c = (col_name c, col_type c, col_nullable c, col_primary_key c)"

fun same_default :: "cell \<Rightarrow> server_default \<Rightarrow> bool" where
  "same_default (EnumCell s) (Literal t) = (s = t)"
| "same_default (IntCell n) (Literal t) = (t = int_str n)"
| "same_default (BoolCell b) SqlTrue = b"
| "same_default _ _ = False"

definition defaults_agree :: "column \<Rightarrow> column \<Rightarrow> bool" where
  "defaults_agree m d \<longleftrightarrow>
     (case (col_default m, col_server_default d) of
        (Some v, Some sd) \<Rightarrow> same_default v sd
      | (None, sd) \<Rightarrow> sd = col_server_default m
      | _ \<Rightarrow> True)"

lemma enum_types_migration:
  "enum_types (tb_columns migration_table) =
     [(''rate_limit_algorithm'', [''fixed_window'', ''sliding_window_log'', ''token_bucket'']), (''failure_mode'', [''fail_open'', ''fail_closed''])]"
  by (simp add: enum_types_def migration_table_def Column_def rate_limit_algorithm_enum_def failure_mode_enum_def List.map_filter_simps)

text \<open>A schema in which the names of the migration are free.\<close>

definition fresh_for_upgrade :: "schema \<Rightarrow> bool" where
  "fresh_for_upgrade s \<longleftrightarrow>
     (\<forall>tb\<in>set (sc_tables s). tb_name tb \<noteq> ''rate_limit_policies'' \<and>
        fst ` set (enum_types (tb_columns tb)) \<inter> {''rate_limit_algorithm'', ''failure_mode''} = {}) \<and>
     sc_types s ''rate_limit_algorithm'' = None \<and> sc_types s ''failure_mode'' = None \<and>
     (\<forall>x\<in>set (tb_unique migration_table) \<union> set (map (\<lambda>(n, t, cs). (n, cs)) model_indexes). sc_indexes s (fst x) = None) \<and>
     (\<forall>x\<in>ran (sc_indexes s). fst x \<noteq> ''rate_limit_policies'')"

definition upgraded :: "schema \<Rightarrow> schema" where
  "upgraded s =
     \<lparr>sc_tables = sc_tables s @ [migration_table],
      sc_types = sc_types s ++ map_of (enum_types (tb_columns migration_table)),
      sc_indexes = sc_indexes s ++ map_of (map (\<lambda>(n, cs). (n, tb_name migration_table, cs)) (tb_unique migration_table) @ model_indexes)\<rparr>"

lemma find_append: "find P (xs @ ys) = (case find P xs of Some x \<Rightarrow> Some x | None \<Rightarrow> find P ys)"
  by (induction xs) simp_all

lemma find_none: "\<forall>tb\<in>set ts. tb_name tb \<noteq> n \<Longrightarrow> find (\<lambda>tb. tb_name tb = n) ts = None"
  by (simp add: find_None_iff)

lemma migration_names: "tb_name migration_table = ''rate_limit_policies''" "tb_unique migration_table = [(''uq_rate_limit_policies_name'', [''name''])]"
  by (simp_all add: migration_table_def)

lemma model_indexes_eq:
  "model_indexes =
     [(''ix_rate_limit_policies_name'', ''rate_limit_policies'', [''name'']), (''ix_rate_limit_policies_route'', ''rate_limit_policies'', [''route'']),
      (''ix_rate_limit_policies_user_id'', ''rate_limit_policies'', [''user_id'']),
      (''ix_rate_limit_policies_ip_address'', ''rate_limit_policies'', [''ip_address'']),
      (''ix_rate_limit_policies_tenant_id'', ''rate_limit_policies'', [''tenant_id'']),
      (''ix_rate_limit_policies_api_key'', ''rate_limit_policies'', [''api_key''])]"
  by (simp add: model_indexes_def rate_limit_policies_model_def)

lemma migration_columns:
  "c \<in> {''name'', ''route'', ''user_id'', ''ip_address'', ''tenant_id'', ''api_key''} \<Longrightarrow> c \<in> col_name ` set (tb_columns migration_table)"
  by (auto simp: migration_table_def Column_def)

lemma upgrade_runs:
  assumes "fresh_for_upgrade s"
  shows "run_ops upgrade s = Inr (upgraded s)"
proof -
  have free: "find (\<lambda>tb. tb_name tb = ''rate_limit_policies'') (sc_tables s) = None"
    using assms by (intro find_none) (simp add: fresh_for_upgrade_def)
  show ?thesis
    using assms free
    by (auto simp: migration_columns upgrade_def upgraded_def enum_types_migration find_append table_named_def migration_names model_indexes_eq
        fresh_for_upgrade_def map_add_def fun_eq_iff)
qed

lemma drop_indexes:
  "set ns \<subseteq> dom (sc_indexes s) \<Longrightarrow> distinct ns \<Longrightarrow>
     run_ops (map (\<lambda>n. DropIndex n t) ns) s = Inr (s\<lparr>sc_indexes := sc_indexes s |` (- set ns)\<rparr>)"
proof (induction ns arbitrary: s)
  case (Cons n ns)
  let ?s = "s\<lparr>sc_indexes := (sc_indexes s)(n := None)\<rparr>"
  have "set ns \<subseteq> dom (sc_indexes ?s)" using Cons.prems by auto
  then have "run_ops (map (\<lambda>n. DropIndex n t) ns) ?s = Inr (?s\<lparr>sc_indexes := sc_indexes ?s |` (- set ns)\<rparr>)"
    by (rule Cons.IH) (use Cons.prems(2) in simp)
  moreover have "?s\<lparr>sc_indexes := sc_indexes ?s |` (- set ns)\<rparr> = s\<lparr>sc_indexes := sc_indexes s |` (- set (n # ns))\<rparr>"
    by (cases s) (auto simp: fun_eq_iff restrict_map_def)
  moreover have "sc_indexes s n \<noteq> None" using Cons.prems(1) by auto
  ultimately show ?case by (simp only: list.map run_ops.simps run_op.simps if_False sum.case)
qed (simp add: restrict_map_def)

lemma run_ops_append: "run_ops (xs @ ys) s = (case run_ops xs s of Inl e \<Rightarrow> Inl e | Inr s' \<Rightarrow> run_ops ys s')"
  by (induction xs arbitrary: s) (simp_all split: sum.split)

lemma downgrade_split:
  "downgrade =
     map (\<lambda>n. DropIndex n ''rate_limit_policies'') (rev (map fst model_indexes)) @
       [DropTable ''rate_limit_policies'', DropEnum ''failure_mode'', DropEnum ''rate_limit_algorithm'']"
  by (simp add: downgrade_def model_indexes_eq)

lemma downgrade_runs:
  assumes "fresh_for_upgrade s"
  shows "run_ops downgrade (upgraded s) = Inr s"
proof -
  let ?names = "fst ` set model_indexes" and ?u = "sc_indexes (upgraded s)"
  have idx: "sc_indexes s n = None" if "n \<in> ?names \<or> n = ''uq_rate_limit_policies_name''" for n
    using assms that by (auto simp: fresh_for_upgrade_def migration_names)
  have u: "?u = sc_indexes s ++ map_of ((''uq_rate_limit_policies_name'', ''rate_limit_policies'', [''name'']) # model_indexes)"
    by (simp add: upgraded_def migration_names)
  have drops: "run_ops (map (\<lambda>n. DropIndex n ''rate_limit_policies'') (rev (map fst model_indexes))) (upgraded s) =
      Inr (upgraded s\<lparr>sc_indexes := ?u |` (- ?names)\<rparr>)"
  proof -
    have "set (rev (map fst model_indexes)) \<subseteq> dom ?u" unfolding u dom_map_add dom_map_of_conv_image_fst by auto
    moreover have "distinct (rev (map fst model_indexes))" by (simp add: model_indexes_eq)
    ultimately show ?thesis using drop_indexes [of "rev (map fst model_indexes)" "upgraded s"] by simp
  qed
  have left: "(case (?u |` (- ?names)) n of None \<Rightarrow> None | Some (t, cs) \<Rightarrow> if t = ''rate_limit_policies'' then None else Some (t, cs)) =
      sc_indexes s n" for n
  proof (cases "n \<in> ?names \<or> n = ''uq_rate_limit_policies_name''")
    case True
    then show ?thesis by (auto simp: idx u restrict_map_def split: option.split)
  next
    case False
    then have "?u n = sc_indexes s n" by (simp add: u map_add_def map_of_eq_None_iff [THEN iffD2])
    with False assms show ?thesis
      unfolding fresh_for_upgrade_def restrict_map_def
      by (cases "sc_indexes s n") (auto dest!: bspec [OF _ ranI])
  qed
  have gone: "filter (\<lambda>tb. tb_name tb \<noteq> ''rate_limit_policies'') (sc_tables s) = sc_tables s"
    using assms by (intro filter_True) (simp add: fresh_for_upgrade_def)
  have unused: "\<not> list_ex (\<lambda>tb. n \<in> fst ` set (enum_types (tb_columns tb))) (sc_tables s)"
    if "n = ''rate_limit_algorithm'' \<or> n = ''failure_mode''" for n
    using assms that unfolding fresh_for_upgrade_def list_ex_iff by blast
  have free: "find (\<lambda>tb. tb_name tb = ''rate_limit_policies'') (sc_tables s) = None"
    using assms by (intro find_none) (simp add: fresh_for_upgrade_def)
  have types: "(sc_types s ++ map_of (enum_types (tb_columns migration_table)))(''failure_mode'' := None, ''rate_limit_algorithm'' := None) = sc_types s"
    using assms by (auto simp: enum_types_migration fresh_for_upgrade_def)
  have table: "run_op (DropTable ''rate_limit_policies'') (upgraded s\<lparr>sc_indexes := ?u |` (- ?names)\<rparr>) =
      Inr (s\<lparr>sc_types := sc_types s ++ map_of (enum_types (tb_columns migration_table)), sc_indexes := sc_indexes s\<rparr>)"
    unfolding run_op.simps using gone free left
    by (simp add: table_named_def find_append migration_names upgraded_def)
  show ?thesis
    unfolding downgrade_split run_ops_append drops sum.case run_ops.simps table
    using types by (simp add: type_in_use_def unused enum_types_migration)
qed

section \<open>Properties\<close>

text \<open>
  C36. The migration builds the table the ORM expects: on a schema in which its names are free,
  the upgrade succeeds, and the table it leaves has the columns of the model in the same order
  with the same types, lengths, nullability, primary key and unique constraint, the same
  indexes under the same names, and no default that contradicts the one of the model.
\<close>

theorem migration_builds_model:
  assumes "fresh_for_upgrade s"
  shows "\<exists>s' t. run_ops upgrade s = Inr s' \<and> table_named s' (tb_name rate_limit_policies_model) = Some t \<and>
    map column_core (tb_columns t) = map column_core (tb_columns rate_limit_policies_model) \<and>
    tb_unique t = tb_unique rate_limit_policies_model \<and>
    list_all2 defaults_agree (tb_columns rate_limit_policies_model) (tb_columns t) \<and>
    (\<forall>x\<in>set model_indexes. sc_indexes s' (fst x) = Some (snd x)) \<and>
    (\<forall>c\<in>set (tb_columns rate_limit_policies_model). case col_type c of Enum_type n vs \<Rightarrow> sc_types s' n = Some vs | _ \<Rightarrow> True)"
proof (intro exI conjI)
  show "run_ops upgrade s = Inr (upgraded s)" by (rule upgrade_runs [OF assms])
  have "find (\<lambda>tb. tb_name tb = ''rate_limit_policies'') (sc_tables s) = None"
    using assms by (intro find_none) (simp add: fresh_for_upgrade_def)
  then show "table_named (upgraded s) (tb_name rate_limit_policies_model) = Some migration_table"
    by (simp add: table_named_def upgraded_def find_append migration_names rate_limit_policies_model_def)
  note defs = migration_table_def rate_limit_policies_model_def model_columns_def Column_def column_core_def algorithm_type_def
    failure_mode_type_def rate_limit_algorithm_enum_def failure_mode_enum_def
  show "map column_core (tb_columns migration_table) = map column_core (tb_columns rate_limit_policies_model)"
    "tb_unique migration_table = tb_unique rate_limit_policies_model" by (simp_all add: defs)
  show "list_all2 defaults_agree (tb_columns rate_limit_policies_model) (tb_columns migration_table)"
    by (simp add: defs defaults_agree_def int_str_def) code_simp
  show "\<forall>x\<in>set model_indexes. sc_indexes (upgraded s) (fst x) = Some (snd x)"
    by (simp add: upgraded_def model_indexes_eq migration_names)
  have "sc_types (upgraded s) ''rate_limit_algorithm'' = Some [''fixed_window'', ''sliding_window_log'', ''token_bucket'']"
    "sc_types (upgraded s) ''failure_mode'' = Some [''fail_open'', ''fail_closed'']"
    by (simp_all add: upgraded_def enum_types_migration)
  then show "\<forall>c\<in>set (tb_columns rate_limit_policies_model). case col_type c of Enum_type n vs \<Rightarrow> sc_types (upgraded s) n = Some vs | _ \<Rightarrow> True"
    by (simp add: rate_limit_policies_model_def model_columns_def Column_def algorithm_type_def failure_mode_type_def)
qed

definition empty_schema :: schema where
  "empty_schema = \<lparr>sc_tables = [], sc_types = Map.empty, sc_indexes = Map.empty\<rparr>"

lemma empty_fresh: "fresh_for_upgrade empty_schema"
  by (simp add: fresh_for_upgrade_def empty_schema_def ran_def)

theorem migration_builds_model_witness:
  "\<exists>s'. run_ops upgrade empty_schema = Inr s' \<and> sc_types s' ''failure_mode'' = Some [''fail_open'', ''fail_closed'']"
proof -
  have "(Column ''failure_mode'' failure_mode_type False)\<lparr>col_default := Some (EnumCell (failure_mode_str FAIL_CLOSED))\<rparr> \<in>
      set (tb_columns rate_limit_policies_model)"
    by (simp add: rate_limit_policies_model_def model_columns_def)
  with migration_builds_model [OF empty_fresh] show ?thesis
    by (fastforce simp: Column_def failure_mode_type_def)
qed

text \<open>
  The downgrade undoes the upgrade: tables, types and indexes are what they were, so the
  migration can be run up and down again; running it up twice fails on the first type and, the
  migrations being one transaction, changes nothing.
\<close>

theorem downgrade_undoes_upgrade:
  assumes "fresh_for_upgrade s" "run_ops upgrade s = Inr s'"
  shows "run_ops downgrade s' = Inr s \<and>
    do_run_migrations (\<lambda>_. run_ops upgrade) s' = (Inl (DuplicateObject ''rate_limit_algorithm''), s')"
proof -
  have s': "s' = upgraded s" using assms upgrade_runs by simp
  have "run_ops upgrade (upgraded s) = Inl (DuplicateObject ''rate_limit_algorithm'')"
    by (simp add: upgrade_def enum_types_migration) (simp add: upgraded_def enum_types_migration)
  then show ?thesis using downgrade_runs [OF assms(1)] by (simp add: s' do_run_migrations_def)
qed

theorem downgrade_undoes_upgrade_witness:
  "\<exists>s'. run_ops upgrade empty_schema = Inr s' \<and> run_ops downgrade s' = Inr empty_schema"
  using downgrade_undoes_upgrade [OF empty_fresh] upgrade_runs [OF empty_fresh] by blast

text \<open>
  C37. Which validated policies the table stores: the lengths of the schema are those of the
  columns, so a policy that passes validation is stored exactly when its numbers fit into 32
  bits and its texts have no character zero; nothing else can be refused. The schema bounds
  neither.
\<close>

theorem valid_policy_stored_iff:
  assumes "policy_ok p"
  shows "row_stored rate_limit_policies_model (policy_cells p) \<longleftrightarrow>
    list_all int32 [pol_rate p, pol_window_seconds p, pol_priority p, pol_version p] \<and> pred_option int32 (pol_burst_capacity p) \<and>
    pg_text (pol_name p) \<and>
    list_all (pred_option pg_text) [pol_description p, pol_route p, pol_user_id p, pol_ip_address p, pol_tenant_id p, pol_api_key p]"
proof -
  have lengths: "length (pol_name p) \<le> 120" "length_at_most 255 (pol_route p)" "length_at_most 128 (pol_user_id p)"
    "length_at_most 64 (pol_ip_address p)" "length_at_most 128 (pol_tenant_id p)" "length_at_most 128 (pol_api_key p)"
    using assms
    by (auto simp: policy_ok_def validate_policy_def to_policy_payload_def field_checks_def failed_checks_def Let_def split: if_splits)
  have texts: "column_stores (Column n (String_type k) True) (opt_cell TextCell x) \<longleftrightarrow> pred_option pg_text x"
    if "length_at_most k x" for n k x
    using that by (cases x) (simp_all add: column_stores_def opt_cell_def Column_def length_at_most_def)
  have desc: "column_stores (Column n Text_type True) (opt_cell TextCell x) \<longleftrightarrow> pred_option pg_text x" for n x
    by (cases x) (simp_all add: column_stores_def opt_cell_def Column_def)
  have num: "column_stores (Column n Integer_type True) (opt_cell IntCell x) \<longleftrightarrow> pred_option int32 x" for n x
    by (cases x) (simp_all add: column_stores_def opt_cell_def Column_def)
  have enums: "algorithm_str (pol_algorithm p) \<in> {''fixed_window'', ''sliding_window_log'', ''token_bucket''}"
    "failure_mode_str (pol_failure_mode p) \<in> {''fail_open'', ''fail_closed''}"
    by (cases "pol_algorithm p"; simp) (cases "pol_failure_mode p"; simp)
  have plain: "column_stores (Column n Integer_type False) (IntCell i) = int32 i" "column_stores (Column n (String_type k) False) (TextCell x) = (length x \<le> k \<and> pg_text x)"
    "column_stores (c\<lparr>col_default := d\<rparr>) v = column_stores c v" "column_stores (c\<lparr>col_server_default := sd\<rparr>) v = column_stores c v"
    "column_stores (c\<lparr>col_primary_key := b\<rparr>) v = column_stores c v" "column_stores (Column n UUID_type False) (UuidCell u)"
    "column_stores (Column n Boolean_type False) (BoolCell bb)" "column_stores (Column n DateTime_timezone False) (TimeCell tt)"
    for n i k x c d v sd b u bb tt
    by (simp_all add: column_stores_def Column_def)
  have en: "column_stores (Column ''algorithm'' algorithm_type False) (EnumCell (algorithm_str (pol_algorithm p)))"
    "column_stores (Column ''failure_mode'' failure_mode_type False) (EnumCell (failure_mode_str (pol_failure_mode p)))"
    using enums by (simp_all add: column_stores_def Column_def algorithm_type_def failure_mode_type_def)
  show ?thesis
    unfolding row_stored_def rate_limit_policies_model_def table.simps model_columns_def policy_cells_def
    by (simp add: plain texts desc num en lengths) blast
qed

text \<open>A policy with a rate of \<open>2 ^ 31\<close> passes validation and is not stored.\<close>

theorem valid_policy_stored_iff_witness:
  "policy_ok (example_policy\<lparr>pol_rate := 2 ^ 31\<rparr>) \<and>
   \<not> row_stored rate_limit_policies_model (policy_cells (example_policy\<lparr>pol_rate := 2 ^ 31\<rparr>))"
proof -
  have ok: "policy_ok (example_policy\<lparr>pol_rate := 2 ^ 31\<rparr>)" by code_simp
  with valid_policy_stored_iff [OF ok] show ?thesis by (simp add: int32_def)
qed

end
