(* ===== verification/Logging.thy ===== *)
theory Logging
  imports Json
begin

text \<open>
  The log of an instance (\<open>app/core/logging.py\<close>): what \<open>log_event\<close> hands to the logger, the line
  the formatter makes of a record, and the configuration of the root logger. A field is the
  JSON value that \<open>json.dumps(..., default=str)\<close> makes of it. Shown is that every event is one
  line, which reads back as the event with its fields, whatever texts they hold.
\<close>

section \<open>Records\<close>

text \<open>The message of a record is a dictionary, or a text with its arguments filled in.\<close>

record log_record =
  lg_msg :: "string + (string \<times> json) list"
  lg_levelname :: string
  lg_name :: string
  lg_exception :: "string option"

definition setdefault :: "string \<Rightarrow> json \<Rightarrow> (string \<times> json) list \<Rightarrow> (string \<times> json) list" where
  "setdefault k v d = (if k \<in> fst ` set d then d else d @ [(k, v)])"

definition assign :: "string \<Rightarrow> json \<Rightarrow> (string \<times> json) list \<Rightarrow> (string \<times> json) list" where
  "assign k v d = (if k \<in> fst ` set d then map (\<lambda>(n, x). (n, if n = k then v else x)) d else d @ [(k, v)])"

text \<open>\<open>JsonLogFormatter.format\<close>; \<open>now\<close> is the ISO time of the call.\<close>

definition log_payload :: "string \<Rightarrow> log_record \<Rightarrow> (string \<times> json) list" where
  "log_payload now r =
     (let payload = (case lg_msg r of Inr d \<Rightarrow> d | Inl m \<Rightarrow> [(''message'', JStr m)]);
          payload = setdefault ''timestamp'' (JStr now) payload;
          payload = setdefault ''level'' (JStr (lg_levelname r)) payload;
          payload = setdefault ''logger'' (JStr (lg_name r)) payload
      in case lg_exception r of None \<Rightarrow> payload | Some t \<Rightarrow> assign ''exception'' (JStr t) payload)"

definition format_record :: "string \<Rightarrow> log_record \<Rightarrow> string" where
  "format_record now r = json_dumps (JObj (log_payload now r))"

section \<open>The root logger\<close>

text \<open>The handlers write a formatted record as a line to their stream; the level is a number.\<close>

record root_logger =
  rl_handlers :: "string list"
  rl_level :: int

definition level_number :: "string \<Rightarrow> int option" where
  "level_number name =
     map_of [(''CRITICAL'', 50), (''FATAL'', 50), (''ERROR'', 40), (''WARNING'', 30), (''WARN'', 30), (''INFO'', 20), (''DEBUG'', 10),
             (''NOTSET'', 0)] name"

text \<open>\<open>setLevel\<close> raises for a name it does not know, after the handlers have been replaced.\<close>

definition configure_logging :: "string \<Rightarrow> root_logger \<Rightarrow> (py_error + unit) \<times> root_logger" where
  "configure_logging level rl =
     (let rl1 = rl\<lparr>rl_handlers := [''stdout'']\<rparr>
      in case level_number (upper level) of
           None \<Rightarrow> (Inl (ValueError (''Unknown level: '' @ single_quote (upper level))), rl1)
         | Some n \<Rightarrow> (Inr (), rl1\<lparr>rl_level := n\<rparr>))"

definition get_logger :: "string \<Rightarrow> string" where
  "get_logger name = name"

text \<open>
  \<open>log_event\<close>: a record below the level of the root is dropped; the loggers of the service have
  no level of their own. A root with the level 0 takes everything.
\<close>

definition log_event :: "root_logger \<Rightarrow> string \<Rightarrow> string \<Rightarrow> int \<Rightarrow> string \<Rightarrow> (string \<times> json) list \<Rightarrow> log_record option" where
  "log_event rl logger levelname level event data =
     (if level < rl_level rl then None
      else Some \<lparr>lg_msg = Inr ((''event'', JStr event) # data), lg_levelname = levelname, lg_name = logger, lg_exception = None\<rparr>)"

definition newline_free :: "string \<Rightarrow> bool" where
  "newline_free s \<longleftrightarrow> hd newline \<notin> set s"

section \<open>Lemmas\<close>

definition no_control :: "string \<Rightarrow> bool" where
  "no_control s = list_all (\<lambda>c. is_space c \<longrightarrow> c = CHR '' '') s"

lemma no_control_simps [simp]:
  "no_control []" "no_control (c # s) \<longleftrightarrow> (is_space c \<longrightarrow> c = CHR '' '') \<and> no_control s"
  "no_control (s @ t) \<longleftrightarrow> no_control s \<and> no_control t"
  by (simp_all add: no_control_def)

lemma not_space_no_control: "list_all (\<lambda>c. \<not> is_space c) s \<Longrightarrow> no_control s"
  by (auto simp: no_control_def list_all_iff)

lemma no_control_concat: "\<forall>x\<in>set xs. no_control x \<Longrightarrow> no_control (concat xs)"
  by (induction xs) simp_all

lemma no_control_join: "no_control sep \<Longrightarrow> \<forall>x\<in>set xs. no_control x \<Longrightarrow> no_control (join sep xs)"
  by (induction sep xs rule: join.induct) simp_all

lemma digit_char_not_space: "n < 16 \<Longrightarrow> \<not> is_space (digit_char n)"
  by (simp add: is_space_def Let_def of_char_digit)

lemma no_control_hex: "no_control (hex_digits k n)"
proof -
  have "\<not> is_space c" if "c \<in> set (hex_digits k n)" for c
    using hex_digits_chars [OF that] digit_char_not_space by auto
  then show ?thesis by (simp add: no_control_def list_all_iff)
qed

lemma no_control_escape: "no_control (escape_char c)"
proof -
  have blank: "c = CHR '' ''" if "of_char c = (32 :: nat)"
  proof -
    have "c = char_of (of_char c :: nat)" by simp
    also have "\<dots> = CHR '' ''" unfolding that by code_simp
    finally show ?thesis .
  qed
  then show ?thesis
    by (auto simp: escape_char_def Let_def is_space_def quote_char_def backslash_def no_control_hex)
qed

lemma no_control_string: "no_control (json_string t)"
  unfolding json_string_def by (auto simp: quote_char_def is_space_def Let_def intro!: no_control_concat no_control_escape)

lemma no_control_int: "no_control (int_str n)"
proof -
  have "no_control (nat_str k)" for k by (intro not_space_no_control digits_not_space nat_str_digits)
  then show ?thesis by (simp add: int_str_def is_space_def)
qed

lemma no_control_text: "json_ok j \<Longrightarrow> no_control (json_text one_line level j)"
proof (induction one_line level j rule: json_text.induct)
  case (4 level x)
  then show ?case by (simp add: not_space_no_control repr_not_space)
next
  case (6 level xs)
  then have "\<forall>s\<in>set (map (json_text one_line (level + 1)) xs). no_control s" by simp
  then show ?case by (simp add: bracketed_def one_line_def is_space_def no_control_join)
next
  case (7 level ms)
  let ?f = "\<lambda>(n, j). json_string n @ '': '' @ json_text one_line (level + 1) j"
  have "no_control (json_text one_line (level + 1) (snd m))" if "m \<in> set ms" for m
    using 7 that by (metis json_ok.simps(3) prod.collapse)
  then have "\<forall>s\<in>set (map ?f ms). no_control s" by (auto simp: no_control_string is_space_def)
  then show ?case by (simp add: bracketed_def one_line_def is_space_def no_control_join)
qed (simp_all add: no_control_string no_control_int is_space_def)

lemma has_key: "k \<in> fst ` set d \<longleftrightarrow> map_of d k \<noteq> None"
  by (simp add: map_of_eq_None_iff)

lemma setdefault_simps:
  "distinct (map fst d) \<Longrightarrow> distinct (map fst (setdefault k v d))"
  "map_of (setdefault k v d) x = (case map_of d x of None \<Rightarrow> if x = k then Some v else None | Some y \<Rightarrow> Some y)"
  "set (setdefault k v d) \<subseteq> insert (k, v) (set d)"
proof -
  show "distinct (map fst d) \<Longrightarrow> distinct (map fst (setdefault k v d))" by (auto simp: setdefault_def)
  show "map_of (setdefault k v d) x = (case map_of d x of None \<Rightarrow> if x = k then Some v else None | Some y \<Rightarrow> Some y)"
    unfolding setdefault_def has_key by (auto simp: map_add_def split: option.split)
  show "set (setdefault k v d) \<subseteq> insert (k, v) (set d)" by (auto simp: setdefault_def)
qed

lemma assign_ok:
  assumes "json_ok (JObj d)" "json_ok v"
  shows "json_ok (JObj (assign k v d))"
proof -
  have "map fst (assign k v d) = (if k \<in> fst ` set d then map fst d else map fst d @ [k])"
    by (simp add: assign_def comp_def case_prod_beta)
  moreover have "\<forall>m\<in>set (assign k v d). json_ok (snd m)" using assms by (auto simp: assign_def)
  ultimately show ?thesis using assms(1) by auto
qed

lemma setdefault_ok:
  assumes "json_ok (JObj d)" "json_ok v"
  shows "json_ok (JObj (setdefault k v d))"
  using assms setdefault_simps(1) [of d k v] setdefault_simps(3) [of k v d] by auto

lemma log_payload_ok:
  assumes "case lg_msg r of Inl _ \<Rightarrow> True | Inr d \<Rightarrow> json_ok (JObj d)"
  shows "json_ok (JObj (log_payload now r))"
proof -
  have "json_ok (JObj (case lg_msg r of Inr d \<Rightarrow> d | Inl m \<Rightarrow> [(''message'', JStr m)]))"
    using assms by (auto split: sum.splits)
  then have "json_ok (JObj (setdefault ''logger'' (JStr (lg_name r)) (setdefault ''level'' (JStr (lg_levelname r))
      (setdefault ''timestamp'' (JStr now) (case lg_msg r of Inr d \<Rightarrow> d | Inl m \<Rightarrow> [(''message'', JStr m)])))))"
    by (intro setdefault_ok) (assumption | simp)+
  note base = this
  have "json_ok (JStr t)" for t by simp
  from assign_ok [OF base this] base show ?thesis
    unfolding log_payload_def Let_def by (cases "lg_exception r") (simp_all only: option.case)
qed

text \<open>What the line of an event holds.\<close>

lemma event_payload:
  assumes "lg_msg r = Inr ((''event'', JStr event) # data)" "lg_exception r = None" "''event'' \<notin> fst ` set data"
  shows "map_of (log_payload now r) ''event'' = Some (JStr event)"
    and "map_of data k = Some v \<Longrightarrow> map_of (log_payload now r) k = Some v"
    and "map_of data ''timestamp'' = None \<Longrightarrow> map_of (log_payload now r) ''timestamp'' = Some (JStr now)"
    and "map_of data ''level'' = None \<Longrightarrow> map_of (log_payload now r) ''level'' = Some (JStr (lg_levelname r))"
    and "map_of data ''logger'' = None \<Longrightarrow> map_of (log_payload now r) ''logger'' = Some (JStr (lg_name r))"
proof -
  have payload: "log_payload now r = setdefault ''logger'' (JStr (lg_name r)) (setdefault ''level'' (JStr (lg_levelname r))
      (setdefault ''timestamp'' (JStr now) ((''event'', JStr event) # data)))"
    by (simp only: log_payload_def Let_def assms(1,2) sum.case option.case)
  have "k \<noteq> ''event''" if "map_of data k = Some v"
    using that assms(3) unfolding has_key by auto
  then show "map_of data k = Some v \<Longrightarrow> map_of (log_payload now r) k = Some v"
    by (simp add: payload setdefault_simps(2))
qed (simp_all add: log_payload_def assms(1,2) Let_def setdefault_simps(2))

section \<open>Properties\<close>

text \<open>
  C40. Every event of the log is one line, and the line is the event: what an enabled logger is
  handed is written without a line break, whatever texts the fields hold, and reading the line
  back gives the event's name, every field under its own name, and the time, the level and the
  name of the logger, unless a field of that name takes their place. An event is dropped
  exactly when its level is below the one configured.
\<close>

theorem log_line_reads_back:
  assumes "json_ok (JObj data)" "''event'' \<notin> fst ` set data"
  shows "case log_event rl logger levelname level event data of
      None \<Rightarrow> level < rl_level rl
    | Some r \<Rightarrow> rl_level rl \<le> level \<and> newline_free (format_record now r) \<and>
        (\<exists>d. json_loads (format_record now r) = Some (JObj d) \<and> map_of d ''event'' = Some (JStr event) \<and>
          (\<forall>k v. map_of data k = Some v \<longrightarrow> map_of d k = Some v) \<and>
          (\<forall>k\<in>{''timestamp'', ''level'', ''logger''}. map_of data k = None \<longrightarrow>
            map_of d k = Some (JStr (if k = ''timestamp'' then now else if k = ''level'' then levelname else logger))))"
proof -
  let ?r = "\<lparr>lg_msg = Inr ((''event'', JStr event) # data), lg_levelname = levelname, lg_name = logger, lg_exception = None\<rparr>"
  let ?d = "log_payload now ?r"
  have ok: "json_ok (JObj ?d)" by (rule log_payload_ok) (use assms in simp)
  then have "json_loads (format_record now ?r) = Some (JObj ?d)" by (simp add: format_record_def json_loads_dumps(1) del: json_ok.simps)
  moreover have "no_control (format_record now ?r)"
    using no_control_text [OF ok, of 0] by (simp only: format_record_def json_dumps_def)
  then have "newline_free (format_record now ?r)"
    by (auto simp: newline_free_def no_control_def list_all_iff newline_def is_space_def)
  moreover note event_payload [of ?r event data, OF _ _ assms(2), simplified log_record.simps, OF refl refl]
  ultimately show ?thesis by (auto simp: log_event_def simp del: json_ok.simps)
qed

theorem log_line_reads_back_witness:
  "\<exists>d. json_loads (format_record ''2026-04-09T00:00:00+00:00''
      \<lparr>lg_msg = Inr [(''event'', JStr ''allow''), (''level'', JStr newline)], lg_levelname = ''INFO'', lg_name = ''svc'', lg_exception = None\<rparr>) =
    Some (JObj d) \<and> map_of d ''level'' = Some (JStr newline) \<and> map_of d ''logger'' = Some (JStr ''svc'')"
proof -
  have "json_ok (JObj [(''level'', JStr newline)])" "''event'' \<notin> fst ` set [(''level'', JStr newline)]" by simp_all
  from log_line_reads_back [OF this, where rl = "\<lparr>rl_handlers = [], rl_level = 20\<rparr>" and logger = "''svc''" and levelname = "''INFO''" and level = 20
      and event = "''allow''" and now = "''2026-04-09T00:00:00+00:00''"]
  show ?thesis by (auto simp: log_event_def)
qed

end
