(* ===== verification/Spec2Isabelle.thy ===== *)
theory Spec2Isabelle
  imports Global_Quota Fleet Concurrent_Updates Application Load_Test Script_Runs Schema Logging
begin

text \<open>
  A verification development for the distributed rate limiter: a gateway whose instances
  share their quotas through Lua scripts on one Redis server, with policies in PostgreSQL, a
  cache of them in Redis, and an in-memory limiter for the time Redis is away.

  \<^bold>\<open>How a request goes.\<close> A guard (\<open>app/core/dependencies.py\<close>) or the internal API
  (\<open>app/api/internal.py\<close>) builds the identity of the request and asks the rate limiter
  (\<open>app/services/rate_limiter.py\<close>). It resolves the policy (\<open>policy_service.py\<close>,
  \<open>policy_matcher.py\<close>), derives the Redis key of the quota (\<open>key_builder.py\<close>), runs the
  policy's script (\<open>app/redis/scripts.py\<close>) with retries, and falls back to the local limiter
  (\<open>local_fallback_limiter.py\<close>, \<open>algorithms.py\<close>) or to the failure mode of the policy.

  \<^bold>\<open>Theories, from the bottom up.\<close>

    \<^item> Prelude: shared types, errors, truthiness, rendering of integers, collections of facts.
    \<^item> Binary64: doubles as rationals with one rounding \<open>fl\<close> per operation. Py_Text: stripping,
      splitting, decimal texts of integers and doubles. Json: \<open>json.dumps\<close> and \<open>json.loads\<close>.
    \<^item> Policy: enums, records, field constraints, dictionaries (\<open>app/models/policy.py\<close>,
      \<open>app/schemas/policy.py\<close>). Schema: the table of policies as the ORM and as the migration make
      it, and which policies it stores (\<open>alembic/\<close>). Key_Builder: \<open>RequestIdentity\<close>,
      \<open>build_request_identity\<close>, \<open>build_rate_limit_key\<close>. Policy_Matcher: \<open>policy_matches\<close>,
      \<open>policy_score\<close>, \<open>select_best_policy\<close>.
    \<^item> Algorithms: \<open>apply_fixed_window\<close>, \<open>apply_sliding_window_log\<close>, \<open>apply_token_bucket\<close>.
    \<^item> Redis_Server: the commands as the locale \<open>redis_server\<close> over a view of the live keys,
      its extension \<open>redis_cache_server\<close> (GET, SETEX, DEL), and a keyspace that meets both.
      Lua_Scripts: the three scripts over that interface. Shared_Quota: what one call of a
      script does, against the local algorithm of the same name. Cluster: all interleavings of
      script calls by any number of instances, lost replies, time and other traffic.
    \<^item> Local_Fallback: \<open>LocalFallbackLimiter\<close>; the locale \<open>evicting_store\<close> states when an
      algorithm survives the eviction of its state, and is interpreted for both windows.
    \<^item> Runtime: settings, counters and log events, the policy snapshot, the locale
      \<open>policy_database\<close> with an in-memory database that meets it, and the world an instance
      acts on: database, server, snapshot, limiter, the events it left, and the number of
      interactions so far. Clock readings, \<open>uuid4\<close>, the fate of each Redis command and what
      other clients did to the server before it are an oracle indexed by that number, so a
      theorem that does not constrain the oracle holds for every behaviour of the outside.
    \<^item> Policy_Service: \<open>PolicyService\<close>, every method, with its cache and its invalidation.
      Policy_Codec: the text of the cached list, which meets the locale \<open>policy_codec\<close>. Fleet:
      several instances over one database and one server, with the lookups cut into atomic
      phases at their awaits. Concurrent_Updates: an update in its phases, and two that overlap.
    \<^item> Rate_Limiter: \<open>RateLimiterService\<close>, every method. \<open>attempt_loop\<close> is the retry loop; its
      recursion is on the attempts left, so it ends by construction, and \<open>run_attempts\<close> starts it
      over the range of the source, which \<open>max_attempts\<close> keeps from being empty. Global_Quota:
      histories of evaluations by any number of instances, as runs of the cluster.
    \<^item> Config_Sync: \<open>ConfigControlSyncService\<close>; the locale \<open>policy_decoder\<close> is what it needs of
      the decoding of a body, interpreted by a decoder that coerces nothing.
    \<^item> Gateway: token guards, the guarded route, admin and internal endpoints, the middleware
      (\<open>app/core/security.py\<close>, \<open>app/core/dependencies.py\<close>, \<open>app/api/admin.py\<close>,
      \<open>app/api/internal.py\<close>, \<open>app/middleware/observability.py\<close>). Metrics: the metric families, what
      the registry holds after a run, and what every operation leaves in it
      (\<open>app/core/metrics.py\<close>). Logging: records, their lines, the root logger
      (\<open>app/core/logging.py\<close>).
    \<^item> Lifecycle: clients, sessions, health, startup checks, lifespan and the refresh listener
      (\<open>app/main.py\<close>, \<open>app/redis/client.py\<close>, \<open>app/db/session.py\<close>,
      \<open>app/services/health_service.py\<close>). Routes: the
      routing table and the demo and platform endpoints (\<open>app/api/\<close>). Application: a whole
      instance, from a request to its response.
    \<^item> Multi_Region: the simulation of \<open>app/services/multi_region.py\<close>; the loop ends because a
      request weighs two and a replication one (\<open>pending_work\<close>).
    \<^item> Scripts: seeding, benchmark scenarios, preparation and accounting. Script_Runs: the
      benchmark and the simulation from their options to their files (\<open>scripts/\<close>). Load_Test:
      the simulated users and the accounting of responses (\<open>loadtests/locustfile.py\<close>).

  \<^bold>\<open>Errors\<close> are values: a function that may raise returns a sum with the exception on the left
  (\<open>py_error\<close> of the runtime, \<open>app_error\<close> of the application, \<open>redis_error\<close> of a command, \<open>exn\<close>
  where cancellation matters, \<open>run_failure\<close> of a script). State is passed explicitly and returned.

  \<^bold>\<open>What is shown.\<close> Quotas: the scripts refine the local algorithms, keep their entries
  well-formed, and bound what all instances together admit (Shared_Quota, Cluster), also as the
  callers of the service see it, with retries, failovers and caches between (Global_Quota); the
  local limiter keeps its own bounds except where eviction forgets, which is shown on an
  example (Local_Fallback); the token bucket's rate is bounded up to an explicit rounding error
  (Algorithms). Evaluation: a found policy always leads to a decision, counted once, with the
  retries accounted for; failing over from Redis to the local limiter on the same state gives
  the same decision; an outage is decided by the operator's choice; a lost reply charges twice
  (Rate_Limiter). Policies: every administrative history keeps the table valid, keys separate
  policies and versions, updates are visible to the next lookup unless another
  stores the list in between, upserts are idempotent, the cache reads
  back what it wrote, the snapshot carries an instance through an outage, and an invalidation
  can be lost to a lookup in progress (Policy_Service); overlapping updates merge under one
  version, and can leave a row that no listing reads (Concurrent_Updates); even then no answer is older than the
  two times to live and three lookups, and without changes the fleet converges (Fleet). Around
  it: guard and API agree, a guarded route passes or answers 429 (Gateway); routing is
  unambiguous and endpoints report the decision (Routes); policies change only with a token and
  the metrics account for the traffic (Application); every log event is one line that reads
  back (Logging); the listener survives outages, not other exceptions, and it is stated when
  exactly the lifespan closes what it opened (Lifecycle); a sync applies once and a failed one
  changes nothing (Config_Sync); the migration builds the
  model's table, and its 32-bit columns and NUL characters are the limits of what it stores (Schema); the
  simulation's bounds, and its exactness without lag (Multi_Region); seeding is idempotent
  (Scripts), the result files read back and no load starts before the policies are prepared
  (Script_Runs), and the load test's requests meet the policies prepared for them (Load_Test).

  \<^bold>\<open>Bounds and fuel.\<close> Integers of a reply pass through \<open>float\<close> in \<open>_parse_common_decision\<close>;
  theorems on decisions assume limits and times of at most \<open>2 ^ 53\<close>, where that is exact.
  Counters in Redis stay below \<open>2 ^ 63\<close>. Two functions of Python's library are written with
  fuel: the reader of JSON, whose fuel is twice the length of the text, and the search for the
  shortest decimal of a double, whose fuel reaches its exact decimal; \<open>json_loads_text\<close> and
  \<open>float_repr_roundtrip\<close> show that this is enough.

  \<^bold>\<open>Not modelled.\<close> Overflow, underflow and NaN of doubles; the fields of log events inside the
  services, which are recorded by level and name; the HTTP client, the HTTP server and FastAPI's
  reading and validation of requests, the process runner, argparse's splitting of the command
  line and the processes the benchmark starts, which are parameters of the theories that meet
  them; what SQLAlchemy does behind a session, which is the locale \<open>policy_database\<close> and, for the
  flush of changed attributes, its extension \<open>flushing_database\<close>. \<open>asyncio\<close> runs a method
  between two awaits as one step; interleavings at the awaits that matter, the Redis commands
  and the phases of a lookup, are what the oracle's server steps and the fleet's steps express,
  and a write of the database with its commit and refresh is one step, except where
  Concurrent_Updates takes an update apart.

  \<^bold>\<open>Next.\<close> Token-bucket failover, where script and local limiter differ in rounding and in the
  refill clock; the quota at the boundary of the service for the sliding window and the token
  bucket; a write of the database in its phases, with a session that fails after its commit.
\<close>

end
